(* ===== verification/RR_Prelude.thy ===== *)
theory RR_Prelude
  imports Complex_Main "HOL-Library.Word"
begin

text \<open>
  Shared vocabulary of the development.

  \<^item> Machine integers: Rust's \<open>u64\<close>, \<open>u32\<close> and \<open>u8\<close> are words; \<open>+\<close>, \<open>-\<close>, \<open>*\<close> wrap, as they
    do in the release profile of the workspace (\<open>overflow-checks\<close> is off there), and the
    \<open>saturating_*\<close> methods are defined here.
  \<^item> Text: Rust's \<open>[u8]\<close> and \<open>str\<close> are both \<^typ>\<open>string\<close>, a list of bytes; a \<open>str\<close> is such a list that is
    valid UTF-8. The methods of \<open>str\<close> the program uses are defined here on bytes.
  \<^item> Floating point: \<open>f64\<close> is a rational, an infinity or NaN; rounding is not modelled.
\<close>

unbundle bit_operations_syntax

named_theorems word_bounds \<open>bounds of word operations read as natural numbers\<close>
named_theorems str_simps \<open>computation rules of the byte-string operations\<close>

section \<open>Machine integers\<close>

type_synonym u8 = "8 word"
type_synonym u32 = "32 word"
type_synonym u64 = "64 word"

definition u64_div_ceil :: "u64 \<Rightarrow> u64 \<Rightarrow> u64" where
  "u64_div_ceil a b = a div b + (if a mod b = 0 then 0 else 1)"

definition u64_saturating_sub :: "u64 \<Rightarrow> u64 \<Rightarrow> u64" where
  "u64_saturating_sub a b = (if a < b then 0 else a - b)"

definition u64_saturating_mul :: "u64 \<Rightarrow> u64 \<Rightarrow> u64" where
  "u64_saturating_mul a b = (if unat a * unat b < 2 ^ 64 then a * b else - 1)"

definition u64_saturating_add :: "u64 \<Rightarrow> u64 \<Rightarrow> u64" where
  "u64_saturating_add a b = (if unat a + unat b < 2 ^ 64 then a + b else - 1)"

lemma unat_saturating_sub [word_bounds]: "unat (u64_saturating_sub a b) = unat a - unat b"
  by (auto simp: u64_saturating_sub_def unat_sub_if' word_less_nat_alt)

lemma unat_lt_2_64: "unat (a :: u64) < 2 ^ 64"
  using unsigned_less [of a] by simp

lemma unat_lt_2_32: "unat (a :: u32) < 2 ^ 32"
  using unsigned_less [of a] by simp

lemma unat_max_u64: "unat (- 1 :: u64) = 2 ^ 64 - 1"
  by (simp add: unsigned_minus_1_eq_mask mask_eq_exp_minus_1)

lemma unat_saturating_mul [word_bounds]:
  "unat (u64_saturating_mul a b) = min (unat a * unat b) (2 ^ 64 - 1)"
proof (cases "unat a * unat b < 2 ^ 64")
  case True
  then have "unat (a * b) = unat a * unat b"
    by (simp add: unat_word_ariths)
  with True show ?thesis by (simp add: u64_saturating_mul_def)
next
  case False
  then show ?thesis by (simp add: u64_saturating_mul_def unat_max_u64)
qed

lemma unat_saturating_add [word_bounds]:
  "unat (u64_saturating_add a b) = min (unat a + unat b) (2 ^ 64 - 1)"
proof (cases "unat a + unat b < 2 ^ 64")
  case True
  then have "unat (a + b) = unat a + unat b"
    by (simp add: unat_word_ariths)
  with True show ?thesis by (simp add: u64_saturating_add_def)
next
  case False
  then show ?thesis by (simp add: u64_saturating_add_def unat_max_u64)
qed

lemma unat_add_le: "unat ((a :: u64) + b) \<le> unat a + unat b"
  by (simp add: unat_word_ariths)

lemma unat_min_word: "unat (min a b) = min (unat a) (unat (b :: u64))"
  by (simp add: min_def word_le_nat_alt)

lemma unat_sub_of_le: "b \<le> a \<Longrightarrow> unat ((a :: u64) - b) = unat a - unat b"
  by (simp add: unat_sub)

text \<open>\<open>i64\<close> is an integer reduced into two's complement; \<open>/\<close> truncates towards zero.\<close>

definition i64 :: "int \<Rightarrow> int" where
  "i64 n = signed_take_bit 63 n"

definition i64_div :: "int \<Rightarrow> int \<Rightarrow> int" where
  "i64_div a b = sgn a * sgn b * (\<bar>a\<bar> div \<bar>b\<bar>)"

lemma i64_id: "- (2 ^ 63) \<le> n \<Longrightarrow> n < 2 ^ 63 \<Longrightarrow> i64 n = n"
  by (simp add: i64_def signed_take_bit_int_eq_self)

lemma i64_div_nonneg [simp]: "0 \<le> a \<Longrightarrow> 0 < b \<Longrightarrow> i64_div a b = a div b"
  by (auto simp: i64_div_def sgn_if)

section \<open>Lists and sums\<close>

text \<open>Changing one thread of a family changes a sum over the family by that thread's share.\<close>

lemma sum_fun_upd:
  fixes f :: "'a \<Rightarrow> nat"
  assumes "finite A" "j \<in> A"
  shows "(\<Sum>i\<in>A. f ((t(j := p)) i)) + f (t j) = (\<Sum>i\<in>A. f (t i)) + f p"
proof -
  have "(\<Sum>i\<in>A. f ((t(j := p)) i)) = f p + (\<Sum>i\<in>A - {j}. f (t i))"
    using assms by (subst sum.remove [of A j]) (auto intro!: sum.cong)
  moreover have "(\<Sum>i\<in>A. f (t i)) = f (t j) + (\<Sum>i\<in>A - {j}. f (t i))"
    using assms by (rule sum.remove)
  ultimately show ?thesis by simp
qed

lemma sum_lessThan_2: "(\<Sum>i<2::nat. f i) = f 0 + (f 1 :: nat)"
  by (simp add: numeral_2_eq_2)

section \<open>Floating point values\<close>

datatype f64 = Finite rat | Infinity | NegInfinity | NaN

fun f64_is_finite :: "f64 \<Rightarrow> bool" where
  "f64_is_finite (Finite _) = True"
| "f64_is_finite _ = False"

text \<open>\<open>x > 0.0\<close> and \<open>x >= 0.0\<close>; every comparison with NaN is false.\<close>

fun f64_pos :: "f64 \<Rightarrow> bool" where
  "f64_pos (Finite q) = (0 < q)"
| "f64_pos Infinity = True"
| "f64_pos _ = False"

fun f64_nonneg :: "f64 \<Rightarrow> bool" where
  "f64_nonneg (Finite q) = (0 \<le> q)"
| "f64_nonneg Infinity = True"
| "f64_nonneg _ = False"

fun f64_val :: "f64 \<Rightarrow> rat" where
  "f64_val (Finite q) = q"
| "f64_val _ = 0"

section \<open>Byte strings\<close>

definition LF :: char where "LF = CHR 0x0A"
definition CR :: char where "CR = CHR 0x0D"

lemma LF_neq_CR [simp]: "LF \<noteq> CR" "CR \<noteq> LF"
  by (simp_all add: LF_def CR_def)

text \<open>\<open>str::strip_prefix\<close> and \<open>str::starts_with\<close>.\<close>

fun strip_prefix :: "string \<Rightarrow> string \<Rightarrow> string option" where
  "strip_prefix [] s = Some s"
| "strip_prefix (p # ps) [] = None"
| "strip_prefix (p # ps) (c # cs) = (if p = c then strip_prefix ps cs else None)"

definition starts_with :: "string \<Rightarrow> string \<Rightarrow> bool" where
  "starts_with p s \<longleftrightarrow> strip_prefix p s \<noteq> None"

lemma strip_prefix_append [simp, str_simps]: "strip_prefix p (p @ s) = Some s"
  by (induction p) auto

lemma strip_prefix_Some: "strip_prefix p s = Some r \<longleftrightarrow> s = p @ r"
  by (induction p s rule: strip_prefix.induct) auto

lemma starts_with_append: "starts_with p s \<longleftrightarrow> (\<exists>r. s = p @ r)"
  unfolding starts_with_def using strip_prefix_Some by (metis option.exhaust option.distinct(1))

text \<open>\<open>str::split_once\<close> with an ASCII separator: at its first occurrence.\<close>

fun split_once :: "char \<Rightarrow> string \<Rightarrow> (string \<times> string) option" where
  "split_once c [] = None"
| "split_once c (x # xs) =
     (if x = c then Some ([], xs)
      else map_option (\<lambda>(a, b). (x # a, b)) (split_once c xs))"

lemma split_once_append [simp, str_simps]:
  "c \<notin> set a \<Longrightarrow> split_once c (a @ c # b) = Some (a, b)"
  by (induction a) auto

lemma split_once_None [str_simps]: "split_once c s = None \<longleftrightarrow> c \<notin> set s"
  by (induction s) auto

lemma split_once_Some:
  "split_once c s = Some (a, b) \<longleftrightarrow> s = a @ c # b \<and> c \<notin> set a"
proof
  show "split_once c s = Some (a, b) \<Longrightarrow> s = a @ c # b \<and> c \<notin> set a"
    by (induction s arbitrary: a) (auto split: if_splits)
qed auto

text \<open>\<open>str::split\<close> on a single byte: always at least one piece.\<close>

fun split_on :: "char \<Rightarrow> string \<Rightarrow> string list" where
  "split_on c [] = [[]]"
| "split_on c (x # xs) =
     (if x = c then [] # split_on c xs
      else (case split_on c xs of [] \<Rightarrow> [[x]] | y # ys \<Rightarrow> (x # y) # ys))"

lemma split_on_nonempty [simp]: "split_on c s \<noteq> []"
  by (induction s) (auto split: list.splits)

lemma split_on_free [simp, str_simps]: "c \<notin> set s \<Longrightarrow> split_on c s = [s]"
  by (induction s) auto

lemma split_on_append [simp, str_simps]:
  "c \<notin> set a \<Longrightarrow> split_on c (a @ c # b) = a # split_on c b"
  by (induction a) auto

text \<open>\<open>[String]::join\<close>.\<close>

fun join :: "string \<Rightarrow> string list \<Rightarrow> string" where
  "join sep [] = []"
| "join sep [x] = x"
| "join sep (x # y # ys) = x @ sep @ join sep (y # ys)"

text \<open>A natural number printed in decimal, as \<open>format!\<close> prints the unsigned integers.\<close>

fun decimal :: "nat \<Rightarrow> string" where
  "decimal n = (if n < 10 then [char_of (48 + n)] else decimal (n div 10) @ [char_of (48 + n mod 10)])"

declare decimal.simps [simp del]

text \<open>The dash and the ellipsis of the messages, in UTF-8.\<close>

definition em_dash :: string where
  "em_dash = [CHR 0xE2, CHR 0x80, CHR 0x94]"

definition ellipsis :: string where
  "ellipsis = [CHR 0xE2, CHR 0x80, CHR 0xA6]"

section \<open>UTF-8\<close>

text \<open>
  \<open>std::str::from_utf8\<close> accepts exactly the well-formed byte sequences of the Unicode standard
  (table 3-7): no overlong forms, no surrogates, nothing above U+10FFFF.
\<close>

definition byte :: "char \<Rightarrow> nat" where
  "byte c = of_char c"

lemma byte_Char [simp]:
  "byte (Char b0 b1 b2 b3 b4 b5 b6 b7) = horner_sum of_bool 2 [b0, b1, b2, b3, b4, b5, b6, b7]"
  by (simp add: byte_def)

definition byte_in :: "nat \<Rightarrow> nat \<Rightarrow> char \<Rightarrow> bool" where
  "byte_in lo hi c \<longleftrightarrow> lo \<le> byte c \<and> byte c \<le> hi"

definition utf8_tail :: "char \<Rightarrow> bool" where
  "utf8_tail c = byte_in 128 191 c"

definition utf8_second3 :: "char \<Rightarrow> char \<Rightarrow> bool" where
  "utf8_second3 a b =
     (if byte a = 224 then byte_in 160 191 b
      else if byte a = 237 then byte_in 128 159 b
      else byte_in 225 239 a \<and> utf8_tail b)"

definition utf8_second4 :: "char \<Rightarrow> char \<Rightarrow> bool" where
  "utf8_second4 a b =
     (if byte a = 240 then byte_in 144 191 b
      else if byte a = 244 then byte_in 128 143 b
      else byte_in 241 243 a \<and> utf8_tail b)"

fun utf8_valid :: "string \<Rightarrow> bool" where
  "utf8_valid [] = True"
| "utf8_valid (a # rest) =
     (if byte a < 128 then utf8_valid rest
      else case rest of
        [] \<Rightarrow> False
      | b # rest2 \<Rightarrow>
          if byte_in 194 223 a then utf8_tail b \<and> utf8_valid rest2
          else case rest2 of
            [] \<Rightarrow> False
          | c # rest3 \<Rightarrow>
              if utf8_second3 a b then utf8_tail c \<and> utf8_valid rest3
              else case rest3 of
                [] \<Rightarrow> False
              | d # rest4 \<Rightarrow> utf8_second4 a b \<and> utf8_tail c \<and> utf8_tail d \<and> utf8_valid rest4)"

declare utf8_valid.simps(2) [simp del]

lemma utf8_valid_Cons [simp]: "byte c < 128 \<Longrightarrow> utf8_valid (c # s) = utf8_valid s"
  by (simp add: utf8_valid.simps(2))

definition is_ascii :: "string \<Rightarrow> bool" where
  "is_ascii s \<longleftrightarrow> (\<forall>c \<in> set s. byte c < 128)"

lemma is_ascii_Nil [simp]: "is_ascii []"
  and is_ascii_Cons [simp]: "is_ascii (c # s) \<longleftrightarrow> byte c < 128 \<and> is_ascii s"
  and is_ascii_append [simp]: "is_ascii (s @ t) \<longleftrightarrow> is_ascii s \<and> is_ascii t"
  by (auto simp: is_ascii_def)

lemma utf8_valid_ascii_append: "is_ascii s \<Longrightarrow> utf8_valid (s @ t) = utf8_valid t"
  by (induction s) auto

lemma utf8_valid_ascii: "is_ascii s \<Longrightarrow> utf8_valid s"
  using utf8_valid_ascii_append [of s "[]"] by simp

section \<open>Trimming\<close>

text \<open>The UTF-8 encodings of the characters with the Unicode property \<open>White_Space\<close>.\<close>

definition white_space :: "string list" where
  "white_space =
     map (\<lambda>c. [char_of c]) [9, 10, 11, 12, 13, 32 :: nat]
     @ [[CHR 0xC2, CHR 0x85], [CHR 0xC2, CHR 0xA0], [CHR 0xE1, CHR 0x9A, CHR 0x80]]
     @ map (\<lambda>c. [CHR 0xE2, CHR 0x80, char_of c]) ([128..<139] @ [168, 169, 175 :: nat])
     @ [[CHR 0xE2, CHR 0x81, CHR 0x9F], [CHR 0xE3, CHR 0x80, CHR 0x80]]"

definition strip_space :: "string list \<Rightarrow> string \<Rightarrow> string option" where
  "strip_space spaces s =
     (case List.map_filter (\<lambda>w. strip_prefix w s) spaces of [] \<Rightarrow> None | r # _ \<Rightarrow> Some r)"

text \<open>One character at a time; there are at most as many as bytes.\<close>

fun trim_front :: "string list \<Rightarrow> nat \<Rightarrow> string \<Rightarrow> string" where
  "trim_front spaces 0 s = s"
| "trim_front spaces (Suc n) s =
     (case strip_space spaces s of None \<Rightarrow> s | Some r \<Rightarrow> trim_front spaces n r)"

text \<open>\<open>str::trim\<close>.\<close>

definition trim :: "string \<Rightarrow> string" where
  "trim s =
     (let s = trim_front white_space (length s) s
      in rev (trim_front (map rev white_space) (length s) (rev s)))"

section \<open>Lossy text\<close>

text \<open>
  \<open>String::from_utf8_lossy\<close>: every maximal ill-formed piece becomes one U+FFFD, whose bytes are
  \<open>EF BF BD\<close>.
\<close>

definition replacement :: string where
  "replacement = [CHR 0xEF, CHR 0xBF, CHR 0xBD]"

fun utf8_lossy :: "string \<Rightarrow> string" where
  "utf8_lossy [] = []"
| "utf8_lossy (a # rest) =
     (if byte a < 128 then a # utf8_lossy rest
      else if byte_in 194 223 a then
        (case rest of
           [] \<Rightarrow> replacement
         | b # rest2 \<Rightarrow>
             if utf8_tail b then a # b # utf8_lossy rest2 else replacement @ utf8_lossy rest)
      else
        (case rest of
           [] \<Rightarrow> replacement
         | b # rest2 \<Rightarrow>
             if utf8_second3 a b then
               (case rest2 of
                  [] \<Rightarrow> replacement
                | c # rest3 \<Rightarrow>
                    if utf8_tail c then a # b # c # utf8_lossy rest3
                    else replacement @ utf8_lossy rest2)
             else if utf8_second4 a b then
               (case rest2 of
                  [] \<Rightarrow> replacement
                | c # rest3 \<Rightarrow>
                    if utf8_tail c then
                      (case rest3 of
                         [] \<Rightarrow> replacement
                       | d # rest4 \<Rightarrow>
                           if utf8_tail d then a # b # c # d # utf8_lossy rest4
                           else replacement @ utf8_lossy rest3)
                    else replacement @ utf8_lossy rest2)
             else replacement @ utf8_lossy rest))"

lemma utf8_lossy_id: "utf8_valid s \<Longrightarrow> utf8_lossy s = s"
proof (induction s rule: utf8_valid.induct)
  case (2 a rest)
  note utf8_valid.simps(2) [simp]
  show ?case
  proof (cases rest)
    case Nil
    with 2 show ?thesis by (simp split: if_splits)
  next
    case r1: (Cons b rest2)
    show ?thesis
    proof (cases rest2)
      case Nil
      with 2 r1 show ?thesis by (simp split: if_splits)
    next
      case r2: (Cons c rest3)
      note val = 2(5) and ih = 2(1-4)
      consider "byte a < 128" | "\<not> byte a < 128" "byte_in 194 223 a"
        | "\<not> byte a < 128" "\<not> byte_in 194 223 a" "utf8_second3 a b"
        | "\<not> byte a < 128" "\<not> byte_in 194 223 a" "\<not> utf8_second3 a b" by blast
      then show ?thesis
      proof cases
        case 4
        with val r1 r2 obtain d rest4 where "rest3 = d # rest4" by (cases rest3) simp_all
        with 4 val ih r1 r2 show ?thesis by simp
      qed (use val ih r1 r2 in simp_all)
    qed
  qed
qed simp

end
