(* ===== verification/Token_Bucket.thy ===== *)
theory Token_Bucket
  imports RR_Prelude
begin

text \<open>
  The token bucket of \<open>crates/router-core/src/token_bucket.rs\<close>: first the operations as functions on
  the bucket's state, as a thread sees them that runs alone, then the atomic loads and
  compare-and-swaps of the same code as a step relation over any number of racing threads.
\<close>

section \<open>The bucket and its operations\<close>

record token_bucket =
  tb_available :: u64
  tb_last_refill_ms :: u64
  tb_capacity_milli :: u64
  tb_refill_milli_per_ms :: u64

definition tb_new :: "u64 \<Rightarrow> u64 \<Rightarrow> token_bucket" where
  "tb_new capacity per_second =
     \<lparr>tb_available = capacity * 1000, tb_last_refill_ms = 0,
      tb_capacity_milli = capacity * 1000, tb_refill_milli_per_ms = per_second\<rparr>"

definition tb_credit :: "token_bucket \<Rightarrow> u64 \<Rightarrow> u64 \<Rightarrow> u64" where
  "tb_credit b last_ms now_ms =
     u64_saturating_mul (now_ms - last_ms) (tb_refill_milli_per_ms b)"

definition tb_refilled :: "token_bucket \<Rightarrow> u64 \<Rightarrow> u64 \<Rightarrow> u64" where
  "tb_refilled b current credit = min (current + credit) (tb_capacity_milli b)"

definition tb_refill :: "token_bucket \<Rightarrow> u64 \<Rightarrow> token_bucket" where
  "tb_refill b now_ms =
     (if now_ms \<le> tb_last_refill_ms b then b
      else b\<lparr>tb_last_refill_ms := now_ms,
             tb_available := tb_refilled b (tb_available b) (tb_credit b (tb_last_refill_ms b) now_ms)\<rparr>)"

definition tb_try_consume :: "token_bucket \<Rightarrow> u64 \<Rightarrow> u64 \<Rightarrow> token_bucket \<times> bool" where
  "tb_try_consume b tokens now_ms =
     (let b = tb_refill b now_ms; need = tokens * 1000
      in if tb_available b < need then (b, False)
         else (b\<lparr>tb_available := tb_available b - need\<rparr>, True))"

definition tb_debit_saturating :: "token_bucket \<Rightarrow> u64 \<Rightarrow> u64 \<Rightarrow> token_bucket" where
  "tb_debit_saturating b tokens now_ms =
     (let b = tb_refill b now_ms; need = u64_saturating_mul tokens 1000
      in b\<lparr>tb_available := u64_saturating_sub (tb_available b) need\<rparr>)"

definition tb_clone_state :: "token_bucket \<Rightarrow> token_bucket" where
  "tb_clone_state b =
     \<lparr>tb_available = tb_available b, tb_last_refill_ms = tb_last_refill_ms b,
      tb_capacity_milli = tb_capacity_milli b,
      tb_refill_milli_per_ms = tb_refill_milli_per_ms b\<rparr>"

definition tb_available_tokens :: "token_bucket \<Rightarrow> u64" where
  "tb_available_tokens b = tb_available b div 1000"

section \<open>The invariant of the sequential operations\<close>

definition tb_inv :: "token_bucket \<Rightarrow> bool" where
  "tb_inv b \<longleftrightarrow> tb_available b \<le> tb_capacity_milli b"

lemma tb_inv_new [intro]: "tb_inv (tb_new c r)"
  by (simp add: tb_inv_def tb_new_def)

lemma tb_inv_refill [intro]: "tb_inv b \<Longrightarrow> tb_inv (tb_refill b now)"
  by (simp add: tb_inv_def tb_refill_def tb_refilled_def)

lemma tb_inv_try_consume [intro]: "tb_inv b \<Longrightarrow> tb_inv (fst (tb_try_consume b n now))"
  using tb_inv_refill [of b now]
  by (auto simp: tb_inv_def tb_try_consume_def Let_def word_le_nat_alt word_less_nat_alt unat_sub_if')

lemma tb_inv_debit [intro]: "tb_inv b \<Longrightarrow> tb_inv (tb_debit_saturating b n now)"
  using tb_inv_refill [of b now]
  by (auto simp: tb_inv_def tb_debit_saturating_def Let_def word_le_nat_alt unat_saturating_sub)

lemma tb_refill_frame [simp]:
  "tb_capacity_milli (tb_refill b now) = tb_capacity_milli b"
  "tb_refill_milli_per_ms (tb_refill b now) = tb_refill_milli_per_ms b"
  by (simp_all add: tb_refill_def)

lemma tb_clone_state_id [simp]: "tb_clone_state b = b"
  by (simp add: tb_clone_state_def)

lemma tb_refill_idem: "tb_refill (tb_refill b now) now = tb_refill b now"
  by (simp add: tb_refill_def)

text \<open>A zero-token take credits elapsed time and always succeeds.\<close>

lemma tb_consume_zero [simp]: "tb_try_consume b 0 now = (tb_refill b now, True)"
  by (simp add: tb_try_consume_def Let_def)

lemma tb_try_consume_True:
  "tb_try_consume b n now = (b', True) \<Longrightarrow>
     unat (tb_available b') + unat (n * 1000) = unat (tb_available (tb_refill b now))"
  by (auto simp: tb_try_consume_def Let_def word_less_nat_alt not_less unat_sub_if' split: if_splits)

lemma tb_try_consume_iff:
  "snd (tb_try_consume b n now) \<longleftrightarrow> n * 1000 \<le> tb_available (tb_refill b now)"
  by (auto simp: tb_try_consume_def Let_def)

text \<open>Below the wrap-around the refill adds exactly the elapsed time's worth, capped.\<close>

lemma tb_refill_exact:
  assumes "tb_last_refill_ms b < now"
    and "unat (tb_available b)
           + (unat now - unat (tb_last_refill_ms b)) * unat (tb_refill_milli_per_ms b) < 2 ^ 64"
  shows "unat (tb_available (tb_refill b now)) =
     min (unat (tb_available b)
            + (unat now - unat (tb_last_refill_ms b)) * unat (tb_refill_milli_per_ms b))
         (unat (tb_capacity_milli b))"
proof -
  let ?c = "tb_credit b (tb_last_refill_ms b) now"
  have sub: "unat (now - tb_last_refill_ms b) = unat now - unat (tb_last_refill_ms b)"
    using assms(1) by (simp add: unat_sub_of_le)
  have credit: "unat ?c
      = (unat now - unat (tb_last_refill_ms b)) * unat (tb_refill_milli_per_ms b)"
    using assms(2) by (simp add: tb_credit_def unat_saturating_mul sub)
  then have "unat (tb_available b + ?c) = unat (tb_available b) + unat ?c"
    using assms(2) by (simp add: unat_word_ariths)
  with credit assms(1) show ?thesis
    by (simp add: tb_refill_def tb_refilled_def unat_min_word)
qed

section \<open>Racing threads\<close>

text \<open>
  One thread of the shared bucket is at one of these points of the code; each step performs one
  atomic access. A \<open>compare_exchange_weak\<close> may fail although the values agree, and a failed
  exchange hands back the value it saw, from which the loop goes on.
\<close>

datatype tb_op = Consume u64 | Debit u64

datatype tb_pc =
    TbStart tb_op u64              \<comment> \<open>about to load \<open>last_refill_ms\<close>\<close>
  | TbHaveLast tb_op u64 u64       \<comment> \<open>loaded it\<close>
  | TbWonInterval tb_op u64 u64    \<comment> \<open>won the exchange; the credit is ours\<close>
  | TbCrediting tb_op u64 u64 u64  \<comment> \<open>credit and the balance last seen\<close>
  | TbRefilled tb_op u64           \<comment> \<open>about to load \<open>available\<close>\<close>
  | TbSpending tb_op u64 u64       \<comment> \<open>the balance last seen\<close>
  | TbDone tb_op bool

definition tb_need :: "tb_op \<Rightarrow> u64" where
  "tb_need op = (case op of Consume n \<Rightarrow> n * 1000 | Debit n \<Rightarrow> u64_saturating_mul n 1000)"

inductive tb_thread :: "token_bucket \<Rightarrow> tb_pc \<Rightarrow> token_bucket \<Rightarrow> tb_pc \<Rightarrow> bool" where
  load_last:
    "tb_thread b (TbStart op now) b (TbHaveLast op now (tb_last_refill_ms b))"
| not_due:
    "now \<le> l \<Longrightarrow> tb_thread b (TbHaveLast op now l) b (TbRefilled op now)"
| win_interval:
    "\<not> now \<le> l \<Longrightarrow> tb_last_refill_ms b = l \<Longrightarrow>
     tb_thread b (TbHaveLast op now l)
       (b\<lparr>tb_last_refill_ms := now\<rparr>) (TbWonInterval op now (tb_credit b l now))"
| lose_interval:
    "\<not> now \<le> l \<Longrightarrow> tb_last_refill_ms b \<noteq> l \<Longrightarrow>
     tb_thread b (TbHaveLast op now l) b (TbRefilled op now)"
| load_for_credit:
    "tb_thread b (TbWonInterval op now c) b (TbCrediting op now c (tb_available b))"
| already_full:
    "tb_refilled b cur c = cur \<Longrightarrow> tb_thread b (TbCrediting op now c cur) b (TbRefilled op now)"
| credit:
    "tb_refilled b cur c \<noteq> cur \<Longrightarrow> tb_available b = cur \<Longrightarrow>
     tb_thread b (TbCrediting op now c cur)
       (b\<lparr>tb_available := tb_refilled b cur c\<rparr>) (TbRefilled op now)"
| credit_retry:
    "tb_refilled b cur c \<noteq> cur \<Longrightarrow>
     tb_thread b (TbCrediting op now c cur) b (TbCrediting op now c (tb_available b))"
| load_for_spend:
    "tb_thread b (TbRefilled op now) b (TbSpending op now (tb_available b))"
| refuse:
    "cur < tb_need (Consume n) \<Longrightarrow>
     tb_thread b (TbSpending (Consume n) now cur) b (TbDone (Consume n) False)"
| take:
    "\<not> cur < tb_need (Consume n) \<Longrightarrow> tb_available b = cur \<Longrightarrow>
     tb_thread b (TbSpending (Consume n) now cur)
       (b\<lparr>tb_available := cur - tb_need (Consume n)\<rparr>) (TbDone (Consume n) True)"
| take_retry:
    "\<not> cur < tb_need (Consume n) \<Longrightarrow>
     tb_thread b (TbSpending (Consume n) now cur) b (TbSpending (Consume n) now (tb_available b))"
| drain_nothing:
    "u64_saturating_sub cur (tb_need (Debit n)) = cur \<Longrightarrow>
     tb_thread b (TbSpending (Debit n) now cur) b (TbDone (Debit n) True)"
| drain:
    "u64_saturating_sub cur (tb_need (Debit n)) \<noteq> cur \<Longrightarrow> tb_available b = cur \<Longrightarrow>
     tb_thread b (TbSpending (Debit n) now cur)
       (b\<lparr>tb_available := u64_saturating_sub cur (tb_need (Debit n))\<rparr>) (TbDone (Debit n) True)"
| drain_retry:
    "u64_saturating_sub cur (tb_need (Debit n)) \<noteq> cur \<Longrightarrow>
     tb_thread b (TbSpending (Debit n) now cur) b (TbSpending (Debit n) now (tb_available b))"

inductive_cases tb_thread_doneE: "tb_thread b (TbDone op r) b' pc'"

text \<open>The millitokens a finished thread was granted, and the credit a thread still has to book.\<close>

fun tb_granted :: "tb_pc \<Rightarrow> nat" where
  "tb_granted (TbDone (Consume n) True) = unat (n * 1000)"
| "tb_granted _ = 0"

fun tb_pending :: "tb_pc \<Rightarrow> nat" where
  "tb_pending (TbWonInterval op now c) = unat c"
| "tb_pending (TbCrediting op now c cur) = unat c"
| "tb_pending _ = 0"

inductive tb_system :: "nat \<Rightarrow> token_bucket \<times> (nat \<Rightarrow> tb_pc) \<Rightarrow> token_bucket \<times> (nat \<Rightarrow> tb_pc) \<Rightarrow> bool"
  for n :: nat where
  tb_system_step:
    "i < n \<Longrightarrow> tb_thread b (t i) b' pc' \<Longrightarrow> tb_system n (b, t) (b', t(i := pc'))"

inductive tb_reachable :: "nat \<Rightarrow> token_bucket \<Rightarrow> (nat \<Rightarrow> tb_pc) \<Rightarrow> token_bucket \<times> (nat \<Rightarrow> tb_pc) \<Rightarrow> bool"
  for n :: nat and b0 :: token_bucket and t0 :: "nat \<Rightarrow> tb_pc" where
  tb_reachable_start: "tb_reachable n b0 t0 (b0, t0)"
| tb_reachable_step:
    "tb_reachable n b0 t0 s \<Longrightarrow> tb_system n s s' \<Longrightarrow> tb_reachable n b0 t0 s'"

definition tb_fresh :: "tb_pc \<Rightarrow> bool" where
  "tb_fresh pc \<longleftrightarrow> (\<exists>op now. pc = TbStart op now)"

text \<open>
  The accounting invariant: what has been granted, what is still in the bucket and what credit is
  on its way never exceed a full bucket plus the rate times the time credited so far. It needs
  no bound on the numbers: where the code's addition wraps, it books less, never more.
\<close>

definition tb_books :: "nat \<Rightarrow> nat \<Rightarrow> token_bucket \<Rightarrow> (nat \<Rightarrow> tb_pc) \<Rightarrow> bool" where
  "tb_books n since b t \<longleftrightarrow>
     (\<Sum>i<n. tb_granted (t i)) + unat (tb_available b) + (\<Sum>i<n. tb_pending (t i))
         + unat (tb_refill_milli_per_ms b) * since
       \<le> unat (tb_capacity_milli b)
         + unat (tb_refill_milli_per_ms b) * unat (tb_last_refill_ms b)"

text \<open>What one atomic step of one thread does to the three accounts.\<close>

lemma tb_thread_frame:
  "tb_thread b pc b' pc' \<Longrightarrow>
     tb_capacity_milli b' = tb_capacity_milli b \<and>
     tb_refill_milli_per_ms b' = tb_refill_milli_per_ms b"
  by (induction rule: tb_thread.induct) auto

lemma tb_thread_inv: "tb_thread b pc b' pc' \<Longrightarrow> tb_inv b \<Longrightarrow> tb_inv b'"
proof (induction rule: tb_thread.induct)
  case (take cur n b now)
  then have "cur - tb_need (Consume n) \<le> cur"
    by (intro word_sub_le) simp
  with take show ?case by (simp add: tb_inv_def)
next
  case (drain cur n b now)
  then show ?case by (simp add: tb_inv_def word_le_nat_alt unat_saturating_sub)
qed (simp_all add: tb_inv_def tb_refilled_def)

lemma tb_credit_le:
  "\<not> now \<le> l \<Longrightarrow>
     unat (tb_credit b l now) + unat (tb_refill_milli_per_ms b) * unat l
       \<le> unat (tb_refill_milli_per_ms b) * unat now"
proof -
  assume "\<not> now \<le> l"
  then have lt: "unat l < unat now" and sub: "unat (now - l) = unat now - unat l"
    by (simp_all add: word_le_nat_alt unat_sub_of_le)
  have "unat (tb_credit b l now) \<le> unat (tb_refill_milli_per_ms b) * (unat now - unat l)"
    by (simp add: tb_credit_def unat_saturating_mul sub mult.commute)
  moreover have "unat (tb_refill_milli_per_ms b) * (unat now - unat l)
      + unat (tb_refill_milli_per_ms b) * unat l = unat (tb_refill_milli_per_ms b) * unat now"
    using lt by (simp add: add_mult_distrib2 [symmetric])
  ultimately show ?thesis by linarith
qed

lemma tb_refilled_le: "unat (tb_refilled b cur c) \<le> unat cur + unat c"
  using unat_add_le [of cur c] by (simp add: tb_refilled_def unat_min_word)

lemma tb_thread_books:
  assumes "tb_thread b pc b' pc'"
  shows "tb_granted pc' + unat (tb_available b') + tb_pending pc'
           + unat (tb_refill_milli_per_ms b) * unat (tb_last_refill_ms b)
         \<le> tb_granted pc + unat (tb_available b) + tb_pending pc
           + unat (tb_refill_milli_per_ms b) * unat (tb_last_refill_ms b')"
  using assms
proof (cases rule: tb_thread.cases)
  case (win_interval now l op)
  then show ?thesis using tb_credit_le [of now l b] by simp
next
  case (credit cur c op now)
  then show ?thesis using tb_refilled_le [of b cur c] by simp
next
  case (take cur n now)
  then have "n * 1000 \<le> cur" by (simp add: tb_need_def)
  then show ?thesis using take
    by (simp add: tb_need_def unat_sub_of_le word_le_nat_alt)
next
  case (drain cur n now)
  then show ?thesis by (simp add: unat_saturating_sub)
qed simp_all

lemma tb_system_books:
  assumes "tb_system n (b, t) (b', t')" and "tb_books n since b t"
  shows "tb_books n since b' t'"
proof -
  from assms(1) obtain i pc' where i: "i < n" and th: "tb_thread b (t i) b' pc'"
    and t': "t' = t(i := pc')"
    by (auto elim: tb_system.cases)
  have g: "(\<Sum>k<n. tb_granted (t' k)) + tb_granted (t i)
             = (\<Sum>k<n. tb_granted (t k)) + tb_granted pc'"
    unfolding t' using i by (intro sum_fun_upd) auto
  have p: "(\<Sum>k<n. tb_pending (t' k)) + tb_pending (t i)
             = (\<Sum>k<n. tb_pending (t k)) + tb_pending pc'"
    unfolding t' using i by (intro sum_fun_upd) auto
  show ?thesis
    using assms(2) tb_thread_books [OF th] tb_thread_frame [OF th] g p
    unfolding tb_books_def by simp
qed

lemma tb_books_start:
  assumes "\<And>i. i < n \<Longrightarrow> tb_fresh (t i)" and "tb_inv b"
  shows "tb_books n (unat (tb_last_refill_ms b)) b t"
proof -
  have "tb_granted (t i) = 0 \<and> tb_pending (t i) = 0" if "i < n" for i
    using assms(1) [OF that] by (auto simp: tb_fresh_def)
  then show ?thesis
    using assms(2) by (simp add: tb_books_def tb_inv_def word_le_nat_alt)
qed

lemma tb_reachable_books:
  assumes "tb_reachable n b0 t0 s" and "\<And>i. i < n \<Longrightarrow> tb_fresh (t0 i)" and "tb_inv b0"
  shows "tb_books n (unat (tb_last_refill_ms b0)) (fst s) (snd s)
           \<and> tb_inv (fst s)
           \<and> tb_capacity_milli (fst s) = tb_capacity_milli b0
           \<and> tb_refill_milli_per_ms (fst s) = tb_refill_milli_per_ms b0"
  using assms(1)
proof (induction rule: tb_reachable.induct)
  case tb_reachable_start
  show ?case using tb_books_start [OF assms(2,3)] assms(3) by simp
next
  case (tb_reachable_step s s')
  obtain b t b' t' where ss: "s = (b, t)" "s' = (b', t')" by (cases s, cases s')
  from tb_reachable_step.hyps(2) ss have st: "tb_system n (b, t) (b', t')" by simp
  then have "tb_capacity_milli b' = tb_capacity_milli b \<and>
      tb_refill_milli_per_ms b' = tb_refill_milli_per_ms b"
    by (auto elim!: tb_system.cases dest: tb_thread_frame)
  moreover have "tb_inv b'"
    using st tb_reachable_step.IH ss by (auto elim!: tb_system.cases dest: tb_thread_inv)
  moreover have "tb_books n (unat (tb_last_refill_ms b0)) b' t'"
    using tb_system_books [OF st] tb_reachable_step.IH ss by simp
  ultimately show ?case using tb_reachable_step.IH ss by simp
qed

section \<open>A thread that runs alone computes the sequential operation\<close>

fun tb_run :: "token_bucket \<Rightarrow> tb_op \<Rightarrow> u64 \<Rightarrow> token_bucket \<times> bool" where
  "tb_run b (Consume n) now = tb_try_consume b n now"
| "tb_run b (Debit n) now = (tb_debit_saturating b n now, True)"

fun tb_spend :: "token_bucket \<Rightarrow> tb_op \<Rightarrow> token_bucket \<times> bool" where
  "tb_spend b (Consume n) =
     (if tb_available b < n * 1000 then (b, False)
      else (b\<lparr>tb_available := tb_available b - n * 1000\<rparr>, True))"
| "tb_spend b (Debit n) =
     (b\<lparr>tb_available := u64_saturating_sub (tb_available b) (u64_saturating_mul n 1000)\<rparr>, True)"

lemma tb_run_spend: "tb_run b op now = tb_spend (tb_refill b now) op"
  by (cases op) (auto simp: tb_try_consume_def tb_debit_saturating_def Let_def)

inductive tb_solo :: "token_bucket \<Rightarrow> tb_pc \<Rightarrow> token_bucket \<Rightarrow> tb_pc \<Rightarrow> bool" where
  tb_solo_refl: "tb_solo b pc b pc"
| tb_solo_step: "tb_thread b pc b' pc' \<Longrightarrow> tb_solo b' pc' b'' pc'' \<Longrightarrow> tb_solo b pc b'' pc''"

text \<open>What the rest of the operation will do, and that what a lone thread has loaded is current.\<close>

fun tb_outcome :: "token_bucket \<Rightarrow> tb_pc \<Rightarrow> token_bucket \<times> bool" where
  "tb_outcome b (TbStart op now) = tb_run b op now"
| "tb_outcome b (TbHaveLast op now l) = tb_run b op now"
| "tb_outcome b (TbWonInterval op now c) =
     tb_spend (b\<lparr>tb_available := tb_refilled b (tb_available b) c\<rparr>) op"
| "tb_outcome b (TbCrediting op now c cur) =
     tb_spend (b\<lparr>tb_available := tb_refilled b (tb_available b) c\<rparr>) op"
| "tb_outcome b (TbRefilled op now) = tb_spend b op"
| "tb_outcome b (TbSpending op now cur) = tb_spend b op"
| "tb_outcome b (TbDone op r) = (b, r)"

fun tb_current :: "token_bucket \<Rightarrow> tb_pc \<Rightarrow> bool" where
  "tb_current b (TbHaveLast op now l) = (l = tb_last_refill_ms b)"
| "tb_current b (TbCrediting op now c cur) = (cur = tb_available b)"
| "tb_current b (TbSpending op now cur) = (cur = tb_available b)"
| "tb_current b _ = True"

lemma tb_thread_outcome:
  "tb_thread b pc b' pc' \<Longrightarrow> tb_current b pc \<Longrightarrow>
     tb_current b' pc' \<and> tb_outcome b' pc' = tb_outcome b pc"
  by (induction rule: tb_thread.induct)
    (simp_all add: tb_run_spend tb_refill_def tb_refilled_def tb_credit_def tb_need_def)

lemma tb_solo_outcome:
  "tb_solo b pc b' pc' \<Longrightarrow> tb_current b pc \<Longrightarrow> tb_outcome b' pc' = tb_outcome b pc"
  by (induction rule: tb_solo.induct) (auto dest: tb_thread_outcome)

lemma tb_solo_from_spending:
  "tb_solo b (TbSpending op now (tb_available b)) (fst (tb_spend b op)) (TbDone op (snd (tb_spend b op)))"
proof (cases op)
  case (Consume n)
  show ?thesis
  proof (cases "tb_available b < tb_need (Consume n)")
    case True
    then have "tb_spend b op = (b, False)" by (simp add: Consume tb_need_def)
    with True show ?thesis
      by (simp add: Consume tb_solo_step [OF tb_thread.refuse tb_solo_refl])
  next
    case False
    then have "tb_spend b op
        = (b\<lparr>tb_available := tb_available b - tb_need (Consume n)\<rparr>, True)"
      by (simp add: Consume tb_need_def)
    with False show ?thesis
      by (simp add: Consume tb_solo_step [OF tb_thread.take tb_solo_refl])
  qed
next
  case (Debit n)
  show ?thesis
  proof (cases "u64_saturating_sub (tb_available b) (tb_need (Debit n)) = tb_available b")
    case True
    then have "tb_spend b op = (b, True)" by (simp add: Debit tb_need_def)
    with True show ?thesis
      by (auto simp: Debit intro!: tb_solo_step [OF tb_thread.drain_nothing] tb_solo_refl)
  next
    case False
    then have "tb_thread b (TbSpending (Debit n) now (tb_available b))
        (fst (tb_spend b op)) (TbDone (Debit n) True)"
      using tb_thread.drain [of "tb_available b" n b now] by (simp add: Debit tb_need_def)
    from tb_solo_step [OF this tb_solo_refl] show ?thesis
      by (simp only: Debit tb_spend.simps snd_conv)
  qed
qed

lemma tb_solo_from_refilled:
  "tb_solo b (TbRefilled op now) (fst (tb_spend b op)) (TbDone op (snd (tb_spend b op)))"
  by (rule tb_solo_step [OF tb_thread.load_for_spend tb_solo_from_spending])

lemma tb_solo_from_won:
  "tb_solo b (TbWonInterval op now c)
     (fst (tb_outcome b (TbWonInterval op now c)))
     (TbDone op (snd (tb_outcome b (TbWonInterval op now c))))"
proof (rule tb_solo_step [OF tb_thread.load_for_credit])
  let ?b = "b\<lparr>tb_available := tb_refilled b (tb_available b) c\<rparr>"
  have "tb_solo b (TbCrediting op now c (tb_available b)) (fst (tb_spend ?b op))
      (TbDone op (snd (tb_spend ?b op)))"
  proof (cases "tb_refilled b (tb_available b) c = tb_available b")
    case True
    then have "?b = b" by simp
    with True show ?thesis
      using tb_solo_step [OF tb_thread.already_full [OF True] tb_solo_from_refilled] by simp
  next
    case False
    then show ?thesis
      using tb_solo_step [OF tb_thread.credit [OF False refl] tb_solo_from_refilled] by simp
  qed
  then show "tb_solo b (TbCrediting op now c (tb_available b))
      (fst (tb_outcome b (TbWonInterval op now c)))
      (TbDone op (snd (tb_outcome b (TbWonInterval op now c))))"
    by simp
qed

lemma tb_solo_completes:
  "tb_solo b (TbStart op now) (fst (tb_run b op now)) (TbDone op (snd (tb_run b op now)))"
proof (rule tb_solo_step [OF tb_thread.load_last])
  show "tb_solo b (TbHaveLast op now (tb_last_refill_ms b)) (fst (tb_run b op now))
      (TbDone op (snd (tb_run b op now)))"
  proof (cases "now \<le> tb_last_refill_ms b")
    case True
    then have "tb_refill b now = b" by (simp add: tb_refill_def)
    then show ?thesis
      using tb_solo_step [OF tb_thread.not_due [OF True] tb_solo_from_refilled]
      by (simp add: tb_run_spend)
  next
    case False
    let ?b = "b\<lparr>tb_last_refill_ms := now\<rparr>"
    let ?c = "tb_credit b (tb_last_refill_ms b) now"
    have "tb_outcome ?b (TbWonInterval op now ?c) = tb_run b op now"
      using False by (simp add: tb_run_spend tb_refill_def tb_refilled_def)
    then show ?thesis
      using tb_solo_step [OF tb_thread.win_interval [OF False refl] tb_solo_from_won [of ?b op now ?c]]
      by simp
  qed
qed


text \<open>A lone run of one thread of the system.\<close>

lemma tb_solo_reachable:
  "tb_solo b pc b' pc' \<Longrightarrow> tb_reachable n b0 t0 (b, t) \<Longrightarrow> i < n \<Longrightarrow> t i = pc \<Longrightarrow>
     tb_reachable n b0 t0 (b', t(i := pc'))"
proof (induction arbitrary: t rule: tb_solo.induct)
  case (tb_solo_refl b pc)
  then show ?case by (metis fun_upd_triv)
next
  case (tb_solo_step b pc b' pc' b'' pc'')
  have "tb_reachable n b0 t0 (b', t(i := pc'))"
    using tb_solo_step.prems tb_solo_step.hyps(1)
    by (auto intro: tb_reachable_step tb_system_step)
  from tb_solo_step.IH [OF this tb_solo_step.prems(2)] show ?case
    by (simp only: fun_upd_same fun_upd_upd)
qed

section \<open>Properties\<close>



text \<open>
  A thread that runs alone, through any number of spurious failures, ends exactly with
  the result and the bucket of the sequential operation, and it can always get there.
\<close>

theorem tb_solo_refines_sequential:
  "tb_solo b (TbStart op now) b' (TbDone op r) \<longleftrightarrow> (b', r) = tb_run b op now"
proof
  assume "tb_solo b (TbStart op now) b' (TbDone op r)"
  from tb_solo_outcome [OF this] show "(b', r) = tb_run b op now" by simp
next
  assume "(b', r) = tb_run b op now"
  then have "b' = fst (tb_run b op now)" "r = snd (tb_run b op now)" by (metis fst_conv snd_conv)+
  then show "tb_solo b (TbStart op now) b' (TbDone op r)"
    using tb_solo_completes [of b op now] by simp
qed

text \<open>
  Below the wrap-around of 64-bit arithmetic a take of whole tokens succeeds exactly
  when the balance, with the elapsed time credited at the configured rate and capped at capacity,
  covers them, and it then leaves the difference.
\<close>

theorem tb_try_consume_exact:
  assumes "tb_last_refill_ms b \<le> now"
    and "unat (tb_available b)
           + (unat now - unat (tb_last_refill_ms b)) * unat (tb_refill_milli_per_ms b) < 2 ^ 64"
    and "unat n * 1000 < 2 ^ 64"
    and "tb_inv b"
    and "balance = min (unat (tb_available b)
            + (unat now - unat (tb_last_refill_ms b)) * unat (tb_refill_milli_per_ms b))
          (unat (tb_capacity_milli b))"
  shows "(snd (tb_try_consume b n now) \<longleftrightarrow> unat n * 1000 \<le> balance)
       \<and> unat (tb_available (fst (tb_try_consume b n now)))
           = (if unat n * 1000 \<le> balance then balance - unat n * 1000 else balance)"
proof -
  have bal: "unat (tb_available (tb_refill b now)) = balance"
  proof (cases "tb_last_refill_ms b = now")
    case True
    then have "tb_refill b now = b" by (simp add: tb_refill_def)
    with True show ?thesis using assms(4,5) by (simp add: tb_inv_def word_le_nat_alt)
  next
    case False
    then show ?thesis using assms(1,2,5) by (subst tb_refill_exact) simp_all
  qed
  have need: "unat (n * 1000) = unat n * 1000"
    using assms(3) by (simp add: unat_word_ariths)
  show ?thesis
    using bal need
    by (auto simp: tb_try_consume_def Let_def word_less_nat_alt unat_sub_if')
qed

theorem tb_try_consume_exact_witness:
  "(snd (tb_try_consume (tb_new 1 1) 1 500) \<longleftrightarrow> unat (1 :: u64) * 1000 \<le> (1000 :: nat))
     \<and> unat (tb_available (fst (tb_try_consume (tb_new 1 1) 1 500))) = 0"
proof -
  let ?b = "tb_new 1 1"
  have f: "tb_available ?b = 1000" "tb_last_refill_ms ?b = 0" "tb_refill_milli_per_ms ?b = 1"
      "tb_capacity_milli ?b = 1000"
    by (simp_all add: tb_new_def)
  have "tb_last_refill_ms ?b \<le> 500"
      "unat (tb_available ?b) + (unat (500 :: u64) - unat (tb_last_refill_ms ?b))
         * unat (tb_refill_milli_per_ms ?b) < 2 ^ 64"
      "unat (1 :: u64) * 1000 < (2 :: nat) ^ 64"
      "1000 = min (unat (tb_available ?b) + (unat (500 :: u64) - unat (tb_last_refill_ms ?b))
         * unat (tb_refill_milli_per_ms ?b)) (unat (tb_capacity_milli ?b))"
    unfolding f by simp_all
  from tb_try_consume_exact [OF this(1,2,3) tb_inv_new this(4)] show ?thesis by simp
qed

text \<open>
  The capacity is computed as \<open>capacity * 1000\<close> in 64 bits. A limit of two to the 61
  wraps to an empty bucket, which refuses every token at every time; no check of the
  configuration keeps such a limit out.
\<close>

theorem tb_new_wraps_to_an_empty_bucket:
  "\<not> snd (tb_try_consume (tb_new 2305843009213693952 rate) 1 now)"
  by (simp add: tb_try_consume_iff tb_refill_def tb_refilled_def tb_new_def)

end
