(* ===== verification/Circuit_Breaker.thy ===== *)
theory Circuit_Breaker
  imports RR_Prelude
begin

text \<open>
  The per-key circuit breaker of \<open>crates/router-core/src/breaker.rs\<close>: the packed state word, the
  operations as functions of the breaker's state, the three-state machine they implement with a
  refinement lemma per operation, and the atomic accesses of \<open>admit\<close>, \<open>record_success\<close>,
  \<open>record_failure\<close> and \<open>bench_until\<close> as a step relation over racing threads.
\<close>

section \<open>The packed state word\<close>

definition ST_CLOSED :: u64 where "ST_CLOSED = 0"
definition ST_OPEN :: u64 where "ST_OPEN = 1"
definition ST_HALF_OPEN :: u64 where "ST_HALF_OPEN = 2"

lemmas st_defs = ST_CLOSED_def ST_OPEN_def ST_HALF_OPEN_def

definition br_pack :: "u64 \<Rightarrow> u64 \<Rightarrow> u64" where
  "br_pack since_ms state = (push_bit 2 since_ms OR state)"

definition br_unpack :: "u64 \<Rightarrow> u64 \<times> u64" where
  "br_unpack word = (drop_bit 2 word, word AND 3)"

abbreviation br_since :: "u64 \<Rightarrow> u64" where "br_since w \<equiv> fst (br_unpack w)"
abbreviation br_state :: "u64 \<Rightarrow> u64" where "br_state w \<equiv> snd (br_unpack w)"

text \<open>A timestamp fits beside the state when it is below two to the 62.\<close>

definition fits :: "u64 \<Rightarrow> bool" where
  "fits ms \<longleftrightarrow> unat ms < 2 ^ 62"

lemma push_bit_2_and_3: "push_bit 2 (w :: u64) AND 3 = 0"
proof (rule bit_word_eqI)
  fix n assume "n < LENGTH(64)"
  have "bit (3 :: u64) n \<longleftrightarrow> n < 2"
    using bit_mask_iff [where 'a = u64, of 2 n] by (auto simp: mask_eq_exp_minus_1)
  then show "bit (push_bit 2 w AND 3) n = bit 0 n"
    by (auto simp: bit_simps)
qed

lemma br_state_pack: "st \<in> {ST_CLOSED, ST_OPEN, ST_HALF_OPEN} \<Longrightarrow> br_state (br_pack ms st) = st"
  by (auto simp: br_unpack_def br_pack_def st_defs bit.conj_disj_distrib2 push_bit_2_and_3)

lemma drop_bit_2_push: "fits w \<Longrightarrow> drop_bit 2 (push_bit 2 w) = w"
proof (rule bit_word_eqI)
  fix n assume f: "fits w" and n: "n < LENGTH(64)"
  have high: "\<not> bit w n" if "62 \<le> n"
  proof -
    have "unat w < 2 ^ n"
      using f that power_increasing [of 62 n "2 :: nat"] by (simp add: fits_def)
    then have "\<not> bit (unat w) n" by (simp add: bit_iff_odd)
    then show ?thesis by (simp add: bit_unsigned_iff)
  qed
  then show "bit (drop_bit 2 (push_bit 2 w)) n = bit w n"
    using n high by (cases "62 \<le> n") (auto simp: bit_simps)
qed

lemma br_since_pack:
  assumes "fits ms" "st \<in> {ST_CLOSED, ST_OPEN, ST_HALF_OPEN}"
  shows "br_since (br_pack ms st) = ms"
proof -
  have "drop_bit 2 st = 0" using assms(2) by (auto simp: st_defs)
  then show ?thesis
    using assms(1) by (simp add: br_unpack_def br_pack_def drop_bit_2_push)
qed

lemmas br_pack_simps = br_state_pack br_since_pack

lemma st_distinct [simp]:
  "ST_OPEN \<noteq> ST_CLOSED" "ST_CLOSED \<noteq> ST_OPEN" "ST_HALF_OPEN \<noteq> ST_CLOSED"
  "ST_CLOSED \<noteq> ST_HALF_OPEN" "ST_OPEN \<noteq> ST_HALF_OPEN" "ST_HALF_OPEN \<noteq> ST_OPEN"
  by (simp_all add: st_defs)

section \<open>The breaker and its operations\<close>

datatype admission = Yes | Probe | No

record breaker_config =
  failure_threshold :: u32
  window_ms :: u64
  cooldown_ms :: u64

record breaker =
  br_word :: u64
  br_failures :: u32
  br_window_start_ms :: u64
  br_bench_until_ms :: u64
  br_config :: breaker_config

definition br_new :: "breaker_config \<Rightarrow> breaker" where
  "br_new config =
     \<lparr>br_word = br_pack 0 ST_CLOSED, br_failures = 0, br_window_start_ms = 0,
      br_bench_until_ms = 0, br_config = config\<rparr>"

definition br_is_benched :: "breaker \<Rightarrow> u64 \<Rightarrow> bool" where
  "br_is_benched b now_ms \<longleftrightarrow> br_bench_until_ms b \<noteq> 0 \<and> now_ms < br_bench_until_ms b"

definition br_looks_healthy :: "breaker \<Rightarrow> u64 \<Rightarrow> bool" where
  "br_looks_healthy b now_ms \<longleftrightarrow>
     br_state (br_word b) = ST_CLOSED \<and> \<not> br_is_benched b now_ms"

definition br_bench_until :: "breaker \<Rightarrow> u64 \<Rightarrow> breaker" where
  "br_bench_until b until_ms = b\<lparr>br_bench_until_ms := max (br_bench_until_ms b) until_ms\<rparr>"

definition br_benched_until :: "breaker \<Rightarrow> u64 option" where
  "br_benched_until b = (if br_bench_until_ms b = 0 then None else Some (br_bench_until_ms b))"

definition br_health :: "breaker \<Rightarrow> u64 \<Rightarrow> string" where
  "br_health b now_ms =
     (if br_is_benched b now_ms then ''benched''
      else if br_state (br_word b) = ST_CLOSED then ''healthy''
      else if br_state (br_word b) = ST_HALF_OPEN then ''probing''
      else ''open'')"

definition br_admit :: "breaker \<Rightarrow> u64 \<Rightarrow> breaker \<times> admission" where
  "br_admit b now_ms =
     (let bench = br_bench_until_ms b
      in if bench \<noteq> 0 \<and> now_ms < bench then (b, No)
      else
        let b = (if bench \<noteq> 0 then b\<lparr>br_bench_until_ms := 0\<rparr> else b);
            (since, state) = br_unpack (br_word b)
        in if state = ST_CLOSED then (b, Yes)
           else if u64_saturating_sub now_ms since < cooldown_ms (br_config b) then (b, No)
           else (b\<lparr>br_word := br_pack now_ms ST_HALF_OPEN\<rparr>, Probe))"

definition br_record_success :: "breaker \<Rightarrow> u64 \<Rightarrow> breaker" where
  "br_record_success b now_ms =
     b\<lparr>br_failures := 0, br_word := br_pack 0 ST_CLOSED, br_bench_until_ms := 0\<rparr>"

text \<open>The windowed count of the closed branch: the breaker after counting, and the count.\<close>

definition br_count_failure :: "breaker \<Rightarrow> u64 \<Rightarrow> breaker \<times> u32" where
  "br_count_failure b now_ms =
     (if window_ms (br_config b) < u64_saturating_sub now_ms (br_window_start_ms b)
      then (b\<lparr>br_window_start_ms := now_ms, br_failures := 1\<rparr>, 1)
      else (b\<lparr>br_failures := br_failures b + 1\<rparr>, br_failures b + 1))"

definition br_record_failure :: "breaker \<Rightarrow> u64 \<Rightarrow> breaker" where
  "br_record_failure b now_ms =
     (let state = br_state (br_word b)
      in if state = ST_OPEN then b
      else if state = ST_HALF_OPEN then b\<lparr>br_word := br_pack now_ms ST_OPEN\<rparr>
      else
        let (b, count) = br_count_failure b now_ms
        in if count < failure_threshold (br_config b) then b
           else b\<lparr>br_word := br_pack now_ms ST_OPEN\<rparr>)"

definition br_is_open :: "breaker \<Rightarrow> u64 \<Rightarrow> bool" where
  "br_is_open b now_ms \<longleftrightarrow> \<not> br_looks_healthy b now_ms"

section \<open>The state machine it implements\<close>

datatype circuit = Closed | Opened u64 | HalfOpen u64

record br_spec =
  sp_circuit :: circuit
  sp_failures :: u32
  sp_window_start :: u64
  sp_bench :: "u64 option"

definition circuit_of :: "u64 \<Rightarrow> circuit" where
  "circuit_of w =
     (if br_state w = ST_CLOSED then Closed
      else if br_state w = ST_HALF_OPEN then HalfOpen (br_since w)
      else Opened (br_since w))"

definition br_abs :: "breaker \<Rightarrow> br_spec" where
  "br_abs b =
     \<lparr>sp_circuit = circuit_of (br_word b), sp_failures = br_failures b,
      sp_window_start = br_window_start_ms b, sp_bench = br_benched_until b\<rparr>"

text \<open>The word never holds the fourth bit pattern.\<close>

definition br_wf :: "breaker \<Rightarrow> bool" where
  "br_wf b \<longleftrightarrow> br_state (br_word b) \<in> {ST_CLOSED, ST_OPEN, ST_HALF_OPEN}"

fun circuit_cooled :: "u64 \<Rightarrow> u64 \<Rightarrow> circuit \<Rightarrow> bool" where
  "circuit_cooled cooldown now Closed = True"
| "circuit_cooled cooldown now (Opened since) = (unat cooldown \<le> unat now - unat since)"
| "circuit_cooled cooldown now (HalfOpen since) = (unat cooldown \<le> unat now - unat since)"

definition spec_admit :: "breaker_config \<Rightarrow> br_spec \<Rightarrow> u64 \<Rightarrow> br_spec \<times> admission" where
  "spec_admit cfg s now =
     (if (case sp_bench s of None \<Rightarrow> False | Some t \<Rightarrow> now < t) then (s, No)
      else let s = s\<lparr>sp_bench := None\<rparr>
           in if sp_circuit s = Closed then (s, Yes)
              else if circuit_cooled (cooldown_ms cfg) now (sp_circuit s)
              then (s\<lparr>sp_circuit := HalfOpen now\<rparr>, Probe)
              else (s, No))"

definition spec_success :: "br_spec \<Rightarrow> br_spec" where
  "spec_success s = s\<lparr>sp_circuit := Closed, sp_failures := 0, sp_bench := None\<rparr>"

definition spec_failure :: "breaker_config \<Rightarrow> br_spec \<Rightarrow> u64 \<Rightarrow> br_spec" where
  "spec_failure cfg s now =
     (case sp_circuit s of
        Opened _ \<Rightarrow> s
      | HalfOpen _ \<Rightarrow> s\<lparr>sp_circuit := Opened now\<rparr>
      | Closed \<Rightarrow>
          let fresh = unat (window_ms cfg) < unat now - unat (sp_window_start s);
              count = (if fresh then 1 else sp_failures s + 1);
              s = s\<lparr>sp_failures := count, sp_window_start := (if fresh then now else sp_window_start s)\<rparr>
          in if count < failure_threshold cfg then s else s\<lparr>sp_circuit := Opened now\<rparr>)"

text \<open>Each operation preserves well-formedness and refines the machine.\<close>

lemma circuit_of_pack [simp]:
  "circuit_of (br_pack ms ST_CLOSED) = Closed"
  "fits ms \<Longrightarrow> circuit_of (br_pack ms ST_OPEN) = Opened ms"
  "fits ms \<Longrightarrow> circuit_of (br_pack ms ST_HALF_OPEN) = HalfOpen ms"
  by (simp_all add: circuit_of_def br_pack_simps)

lemma circuit_of_Closed: "circuit_of w = Closed \<longleftrightarrow> br_state w = ST_CLOSED"
  by (simp add: circuit_of_def)

lemma br_wf_new [intro]: "br_wf (br_new c)"
  by (simp add: br_wf_def br_new_def br_state_pack)

lemma br_wf_admit [intro]: "br_wf b \<Longrightarrow> br_wf (fst (br_admit b now))"
  by (auto simp: br_wf_def br_admit_def Let_def br_state_pack split: prod.splits)

lemma br_wf_success [intro]: "br_wf (br_record_success b now)"
  by (simp add: br_wf_def br_record_success_def br_state_pack)

lemma br_wf_failure [intro]: "br_wf b \<Longrightarrow> br_wf (br_record_failure b now)"
  by (auto simp: br_wf_def br_record_failure_def br_count_failure_def Let_def br_state_pack)

lemma br_wf_bench [intro]: "br_wf b \<Longrightarrow> br_wf (br_bench_until b t)"
  by (simp add: br_wf_def br_bench_until_def)

lemma br_admit_config [simp]: "br_config (fst (br_admit b now)) = br_config b"
  by (simp add: br_admit_def Let_def split: prod.splits)

lemma br_record_failure_config [simp]: "br_config (br_record_failure b now) = br_config b"
  by (simp add: br_record_failure_def br_count_failure_def Let_def)

lemma br_record_success_config [simp]: "br_config (br_record_success b now) = br_config b"
  by (simp add: br_record_success_def)

lemma br_bench_until_config [simp]: "br_config (br_bench_until b t) = br_config b"
  by (simp add: br_bench_until_def)

lemma br_admit_refines:
  assumes "fits now" "br_wf b"
  shows "spec_admit (br_config b) (br_abs b) now = (br_abs (fst (br_admit b now)), snd (br_admit b now))"
proof -
  have cooled: "circuit_cooled (cooldown_ms (br_config b)) now (circuit_of (br_word b)) \<longleftrightarrow>
      \<not> u64_saturating_sub now (br_since (br_word b)) < cooldown_ms (br_config b)"
    if "br_state (br_word b) \<noteq> ST_CLOSED"
    using that by (auto simp: circuit_of_def word_less_nat_alt unat_saturating_sub)
  show ?thesis
    using assms(1) cooled
    by (auto simp: spec_admit_def br_admit_def br_abs_def br_benched_until_def Let_def
        circuit_of_Closed split: prod.splits)
qed

lemma br_success_refines: "spec_success (br_abs b) = br_abs (br_record_success b now)"
  by (simp add: spec_success_def br_abs_def br_record_success_def br_benched_until_def)

lemma br_failure_refines:
  assumes "fits now" "br_wf b"
  shows "spec_failure (br_config b) (br_abs b) now = br_abs (br_record_failure b now)"
proof -
  have "circuit_of (br_word b) = Opened (br_since (br_word b))" if "br_state (br_word b) = ST_OPEN"
    using that by (simp add: circuit_of_def)
  moreover have "circuit_of (br_word b) = HalfOpen (br_since (br_word b))"
    if "br_state (br_word b) = ST_HALF_OPEN"
    using that by (simp add: circuit_of_def)
  moreover have "circuit_of (br_word b) = Closed" if "br_state (br_word b) = ST_CLOSED"
    using that by (simp add: circuit_of_def)
  ultimately show ?thesis
    using assms
    by (auto simp: spec_failure_def br_record_failure_def br_abs_def br_wf_def br_count_failure_def
        br_benched_until_def Let_def word_less_nat_alt unat_saturating_sub)
qed


section \<open>Racing threads\<close>

text \<open>
  Each step is one atomic access of the code. \<open>BrFail\<close> points are those of \<open>record_failure\<close>, whose
  closed branch counts in a window with accesses of its own.
\<close>

datatype br_pc =
    BrAdmit u64                    \<comment> \<open>\<open>admit\<close>: about to load the bench\<close>
  | BrClearBench u64 u64           \<comment> \<open>saw an elapsed bench\<close>
  | BrAdmitLoad u64                \<comment> \<open>about to load the word\<close>
  | BrAdmitLoop u64 u64            \<comment> \<open>the word last seen\<close>
  | BrAnswer admission
  | BrFail u64
  | BrFailLoop u64 u64
  | BrFailWindow u64 u64 u64       \<comment> \<open>the word and the window start seen\<close>
  | BrFailReset u64 u64
  | BrFailBump u64 u64
  | BrFailJudge u64 u64 u32
  | BrSuccess
  | BrSuccessWord
  | BrSuccessBench
  | BrBench u64
  | BrDone

inductive br_thread :: "breaker \<Rightarrow> br_pc \<Rightarrow> breaker \<Rightarrow> br_pc \<Rightarrow> bool" where
  admit_benched:
    "br_bench_until_ms b \<noteq> 0 \<Longrightarrow> now < br_bench_until_ms b \<Longrightarrow> br_thread b (BrAdmit now) b (BrAnswer No)"
| admit_elapsed:
    "br_bench_until_ms b \<noteq> 0 \<Longrightarrow> \<not> now < br_bench_until_ms b \<Longrightarrow>
     br_thread b (BrAdmit now) b (BrClearBench now (br_bench_until_ms b))"
| admit_unbenched:
    "br_bench_until_ms b = 0 \<Longrightarrow> br_thread b (BrAdmit now) b (BrAdmitLoad now)"
| clear_bench:
    "br_bench_until_ms b = seen \<Longrightarrow>
     br_thread b (BrClearBench now seen) (b\<lparr>br_bench_until_ms := 0\<rparr>) (BrAdmitLoad now)"
| clear_bench_lost:
    "br_bench_until_ms b \<noteq> seen \<Longrightarrow> br_thread b (BrClearBench now seen) b (BrAdmitLoad now)"
| admit_load:
    "br_thread b (BrAdmitLoad now) b (BrAdmitLoop now (br_word b))"
| admit_closed:
    "br_state cur = ST_CLOSED \<Longrightarrow> br_thread b (BrAdmitLoop now cur) b (BrAnswer Yes)"
| admit_cooling:
    "br_state cur \<noteq> ST_CLOSED \<Longrightarrow>
     u64_saturating_sub now (br_since cur) < cooldown_ms (br_config b) \<Longrightarrow>
     br_thread b (BrAdmitLoop now cur) b (BrAnswer No)"
| admit_probe:
    "br_state cur \<noteq> ST_CLOSED \<Longrightarrow>
     \<not> u64_saturating_sub now (br_since cur) < cooldown_ms (br_config b) \<Longrightarrow>
     br_word b = cur \<Longrightarrow>
     br_thread b (BrAdmitLoop now cur)
       (b\<lparr>br_word := br_pack now ST_HALF_OPEN\<rparr>) (BrAnswer Probe)"
| admit_retry:
    "br_state cur \<noteq> ST_CLOSED \<Longrightarrow>
     \<not> u64_saturating_sub now (br_since cur) < cooldown_ms (br_config b) \<Longrightarrow>
     br_thread b (BrAdmitLoop now cur) b (BrAdmitLoop now (br_word b))"
| fail_load:
    "br_thread b (BrFail now) b (BrFailLoop now (br_word b))"
| fail_open:
    "br_state cur = ST_OPEN \<Longrightarrow> br_thread b (BrFailLoop now cur) b BrDone"
| fail_probe:
    "br_state cur = ST_HALF_OPEN \<Longrightarrow> br_word b = cur \<Longrightarrow>
     br_thread b (BrFailLoop now cur) (b\<lparr>br_word := br_pack now ST_OPEN\<rparr>) BrDone"
| fail_probe_retry:
    "br_state cur = ST_HALF_OPEN \<Longrightarrow>
     br_thread b (BrFailLoop now cur) b (BrFailLoop now (br_word b))"
| fail_closed:
    "br_state cur \<notin> {ST_OPEN, ST_HALF_OPEN} \<Longrightarrow>
     br_thread b (BrFailLoop now cur) b (BrFailWindow now cur (br_window_start_ms b))"
| fail_new_window:
    "window_ms (br_config b) < u64_saturating_sub now ws \<Longrightarrow> br_window_start_ms b = ws \<Longrightarrow>
     br_thread b (BrFailWindow now cur ws) (b\<lparr>br_window_start_ms := now\<rparr>) (BrFailReset now cur)"
| fail_same_window:
    "\<not> (window_ms (br_config b) < u64_saturating_sub now ws \<and> br_window_start_ms b = ws) \<Longrightarrow>
     br_thread b (BrFailWindow now cur ws) b (BrFailBump now cur)"
| fail_reset:
    "br_thread b (BrFailReset now cur) (b\<lparr>br_failures := 1\<rparr>) (BrFailJudge now cur 1)"
| fail_bump:
    "br_thread b (BrFailBump now cur)
       (b\<lparr>br_failures := br_failures b + 1\<rparr>) (BrFailJudge now cur (br_failures b + 1))"
| fail_below:
    "count < failure_threshold (br_config b) \<Longrightarrow> br_thread b (BrFailJudge now cur count) b BrDone"
| fail_trip:
    "\<not> count < failure_threshold (br_config b) \<Longrightarrow> br_word b = cur \<Longrightarrow>
     br_thread b (BrFailJudge now cur count) (b\<lparr>br_word := br_pack now ST_OPEN\<rparr>) BrDone"
| fail_trip_retry:
    "\<not> count < failure_threshold (br_config b) \<Longrightarrow>
     br_thread b (BrFailJudge now cur count) b (BrFailLoop now (br_word b))"
| success_failures:
    "br_thread b BrSuccess (b\<lparr>br_failures := 0\<rparr>) BrSuccessWord"
| success_word:
    "br_thread b BrSuccessWord (b\<lparr>br_word := br_pack 0 ST_CLOSED\<rparr>) BrSuccessBench"
| success_bench:
    "br_thread b BrSuccessBench (b\<lparr>br_bench_until_ms := 0\<rparr>) BrDone"
| bench_later:
    "br_thread b (BrBench until) (br_bench_until b until) BrDone"

text \<open>The clock reading a thread carries.\<close>

fun br_clock :: "br_pc \<Rightarrow> u64 option" where
  "br_clock (BrAdmit now) = Some now"
| "br_clock (BrClearBench now _) = Some now"
| "br_clock (BrAdmitLoad now) = Some now"
| "br_clock (BrAdmitLoop now _) = Some now"
| "br_clock (BrFail now) = Some now"
| "br_clock (BrFailLoop now _) = Some now"
| "br_clock (BrFailWindow now _ _) = Some now"
| "br_clock (BrFailReset now _) = Some now"
| "br_clock (BrFailBump now _) = Some now"
| "br_clock (BrFailJudge now _ _) = Some now"
| "br_clock _ = None"

definition br_now :: "br_pc \<Rightarrow> u64" where
  "br_now pc = (case br_clock pc of None \<Rightarrow> 0 | Some now \<Rightarrow> now)"

text \<open>
  A ghost log keeps the times of the probes admitted since an outcome last reached the word, newest
  first: a probe adds itself, a transition by a failure or a success clears the log.
\<close>

definition br_log_step :: "breaker \<Rightarrow> br_pc \<Rightarrow> breaker \<Rightarrow> br_pc \<Rightarrow> u64 list \<Rightarrow> u64 list" where
  "br_log_step b pc b' pc' plog =
     (if pc' = BrAnswer Probe then br_now pc # plog
      else if br_word b' \<noteq> br_word b then [] else plog)"

type_synonym br_world = "breaker \<times> (nat \<Rightarrow> br_pc) \<times> u64 list"

inductive br_system :: "nat \<Rightarrow> br_world \<Rightarrow> br_world \<Rightarrow> bool" for n :: nat where
  br_system_step:
    "i < n \<Longrightarrow> br_thread b (t i) b' pc' \<Longrightarrow>
     br_system n (b, t, plog) (b', t(i := pc'), br_log_step b (t i) b' pc' plog)"

inductive br_reachable :: "nat \<Rightarrow> br_world \<Rightarrow> br_world \<Rightarrow> bool" for n :: nat and w0 :: br_world where
  br_reachable_start: "br_reachable n w0 w0"
| br_reachable_step: "br_reachable n w0 w \<Longrightarrow> br_system n w w' \<Longrightarrow> br_reachable n w0 w'"

definition br_spaced :: "u64 \<Rightarrow> u64 list \<Rightarrow> bool" where
  "br_spaced cooldown plog \<longleftrightarrow>
     sorted_wrt (\<lambda>newer older. unat older + unat cooldown \<le> unat newer) plog"

text \<open>
  The invariant: the plog is non-empty exactly in the half-open state, its head is the word's
  timestamp, and its entries are a cooldown apart; every clock in play fits the word.
\<close>

definition br_inv :: "nat \<Rightarrow> br_world \<Rightarrow> bool" where
  "br_inv n w \<longleftrightarrow> (case w of (b, t, plog) \<Rightarrow>
     br_wf b \<and> 0 < cooldown_ms (br_config b)
     \<and> (plog \<noteq> [] \<longleftrightarrow> br_state (br_word b) = ST_HALF_OPEN)
     \<and> (plog \<noteq> [] \<longrightarrow> hd plog = br_since (br_word b))
     \<and> br_spaced (cooldown_ms (br_config b)) plog
     \<and> (\<forall>i<n. fits (br_now (t i))))"

lemma fits_0 [simp]: "fits 0"
  by (simp add: fits_def)

lemma br_thread_clock: "br_thread b pc b' pc' \<Longrightarrow> br_clock pc' = br_clock pc \<or> br_clock pc' = None"
  by (induction rule: br_thread.induct) auto

lemma br_thread_now: "br_thread b pc b' pc' \<Longrightarrow> br_now pc' = br_now pc \<or> br_now pc' = 0"
  using br_thread_clock by (fastforce simp: br_now_def)

lemma br_thread_probe_clock: "br_thread b pc b' (BrAnswer Probe) \<Longrightarrow> br_clock pc = Some (br_now pc)"
  by (erule br_thread.cases) (auto simp: br_now_def)

lemma br_thread_config: "br_thread b pc b' pc' \<Longrightarrow> br_config b' = br_config b"
  by (induction rule: br_thread.induct) auto

lemma br_spaced_Cons:
  assumes "br_spaced c plog" and "plog \<noteq> [] \<Longrightarrow> unat (hd plog) + unat c \<le> unat x"
  shows "br_spaced c (x # plog)"
proof (cases plog)
  case Nil
  then show ?thesis by (simp add: br_spaced_def)
next
  case (Cons y ys)
  with assms(2) have y: "unat y + unat c \<le> unat x" by simp
  have "unat z + unat c \<le> unat x" if "z \<in> set ys" for z
    using assms(1) that y by (auto simp: br_spaced_def Cons)
  with assms(1) y show ?thesis by (auto simp: br_spaced_def Cons)
qed

text \<open>How one step may change the word: not at all, a probe, or an outcome.\<close>

lemma br_thread_word:
  assumes "br_thread b pc b' pc'"
  shows "(br_word b' = br_word b \<and> pc' \<noteq> BrAnswer Probe)
    \<or> (pc' = BrAnswer Probe \<and> br_word b' = br_pack (br_now pc) ST_HALF_OPEN
        \<and> br_state (br_word b) \<noteq> ST_CLOSED
        \<and> \<not> u64_saturating_sub (br_now pc) (br_since (br_word b)) < cooldown_ms (br_config b))
    \<or> (pc' \<noteq> BrAnswer Probe \<and> br_word b' = br_pack (br_now pc) ST_OPEN)
    \<or> (pc' \<noteq> BrAnswer Probe \<and> br_word b' = br_pack 0 ST_CLOSED)"
  using assms by (induction rule: br_thread.induct) (auto simp: br_bench_until_def br_now_def)

lemma br_inv_step:
  assumes "br_system n w w'" and "br_inv n w"
  shows "br_inv n w'"
proof -
  from assms(1) obtain i b t plog b' pc' where i: "i < n" and th: "br_thread b (t i) b' pc'"
    and w: "w = (b, t, plog)" and w': "w' = (b', t(i := pc'), br_log_step b (t i) b' pc' plog)"
    by (auto elim: br_system.cases)
  have inv: "br_wf b" "0 < cooldown_ms (br_config b)"
      "plog \<noteq> [] \<longleftrightarrow> br_state (br_word b) = ST_HALF_OPEN"
      "plog \<noteq> [] \<Longrightarrow> hd plog = br_since (br_word b)"
      "br_spaced (cooldown_ms (br_config b)) plog" "\<forall>i<n. fits (br_now (t i))"
    using assms(2) by (simp_all add: br_inv_def w)
  have now: "fits (br_now (t i))" using inv(6) i by simp
  have clocks: "\<forall>k<n. fits (br_now ((t(i := pc')) k))"
    using inv(6) i br_thread_now [OF th] by auto
  note cfg = br_thread_config [OF th]
  consider (same) "br_word b' = br_word b" "pc' \<noteq> BrAnswer Probe"
    | (probe) "pc' = BrAnswer Probe" "br_word b' = br_pack (br_now (t i)) ST_HALF_OPEN"
        "\<not> u64_saturating_sub (br_now (t i)) (br_since (br_word b)) < cooldown_ms (br_config b)"
    | (outcome) "pc' \<noteq> BrAnswer Probe"
        "br_state (br_word b') = ST_OPEN \<or> br_state (br_word b') = ST_CLOSED"
    using br_thread_word [OF th] by (auto simp: br_state_pack)
  then show ?thesis
  proof cases
    case same
    then have "br_log_step b (t i) b' pc' plog = plog" by (simp add: br_log_step_def)
    with same inv clocks cfg show ?thesis by (simp add: br_inv_def w' br_wf_def)
  next
    case probe
    then have "br_log_step b (t i) b' pc' plog = br_now (t i) # plog"
      by (simp add: br_log_step_def)
    moreover have "br_spaced (cooldown_ms (br_config b)) (br_now (t i) # plog)"
      using inv(2,4,5) probe(3)
      by (intro br_spaced_Cons) (auto simp: word_less_nat_alt unat_saturating_sub)
    ultimately show ?thesis
      using probe inv clocks cfg now by (simp add: br_inv_def w' br_wf_def br_pack_simps)
  next
    case outcome
    then have "br_log_step b (t i) b' pc' plog = []"
      using inv(3) by (auto simp: br_log_step_def)
    with outcome inv clocks cfg show ?thesis
      by (auto simp: br_inv_def w' br_wf_def br_spaced_def)
  qed
qed

lemma br_reachable_inv: "br_reachable n w0 w \<Longrightarrow> br_inv n w0 \<Longrightarrow> br_inv n w"
  by (induction rule: br_reachable.induct) (auto dest: br_inv_step)

lemma br_reachable_config:
  "br_reachable n w0 w \<Longrightarrow> br_config (fst w) = br_config (fst w0)"
  by (induction rule: br_reachable.induct) (auto elim!: br_system.cases dest: br_thread_config)

text \<open>The log never holds a time no thread carried.\<close>

definition br_clocks_in :: "u64 set \<Rightarrow> nat \<Rightarrow> (nat \<Rightarrow> br_pc) \<Rightarrow> bool" where
  "br_clocks_in T n t \<longleftrightarrow> (\<forall>i<n. set_option (br_clock (t i)) \<subseteq> T)"

lemma br_reachable_log_clocks:
  assumes "br_reachable n w0 w" and "br_clocks_in T n (fst (snd w0))" and "set (snd (snd w0)) \<subseteq> T"
  shows "set (snd (snd w)) \<subseteq> T \<and> br_clocks_in T n (fst (snd w))"
  using assms(1)
proof (induction rule: br_reachable.induct)
  case br_reachable_start
  show ?case using assms(2,3) by simp
next
  case (br_reachable_step w w')
  from br_reachable_step.hyps(2) show ?case
  proof (cases rule: br_system.cases)
    case (br_system_step i b t b' pc' plog)
    have clocks: "set_option (br_clock pc') \<subseteq> T"
      using br_reachable_step.IH br_system_step br_thread_clock [OF br_system_step(4)]
      by (auto simp: br_clocks_in_def)
    have "br_now (t i) \<in> T" if "pc' = BrAnswer Probe"
      using br_thread_probe_clock [of b "t i" b'] br_system_step br_reachable_step.IH that
      by (fastforce simp: br_clocks_in_def)
    then show ?thesis
      using br_reachable_step.IH br_system_step clocks
      by (auto simp: br_log_step_def br_clocks_in_def)
  qed
qed

lemma br_spaced_window:
  assumes "br_spaced c l" and "\<And>x. x \<in> set l \<Longrightarrow> lo \<le> unat x \<and> unat x < lo + unat c"
  shows "length l \<le> 1"
proof (rule ccontr)
  assume "\<not> length l \<le> 1"
  then obtain x y zs where l: "l = x # y # zs"
    by (cases l; cases "tl l") auto
  with assms(1) have "unat y + unat c \<le> unat x" by (simp add: br_spaced_def)
  moreover have "lo \<le> unat y" "unat x < lo + unat c" using assms(2) l by auto
  ultimately show False by linarith
qed

section \<open>Sequences of operations\<close>

datatype br_event = EvAdmit u64 | EvFailure u64 | EvSuccess u64 | EvBench u64

fun br_event_step :: "breaker \<Rightarrow> br_event \<Rightarrow> breaker" where
  "br_event_step b (EvAdmit now) = fst (br_admit b now)"
| "br_event_step b (EvFailure now) = br_record_failure b now"
| "br_event_step b (EvSuccess now) = br_record_success b now"
| "br_event_step b (EvBench until) = br_bench_until b until"

fun br_run :: "breaker \<Rightarrow> br_event list \<Rightarrow> breaker" where
  "br_run b [] = b"
| "br_run b (e # es) = br_run (br_event_step b e) es"

text \<open>The events that leave a bench until \<open>d\<close> alone: no success, no admission at or after \<open>d\<close>.\<close>

fun br_keeps_bench :: "u64 \<Rightarrow> br_event \<Rightarrow> bool" where
  "br_keeps_bench d (EvAdmit now) = (now < d)"
| "br_keeps_bench d (EvSuccess _) = False"
| "br_keeps_bench d _ = True"

lemma br_record_failure_bench [simp]:
  "br_bench_until_ms (br_record_failure b now) = br_bench_until_ms b"
  by (simp add: br_record_failure_def br_count_failure_def Let_def)

lemma br_event_keeps_bench:
  "br_keeps_bench d e \<Longrightarrow> d \<le> br_bench_until_ms b \<Longrightarrow> d \<le> br_bench_until_ms (br_event_step b e)"
  by (cases e) (auto simp: br_admit_def br_bench_until_def Let_def le_max_iff_disj split: prod.splits)

lemma br_run_keeps_bench:
  "list_all (br_keeps_bench d) es \<Longrightarrow> d \<le> br_bench_until_ms b \<Longrightarrow>
     d \<le> br_bench_until_ms (br_run b es)"
  by (induction es arbitrary: b) (auto dest: br_event_keeps_bench)

lemma br_benched_admit: "now < br_bench_until_ms b \<Longrightarrow> br_admit b now = (b, No)"
  by (auto simp: br_admit_def Let_def)

lemma br_count_up:
  assumes "br_state (br_word b) = ST_CLOSED"
    and "\<not> window_ms (br_config b) < u64_saturating_sub now (br_window_start_ms b)"
    and "unat (br_failures b) + 1 < 2 ^ 32"
  shows "unat (br_failures (br_record_failure b now)) = unat (br_failures b) + 1
       \<and> br_window_start_ms (br_record_failure b now) = br_window_start_ms b
       \<and> br_state (br_word (br_record_failure b now))
           = (if unat (br_failures b) + 1 < unat (failure_threshold (br_config b))
              then ST_CLOSED else ST_OPEN)"
proof -
  have "unat (br_failures b + 1) = unat (br_failures b) + 1"
    using assms(3) by (simp add: unat_word_ariths)
  then show ?thesis
    using assms
    by (simp add: br_record_failure_def br_count_failure_def Let_def br_state_pack word_less_nat_alt)
qed

lemma br_run_failures_open:
  "br_state (br_word b) = ST_OPEN \<Longrightarrow> br_run b (map EvFailure ts) = b"
  by (induction ts arbitrary: b) (simp_all add: br_record_failure_def)

lemma br_run_failures:
  assumes "br_state (br_word b) = ST_CLOSED"
    and "\<forall>now \<in> set ts. \<not> window_ms (br_config b) < u64_saturating_sub now (br_window_start_ms b)"
    and "unat (br_failures b) + length ts < 2 ^ 32"
    and "unat (br_failures b) < unat (failure_threshold (br_config b))"
  shows "br_state (br_word (br_run b (map EvFailure ts)))
    = (if unat (br_failures b) + length ts < unat (failure_threshold (br_config b))
       then ST_CLOSED else ST_OPEN)"
  using assms
proof (induction ts arbitrary: b)
  case Nil
  then show ?case by simp
next
  case (Cons now ts)
  let ?b = "br_record_failure b now"
  have step: "unat (br_failures ?b) = unat (br_failures b) + 1"
      "br_window_start_ms ?b = br_window_start_ms b"
      "br_state (br_word ?b)
           = (if unat (br_failures b) + 1 < unat (failure_threshold (br_config b))
              then ST_CLOSED else ST_OPEN)"
    using br_count_up [of b now] Cons.prems by simp_all
  show ?case
  proof (cases "unat (br_failures b) + 1 < unat (failure_threshold (br_config b))")
    case True
    with Cons.IH [of ?b] Cons.prems step show ?thesis by simp
  next
    case False
    with step have "br_run ?b (map EvFailure ts) = ?b" by (intro br_run_failures_open) simp
    with False step show ?thesis by simp
  qed
qed

section \<open>The interface key selection relies on\<close>

text \<open>
  Selection reads a breaker only through \<open>looks_healthy\<close> and \<open>admit\<close>: a key looks healthy exactly when
  \<open>admit\<close> would say \<open>Yes\<close> without taking a probe slot, and that answer changes nothing selection can
  see.
\<close>

locale health_gate =
  fixes looks_healthy :: "'b \<Rightarrow> u64 \<Rightarrow> bool"
    and gate_admit :: "'b \<Rightarrow> u64 \<Rightarrow> 'b \<times> admission"
    and benched :: "'b \<Rightarrow> u64 \<Rightarrow> bool"
  assumes yes_iff_healthy: "snd (gate_admit b now) = Yes \<longleftrightarrow> looks_healthy b now"
    and benched_refused: "benched b now \<Longrightarrow> gate_admit b now = (b, No)"
    and yes_stays_healthy: "looks_healthy b now \<Longrightarrow> looks_healthy (fst (gate_admit b now)) now"
begin

lemma benched_not_healthy: "benched b now \<Longrightarrow> \<not> looks_healthy b now"
  using benched_refused yes_iff_healthy by (metis admission.distinct(3) snd_conv)

lemma unhealthy_answers: "\<not> looks_healthy b now \<Longrightarrow> snd (gate_admit b now) \<in> {Probe, No}"
  using yes_iff_healthy [of b now] by (cases "snd (gate_admit b now)") auto

lemma admitted_not_benched: "snd (gate_admit b now) \<noteq> No \<Longrightarrow> \<not> benched b now"
  using benched_refused by (metis snd_conv)

end

interpretation br: health_gate br_looks_healthy br_admit br_is_benched
proof (unfold_locales, goal_cases)
  case (1 b now)
  show ?case
    by (auto simp: br_admit_def br_looks_healthy_def br_is_benched_def Let_def split: prod.splits)
next
  case (2 b now)
  then show ?case by (simp add: br_admit_def br_is_benched_def Let_def)
next
  case (3 b now)
  then show ?case
    by (auto simp: br_admit_def br_looks_healthy_def br_is_benched_def Let_def split: prod.splits)
qed

section \<open>Properties\<close>


text \<open>
  Property C3: every operation of the packed breaker refines the three-state machine
  closed / opened since / half-open since with an optional bench: the abstraction of the result is
  the machine's step on the abstraction, and \<open>admit\<close> answers what the machine answers.
\<close>

theorem br_refines_state_machine:
  assumes "fits now" and "br_wf b"
  shows "spec_admit (br_config b) (br_abs b) now = (br_abs (fst (br_admit b now)), snd (br_admit b now))
    \<and> spec_failure (br_config b) (br_abs b) now = br_abs (br_record_failure b now)
    \<and> spec_success (br_abs b) = br_abs (br_record_success b now)
    \<and> br_wf (fst (br_admit b now)) \<and> br_wf (br_record_failure b now) \<and> br_wf (br_record_success b now)"
  using br_admit_refines [OF assms] br_failure_refines [OF assms] br_success_refines
    br_wf_admit [OF assms(2)] br_wf_failure [OF assms(2)] br_wf_success
  by blast

text \<open>
  Property C30: a bench holds. Once a key is benched until \<open>d\<close>, no sequence of failures, further
  benches and earlier admissions lets a request through before \<open>d\<close>, shorter benches included;
  only a recorded success ends it early.
\<close>

theorem br_bench_holds:
  assumes "list_all (br_keeps_bench d) es" and "now < d"
  shows "snd (br_admit (br_run (br_bench_until b d) es) now) = No
    \<and> \<not> br_looks_healthy (br_run (br_bench_until b d) es) now"
proof -
  have "d \<le> br_bench_until_ms (br_run (br_bench_until b d) es)"
    by (intro br_run_keeps_bench [OF assms(1)]) (simp add: br_bench_until_def)
  then have "now < br_bench_until_ms (br_run (br_bench_until b d) es)"
    using assms(2) by simp
  then have no: "snd (br_admit (br_run (br_bench_until b d) es) now) = No"
    by (simp add: br_benched_admit)
  then show ?thesis using br.yes_iff_healthy by (metis admission.distinct(3))
qed

text \<open>
  Property C32: the threshold is exact. Failures within one window keep a closed breaker closed while
  the count is below the threshold and open it at the threshold.
\<close>

theorem br_opens_at_threshold:
  assumes "0 < failure_threshold cfg"
    and "\<forall>now \<in> set ts. unat now \<le> unat (window_ms cfg)"
    and "length ts < 2 ^ 32"
  shows "br_state (br_word (br_run (br_new cfg) (map EvFailure ts)))
    = (if length ts < unat (failure_threshold cfg) then ST_CLOSED else ST_OPEN)"
proof -
  have new: "br_state (br_word (br_new cfg)) = ST_CLOSED" "br_failures (br_new cfg) = 0"
      "br_window_start_ms (br_new cfg) = 0" "br_config (br_new cfg) = cfg"
    by (simp_all add: br_new_def br_state_pack)
  have "unat (br_failures (br_new cfg)) < unat (failure_threshold (br_config (br_new cfg)))"
    using assms(1) by (simp add: new word_less_nat_alt)
  then show ?thesis
    using br_run_failures [of "br_new cfg" ts] assms
    by (simp add: new word_less_nat_alt unat_saturating_sub not_less)
qed

text \<open>
  Property C33: a breaker always recovers. In any state, once its bench is over and a cooldown has
  passed since it opened or since its last probe, the next caller is admitted, so a probe whose
  caller vanished blocks the key for one cooldown only; and after a recorded success every later
  call is a plain yes until something fails again.
\<close>

theorem br_recovers:
  assumes "\<not> br_is_benched b now"
    and "unat (br_since (br_word b)) + unat (cooldown_ms (br_config b)) \<le> unat now"
  shows "snd (br_admit b now) \<in> {Yes, Probe}
    \<and> br_admit (br_record_success b now') later = (br_record_success b now', Yes)"
proof
  show "snd (br_admit b now) \<in> {Yes, Probe}"
    using assms
    by (auto simp: br_admit_def br_is_benched_def Let_def word_less_nat_alt unat_saturating_sub
        split: prod.splits)
  have "br_state (br_word (br_record_success b now')) = ST_CLOSED"
    by (simp add: br_record_success_def br_state_pack)
  then show "br_admit (br_record_success b now') later = (br_record_success b now', Yes)"
    by (simp add: br_admit_def Let_def br_record_success_def case_prod_beta)
qed

theorem br_recovers_witness:
  "snd (br_admit (br_run (br_new \<lparr>failure_threshold = 1, window_ms = 100, cooldown_ms = 10\<rparr>)
      [EvFailure 5]) 15) \<in> {Yes, Probe}"
proof -
  let ?b = "br_run (br_new \<lparr>failure_threshold = 1, window_ms = 100, cooldown_ms = 10\<rparr>) [EvFailure 5]"
  have "br_word ?b = br_pack 5 ST_OPEN" "br_bench_until_ms ?b = 0"
      "br_config ?b = \<lparr>failure_threshold = 1, window_ms = 100, cooldown_ms = 10\<rparr>"
    by (simp_all add: br_new_def br_record_failure_def br_count_failure_def Let_def br_state_pack
        u64_saturating_sub_def)
  then have "\<not> br_is_benched ?b 15"
      "unat (br_since (br_word ?b)) + unat (cooldown_ms (br_config ?b)) \<le> unat (15 :: u64)"
    by (simp_all add: br_is_benched_def br_since_pack fits_def)
  from br_recovers [OF this] show ?thesis by blast
qed

theorem br_refines_state_machine_witness:
  "spec_admit \<lparr>failure_threshold = 1, window_ms = 100, cooldown_ms = 10\<rparr>
     (br_abs (br_new \<lparr>failure_threshold = 1, window_ms = 100, cooldown_ms = 10\<rparr>)) 7
   = (br_abs (br_new \<lparr>failure_threshold = 1, window_ms = 100, cooldown_ms = 10\<rparr>), Yes)"
proof -
  let ?c = "\<lparr>failure_threshold = 1, window_ms = 100, cooldown_ms = 10\<rparr> :: breaker_config"
  have f: "fits 7" by (simp add: fits_def)
  have "br_admit (br_new ?c) 7 = (br_new ?c, Yes)" "br_config (br_new ?c) = ?c"
    by (simp_all add: br_admit_def br_new_def Let_def br_state_pack case_prod_beta)
  then show ?thesis
    using br_refines_state_machine [OF f br_wf_new [of ?c]] by simp
qed

theorem br_bench_holds_witness:
  "snd (br_admit (br_run (br_bench_until (br_new \<lparr>failure_threshold = 1, window_ms = 100, cooldown_ms = 10\<rparr>) 9000) [EvFailure 10, EvBench 2000, EvAdmit 20]) 3000)
     = No"
  using br_bench_holds [of 9000 "[EvFailure 10, EvBench 2000, EvAdmit 20]" 3000 "br_new \<lparr>failure_threshold = 1, window_ms = 100, cooldown_ms = 10\<rparr>"]
  by simp

theorem br_opens_at_threshold_witness:
  "br_state (br_word (br_run (br_new \<lparr>failure_threshold = 3, window_ms = 1000, cooldown_ms = 500\<rparr>)
      (map EvFailure [0, 10, 20]))) = ST_OPEN"
proof -
  let ?c = "\<lparr>failure_threshold = 3, window_ms = 1000, cooldown_ms = 500\<rparr> :: breaker_config"
  have "0 < failure_threshold ?c" "\<forall>now \<in> set [0, 10, 20 :: u64]. unat now \<le> unat (window_ms ?c)"
      "length [0, 10, 20 :: u64] < 2 ^ 32"
    by simp_all
  from br_opens_at_threshold [OF this] show ?thesis by simp
qed


end
