(* ===== verification/Framing.thy ===== *)
theory Framing
  imports RR_Prelude
begin

text \<open>
  The interface the two incremental decoders share: a way to cut one complete frame off the front of
  a byte buffer. Both \<open>SseParser\<close> and \<open>EventStreamParser\<close> append a network chunk to their buffer and
  cut frames until none is complete; that where the network splits the bytes does not matter is
  proved here once from two laws of the cut.
\<close>

locale framer =
  fixes cut :: "string \<Rightarrow> ('f \<times> string) option"
  assumes cut_shrinks: "cut buf = Some (f, rest) \<Longrightarrow> length rest < length buf"
    and cut_stable: "cut buf = Some (f, rest) \<Longrightarrow> cut (buf @ later) = Some (f, rest @ later)"
begin

inductive cuts :: "string \<Rightarrow> 'f list \<Rightarrow> string \<Rightarrow> bool" where
  cuts_none: "cut buf = None \<Longrightarrow> cuts buf [] buf"
| cuts_some: "cut buf = Some (f, rest) \<Longrightarrow> cuts rest fs end \<Longrightarrow> cuts buf (f # fs) end"

inductive_cases cuts_NilE: "cuts buf [] end"
inductive_cases cuts_ConsE: "cuts buf (f # fs) end"

text \<open>Cutting always ends, with one result, in a buffer that holds no complete frame.\<close>

lemma cuts_total: "\<exists>fs end. cuts buf fs end"
proof (induction "length buf" arbitrary: buf rule: less_induct)
  case less
  show ?case
  proof (cases "cut buf")
    case None
    then show ?thesis by (blast intro: cuts_none)
  next
    case (Some fr)
    then obtain f rest where fr: "cut buf = Some (f, rest)" by (cases fr) auto
    from less [OF cut_shrinks [OF fr]] obtain fs "end" where "cuts rest fs end" by blast
    with fr show ?thesis by (blast intro: cuts_some)
  qed
qed

lemma cuts_deterministic: "cuts buf fs end \<Longrightarrow> cuts buf gs end' \<Longrightarrow> gs = fs \<and> end' = end"
proof (induction arbitrary: gs end' rule: cuts.induct)
  case (cuts_none buf)
  then show ?case by (auto elim: cuts.cases)
next
  case (cuts_some buf f rest fs "end")
  from cuts_some.prems cuts_some.hyps(1) obtain gs' where "gs = f # gs'" "cuts rest gs' end'"
    by (auto elim: cuts.cases)
  with cuts_some.IH show ?case by blast
qed

lemma cuts_end: "cuts buf fs end \<Longrightarrow> cut end = None"
  by (induction rule: cuts.induct) auto

text \<open>Bytes that arrive later only continue where cutting stopped.\<close>

lemma cuts_append:
  "cuts buf fs mid \<Longrightarrow> cuts (mid @ later) gs end \<Longrightarrow> cuts (buf @ later) (fs @ gs) end"
  by (induction rule: cuts.induct) (auto intro: cuts_some dest: cut_stable [where later = later])

lemma cuts_single: "cut buf = Some (f, []) \<Longrightarrow> cut [] = None \<Longrightarrow> cuts buf [f] []"
  by (blast intro: cuts_some cuts_none)

text \<open>A stream of whole frames decodes to the list of its frames.\<close>

lemma cuts_concat:
  assumes "\<And>x. x \<in> set xs \<Longrightarrow> cut (encode x) = Some (decoded x, [])" and "cut [] = None"
  shows "cuts (concat (map encode xs)) (map decoded xs) []"
  using assms(1)
proof (induction xs)
  case Nil
  show ?case using cuts_none [OF assms(2)] by simp
next
  case (Cons x xs)
  have "cuts (encode x) [decoded x] []"
    by (rule cuts_single) (use Cons.prems assms(2) in auto)
  from cuts_append [OF this] Cons show ?case by simp
qed

end

end
