(* ===== verification/Sse_Codec.thy ===== *)
theory Sse_Codec
  imports Framing
begin

text \<open>
  The incremental SSE codec of \<open>crates/router-core/src/sse.rs\<close>: the search for the blank line that
  ends an event, the field lines of one event, the parser that is fed network chunks, and the
  formatter.
\<close>

record sse_event =
  ev_event :: "string option"
  ev_data :: string

section \<open>The event boundary\<close>

text \<open>
  The length of the line break at the front: \<open>Some 0\<close> for none, \<open>None\<close> for a lone \<open>CR\<close> at the end of
  the buffer, which needs one more byte to classify.
\<close>

fun line_break_len :: "string \<Rightarrow> nat option" where
  "line_break_len [] = Some 0"
| "line_break_len (c # rest) =
     (if c = LF then Some 1
      else if c = CR then
        (case rest of [] \<Rightarrow> None | d # _ \<Rightarrow> if d = LF then Some 2 else Some 1)
      else Some 0)"

function sse_scan :: "string \<Rightarrow> nat \<Rightarrow> (nat \<times> nat) option" where
  "sse_scan buf i =
     (if i < length buf then
        (case line_break_len (drop i buf) of
           None \<Rightarrow> None
         | Some first_len \<Rightarrow>
             if first_len = 0 then sse_scan buf (i + 1)
             else (case line_break_len (drop (i + first_len) buf) of
                     None \<Rightarrow> None
                   | Some second_len \<Rightarrow>
                       if second_len = 0 then sse_scan buf (i + first_len)
                       else Some (i, i + first_len + second_len)))
      else None)"
  by pat_completeness auto
termination
  by (relation "measure (\<lambda>(buf, i). length buf - i)") auto

declare sse_scan.simps [simp del]

definition find_event_boundary :: "string \<Rightarrow> (nat \<times> nat) option" where
  "find_event_boundary buf = sse_scan buf 0"

lemma line_break_len_le: "line_break_len s = Some n \<Longrightarrow> n \<le> length s"
  by (cases s) (auto split: if_splits list.splits)

lemma line_break_len_stable:
  "line_break_len s = Some n \<Longrightarrow> s \<noteq> [] \<Longrightarrow> line_break_len (s @ later) = Some n"
  by (cases s) (auto split: if_splits list.splits)

lemma sse_scan_bounds: "sse_scan buf i = Some (s, e) \<Longrightarrow> i \<le> s \<and> s < e \<and> e \<le> length buf"
proof (induction buf i rule: sse_scan.induct)
  case (1 buf i)
  show ?case
  proof (cases "i < length buf")
    case False
    with "1.prems" show ?thesis by (simp add: sse_scan.simps [of buf i])
  next
    case True
    with "1.prems" obtain m where m: "line_break_len (drop i buf) = Some m"
      by (auto simp: sse_scan.simps [of buf i] split: option.splits)
    show ?thesis
    proof (cases "m = 0")
      case True': True
      with m True "1.prems" have "sse_scan buf (i + 1) = Some (s, e)"
        by (simp add: sse_scan.simps [of buf i])
      with "1.IH"(1) [OF True m True'] show ?thesis by simp
    next
      case False
      with m True "1.prems" obtain k where k: "line_break_len (drop (i + m) buf) = Some k"
        by (auto simp: sse_scan.simps [of buf i] split: option.splits)
      show ?thesis
      proof (cases "k = 0")
        case True'': True
        with k m False True "1.prems" have "sse_scan buf (i + m) = Some (s, e)"
          by (simp add: sse_scan.simps [of buf i])
        with "1.IH"(2) [OF True m False k True''] show ?thesis by simp
      next
        case False': False
        have "m \<le> length buf - i" "k \<le> length buf - (i + m)"
          using line_break_len_le [OF m] line_break_len_le [OF k] by simp_all
        with k m False False' True "1.prems" show ?thesis
          by (auto simp: sse_scan.simps [of buf i])
      qed
    qed
  qed
qed

text \<open>A boundary that has been found stays where it is when more bytes arrive.\<close>

lemma sse_scan_stable:
  "sse_scan buf i = Some (s, e) \<Longrightarrow> sse_scan (buf @ later) i = Some (s, e)"
proof (induction buf i rule: sse_scan.induct)
  case (1 buf i)
  show ?case
  proof (cases "i < length buf")
    case False
    with "1.prems" show ?thesis by (simp add: sse_scan.simps [of buf i])
  next
    case True
    with "1.prems" obtain m where m: "line_break_len (drop i buf) = Some m"
      by (auto simp: sse_scan.simps [of buf i] split: option.splits)
    have m': "line_break_len (drop i (buf @ later)) = Some m"
      using line_break_len_stable [OF m, of later] True by simp
    show ?thesis
    proof (cases "m = 0")
      case True': True
      with m True "1.prems" have "sse_scan buf (i + 1) = Some (s, e)"
        by (simp add: sse_scan.simps [of buf i])
      with "1.IH"(1) [OF True m True'] True True' m' show ?thesis
        by (simp add: sse_scan.simps [of "buf @ later" i])
    next
      case False
      with m True "1.prems" obtain k where k: "line_break_len (drop (i + m) buf) = Some k"
        by (auto simp: sse_scan.simps [of buf i] split: option.splits)
      show ?thesis
      proof (cases "drop (i + m) buf = []")
        case True'': True
        with k have k0: "k = 0" by simp
        with k m False True "1.prems" have "sse_scan buf (i + m) = Some (s, e)"
          by (simp add: sse_scan.simps [of buf i])
        with sse_scan_bounds [OF this] True'' show ?thesis by simp
      next
        case False'': False
        then have k': "line_break_len (drop (i + m) (buf @ later)) = Some k"
          using line_break_len_stable [OF k, of later] by simp
        show ?thesis
        proof (cases "k = 0")
          case True'': True
          with k m False True "1.prems" have "sse_scan buf (i + m) = Some (s, e)"
            by (simp add: sse_scan.simps [of buf i])
          with "1.IH"(2) [OF True m False k True''] True False True'' m' k' show ?thesis
            by (simp add: sse_scan.simps [of "buf @ later" i])
        next
          case False': False
          with k m False True "1.prems" have "s = i" "e = i + m + k"
            by (auto simp: sse_scan.simps [of buf i])
          with k' m' False False' True show ?thesis
            by (simp add: sse_scan.simps [of "buf @ later" i] del: drop_append)
        qed
      qed
    qed
  qed
qed

section \<open>The lines of one event\<close>

definition strip_suffix_cr :: "string \<Rightarrow> string" where
  "strip_suffix_cr line = (if line \<noteq> [] \<and> last line = CR then butlast line else line)"

definition split_lines :: "string \<Rightarrow> string list" where
  "split_lines block = filter (\<lambda>line. line \<noteq> []) (map strip_suffix_cr (split_on LF block))"

definition strip_one_space :: "string \<Rightarrow> string" where
  "strip_one_space v = (case strip_prefix '' '' v of Some r \<Rightarrow> r | None \<Rightarrow> v)"

definition sse_line :: "string option \<times> string list \<Rightarrow> string \<Rightarrow> string option \<times> string list" where
  "sse_line acc line =
     (if \<not> utf8_valid line then acc
      else if starts_with '':'' line then acc
      else
        let (field, value) =
          (case split_once CHR '':'' line of Some (f, v) \<Rightarrow> (f, strip_one_space v) | None \<Rightarrow> (line, []))
        in if field = ''data'' then (fst acc, snd acc @ [value])
           else if field = ''event'' then (Some value, snd acc)
           else acc)"

definition sse_block :: "string \<Rightarrow> sse_event option" where
  "sse_block block =
     (let (event_name, data_lines) = foldl sse_line (None, []) (split_lines block)
      in if data_lines = [] \<and> event_name = None then None
         else Some \<lparr>ev_event = event_name, ev_data = join [LF] data_lines\<rparr>)"

section \<open>The parser\<close>

text \<open>\<open>next_event\<close>: the event and the buffer left; blocks of comments only are skipped.\<close>

function sse_next_event :: "string \<Rightarrow> sse_event option \<times> string" where
  "sse_next_event buf =
     (case find_event_boundary buf of
        None \<Rightarrow> (None, buf)
      | Some (s, e) \<Rightarrow>
          (case sse_block (take s buf) of
             None \<Rightarrow> sse_next_event (drop e buf)
           | Some event \<Rightarrow> (Some event, drop e buf)))"
  by pat_completeness auto
termination
  by (relation "measure length") (auto simp: find_event_boundary_def dest: sse_scan_bounds)

declare sse_next_event.simps [simp del]

lemma sse_next_event_shrinks: "sse_next_event buf = (Some ev, rest) \<Longrightarrow> length rest < length buf"
proof (induction buf rule: sse_next_event.induct)
  case (1 buf)
  from "1.prems" obtain s e where b: "find_event_boundary buf = Some (s, e)"
    by (auto simp: sse_next_event.simps [of buf] split: option.splits)
  then have lt: "length (drop e buf) < length buf"
    by (auto simp: find_event_boundary_def dest: sse_scan_bounds)
  show ?case
  proof (cases "sse_block (take s buf)")
    case None
    with b "1.prems" have "sse_next_event (drop e buf) = (Some ev, rest)"
      by (simp add: sse_next_event.simps [of buf])
    with "1.IH" [OF b refl None] lt show ?thesis by simp
  next
    case (Some ev')
    with b "1.prems" lt show ?thesis by (simp add: sse_next_event.simps [of buf])
  qed
qed

text \<open>\<open>push\<close>: append the chunk, then take events while there are any.\<close>

function sse_drain :: "string \<Rightarrow> sse_event list \<times> string" where
  "sse_drain buf =
     (case sse_next_event buf of
        (None, rest) \<Rightarrow> ([], rest)
      | (Some event, rest) \<Rightarrow> (let (events, end) = sse_drain rest in (event # events, end)))"
  by pat_completeness auto
termination
  by (relation "measure length") (auto dest: sse_next_event_shrinks [OF sym])

declare sse_drain.simps [simp del]

definition sse_push :: "string \<Rightarrow> string \<Rightarrow> sse_event list \<times> string" where
  "sse_push buffer chunk = sse_drain (buffer @ chunk)"

definition sse_pending :: "string \<Rightarrow> nat" where
  "sse_pending buffer = length buffer"

definition format_event :: "string option \<Rightarrow> string \<Rightarrow> string" where
  "format_event event data =
     (case event of
        Some name \<Rightarrow> ''event: '' @ name @ [LF] @ ''data: '' @ data @ [LF, LF]
      | None \<Rightarrow> ''data: '' @ data @ [LF, LF])"

text \<open>A whole connection: chunks in order, all events they complete, and the buffer left.\<close>

fun sse_feed :: "string \<Rightarrow> string list \<Rightarrow> sse_event list \<times> string" where
  "sse_feed buffer [] = ([], buffer)"
| "sse_feed buffer (chunk # chunks) =
     (let (events, rest) = sse_push buffer chunk;
          (later, end) = sse_feed rest chunks
      in (events @ later, end))"

section \<open>The codec as a framer of blocks\<close>

definition sse_cut :: "string \<Rightarrow> (string \<times> string) option" where
  "sse_cut buf = map_option (\<lambda>(s, e). (take s buf, drop e buf)) (find_event_boundary buf)"

interpretation sse: framer sse_cut
proof
  fix buf f rest
  assume "sse_cut buf = Some (f, rest)"
  then show "length rest < length buf"
    by (auto simp: sse_cut_def find_event_boundary_def dest: sse_scan_bounds)
next
  fix buf f rest later
  assume "sse_cut buf = Some (f, rest)"
  then obtain s e where b: "find_event_boundary buf = Some (s, e)"
    and fr: "f = take s buf" "rest = drop e buf"
    by (auto simp: sse_cut_def)
  then have "s < e" "e \<le> length buf" "find_event_boundary (buf @ later) = Some (s, e)"
    by (auto simp: find_event_boundary_def dest: sse_scan_bounds sse_scan_stable)
  with fr show "sse_cut (buf @ later) = Some (f, rest @ later)"
    by (simp add: sse_cut_def)
qed

lemma sse_cut_None: "sse_cut buf = None \<longleftrightarrow> find_event_boundary buf = None"
  by (simp add: sse_cut_def)

lemma sse_drain_cut:
  "sse_drain buf =
     (case sse_cut buf of
        None \<Rightarrow> ([], buf)
      | Some (block, rest) \<Rightarrow>
          (case sse_block block of
             None \<Rightarrow> sse_drain rest
           | Some event \<Rightarrow> (event # fst (sse_drain rest), snd (sse_drain rest))))"
proof (cases "find_event_boundary buf")
  case None
  then show ?thesis
    by (simp add: sse_cut_def sse_drain.simps [of buf] sse_next_event.simps [of buf])
next
  case (Some b)
  then obtain s e where b: "find_event_boundary buf = Some (s, e)" by (cases b) auto
  show ?thesis
  proof (cases "sse_block (take s buf)")
    case None
    with b have "sse_next_event buf = sse_next_event (drop e buf)"
      by (simp add: sse_next_event.simps [of buf])
    then have "sse_drain buf = sse_drain (drop e buf)"
      by (simp add: sse_drain.simps [of buf] sse_drain.simps [of "drop e buf"])
    with b None show ?thesis by (simp add: sse_cut_def)
  next
    case (Some ev)
    with b have "sse_next_event buf = (Some ev, drop e buf)"
      by (simp add: sse_next_event.simps [of buf])
    with b Some show ?thesis
      by (simp add: sse_cut_def sse_drain.simps [of buf] case_prod_beta)
  qed
qed

text \<open>Draining yields the events of the blocks cut, in order.\<close>

lemma sse_drain_cuts:
  "sse.cuts buf blocks end \<Longrightarrow> sse_drain buf = (List.map_filter sse_block blocks, end)"
proof (induction rule: sse.cuts.induct)
  case (cuts_none buf)
  then show ?case by (subst sse_drain_cut) (simp add: List.map_filter_def)
next
  case (cuts_some buf f rest fs "end")
  then show ?case
    by (subst sse_drain_cut) (simp add: List.map_filter_def split: option.splits)
qed

lemma sse_feed_cuts:
  assumes "sse_cut buffer = None"
  shows "\<exists>blocks end. sse.cuts (buffer @ concat chunks) blocks end
           \<and> sse_feed buffer chunks = (List.map_filter sse_block blocks, end)"
  using assms
proof (induction chunks arbitrary: buffer)
  case Nil
  then show ?case using sse.cuts_none [of buffer] by (auto simp: List.map_filter_def intro!: exI)
next
  case (Cons c cs)
  obtain bs mid where bs: "sse.cuts (buffer @ c) bs mid"
    using sse.cuts_total by blast
  obtain gs "end" where gs: "sse.cuts (mid @ concat cs) gs end"
    and feed: "sse_feed mid cs = (List.map_filter sse_block gs, end)"
    using Cons.IH [OF sse.cuts_end [OF bs]] by blast
  have "sse.cuts (buffer @ concat (c # cs)) (bs @ gs) end"
    using sse.cuts_append [OF bs gs] by simp
  moreover have "sse_feed buffer (c # cs) = (List.map_filter sse_block (bs @ gs), end)"
    by (simp add: sse_push_def sse_drain_cuts [OF bs] feed map_filter_def)
  ultimately show ?case by blast
qed

section \<open>Formatted events\<close>

definition one_line :: "string \<Rightarrow> bool" where
  "one_line s \<longleftrightarrow> LF \<notin> set s \<and> CR \<notin> set s"

lemma sse_scan_skip:
  "one_line a \<Longrightarrow> sse_scan (pre @ a @ rest) (length pre) = sse_scan (pre @ a @ rest) (length pre + length a)"
proof (induction a arbitrary: pre)
  case Nil
  then show ?case by simp
next
  case (Cons c a)
  then have "line_break_len (drop (length pre) (pre @ (c # a) @ rest)) = Some 0"
    by (auto simp: one_line_def)
  then have "sse_scan (pre @ (c # a) @ rest) (length pre)
      = sse_scan (pre @ (c # a) @ rest) (length pre + 1)"
    by (subst sse_scan.simps) simp
  also have "\<dots> = sse_scan (pre @ (c # a) @ rest) (length pre + length (c # a))"
    using Cons.IH [of "pre @ [c]"] Cons.prems by (simp add: one_line_def)
  finally show ?case .
qed

lemma sse_cut_two_lines:
  assumes "one_line a"
  shows "sse_cut (a @ [LF, LF]) = Some (a, [])"
proof -
  have "sse_scan (a @ [LF, LF]) 0 = sse_scan (a @ [LF, LF]) (length a)"
    using sse_scan_skip [OF assms, of "[]"] by simp
  also have "\<dots> = Some (length a, length a + 2)"
    by (subst sse_scan.simps) simp
  finally show ?thesis by (simp add: sse_cut_def find_event_boundary_def)
qed

lemma sse_cut_three_lines:
  assumes "one_line a" "one_line b" "b \<noteq> []"
  shows "sse_cut (a @ [LF] @ b @ [LF, LF]) = Some (a @ [LF] @ b, [])"
proof -
  let ?s = "a @ [LF] @ b @ [LF, LF]"
  obtain c b' where b: "b = c # b'" using assms(3) by (cases b) auto
  have "sse_scan ?s 0 = sse_scan ?s (length a)"
    using sse_scan_skip [OF assms(1), of "[]" "[LF] @ b @ [LF, LF]"] by simp
  also have "\<dots> = sse_scan ?s (length a + 1)"
    using assms(2) by (subst sse_scan.simps) (auto simp: b one_line_def)
  also have "\<dots> = sse_scan ?s (length a + 1 + length b)"
    using sse_scan_skip [OF assms(2), of "a @ [LF]" "[LF, LF]"] by simp
  also have "\<dots> = Some (length a + 1 + length b, length a + 1 + length b + 2)"
    by (subst sse_scan.simps) (simp add: nth_append)
  finally show ?thesis by (simp add: sse_cut_def find_event_boundary_def)
qed

lemma strip_suffix_cr_id: "CR \<notin> set l \<Longrightarrow> strip_suffix_cr l = l"
  by (metis last_in_set strip_suffix_cr_def)

lemma ascii_literals [simp]: "is_ascii ''data: ''" "is_ascii ''event: ''"
  by (simp_all add: byte_def)

lemma one_line_field: "one_line s \<Longrightarrow> one_line (''data: '' @ s) \<and> one_line (''event: '' @ s)"
  by (simp add: one_line_def LF_def CR_def)

lemma sse_line_data:
  "utf8_valid v \<Longrightarrow> sse_line acc (''data: '' @ v) = (fst acc, snd acc @ [v])"
proof -
  assume v: "utf8_valid v"
  have "split_once CHR '':'' (''data: '' @ v) = Some (''data'', '' '' @ v)"
    using split_once_append [of "CHR '':''" "''data''" "'' '' @ v"] by simp
  moreover have "utf8_valid (''data: '' @ v)"
    using utf8_valid_ascii_append [OF ascii_literals(1), of v] v by simp
  ultimately show ?thesis
    by (simp add: sse_line_def starts_with_def strip_one_space_def del: split_once.simps utf8_valid.simps)
qed

lemma sse_line_event:
  "utf8_valid v \<Longrightarrow> sse_line acc (''event: '' @ v) = (Some v, snd acc)"
proof -
  assume v: "utf8_valid v"
  have "split_once CHR '':'' (''event: '' @ v) = Some (''event'', '' '' @ v)"
    using split_once_append [of "CHR '':''" "''event''" "'' '' @ v"] by simp
  moreover have "utf8_valid (''event: '' @ v)"
    using utf8_valid_ascii_append [OF ascii_literals(2), of v] v by simp
  ultimately show ?thesis
    by (simp add: sse_line_def starts_with_def strip_one_space_def del: split_once.simps utf8_valid.simps)
qed

lemma split_lines_one: "one_line a \<Longrightarrow> a \<noteq> [] \<Longrightarrow> split_lines a = [a]"
  by (simp add: split_lines_def one_line_def strip_suffix_cr_id)

lemma split_lines_two:
  "one_line a \<Longrightarrow> one_line b \<Longrightarrow> a \<noteq> [] \<Longrightarrow> b \<noteq> [] \<Longrightarrow> split_lines (a @ [LF] @ b) = [a, b]"
  by (simp add: split_lines_def one_line_def strip_suffix_cr_id)

text \<open>What the formatter can carry: text without line breaks.\<close>

definition sse_carried :: "sse_event \<Rightarrow> bool" where
  "sse_carried ev \<longleftrightarrow>
     one_line (ev_data ev) \<and> utf8_valid (ev_data ev) \<and>
     (case ev_event ev of None \<Rightarrow> True | Some name \<Rightarrow> one_line name \<and> utf8_valid name)"

definition sse_wire :: "sse_event \<Rightarrow> string" where
  "sse_wire ev = format_event (ev_event ev) (ev_data ev)"

definition sse_wire_block :: "sse_event \<Rightarrow> string" where
  "sse_wire_block ev =
     (case ev_event ev of
        None \<Rightarrow> ''data: '' @ ev_data ev
      | Some name \<Rightarrow> (''event: '' @ name) @ [LF] @ (''data: '' @ ev_data ev))"

lemma sse_cut_wire:
  assumes "sse_carried ev"
  shows "sse_cut (sse_wire ev) = Some (sse_wire_block ev, [])"
proof (cases "ev_event ev")
  case None
  then show ?thesis
    using assms sse_cut_two_lines [of "''data: '' @ ev_data ev"] one_line_field
    by (simp add: sse_wire_def sse_wire_block_def format_event_def sse_carried_def)
next
  case (Some name)
  then show ?thesis
    using assms sse_cut_three_lines [of "''event: '' @ name" "''data: '' @ ev_data ev"] one_line_field
    by (simp add: sse_wire_def sse_wire_block_def format_event_def sse_carried_def)
qed

lemma sse_block_wire:
  assumes "sse_carried ev"
  shows "sse_block (sse_wire_block ev) = Some ev"
proof (cases "ev_event ev")
  case None
  have "split_lines (''data: '' @ ev_data ev) = [''data: '' @ ev_data ev]"
    using assms one_line_field by (intro split_lines_one) (simp_all add: sse_carried_def)
  then show ?thesis
    using assms None sse_line_data [of "ev_data ev" "(None, [])"]
    by (simp add: sse_block_def sse_wire_block_def sse_carried_def)
next
  case (Some name)
  have "split_lines ((''event: '' @ name) @ [LF] @ (''data: '' @ ev_data ev))
      = [''event: '' @ name, ''data: '' @ ev_data ev]"
    using assms one_line_field Some by (intro split_lines_two) (simp_all add: sse_carried_def)
  then show ?thesis
    using assms Some sse_line_event [of name "(None, [])"] sse_line_data [of "ev_data ev" "(Some name, [])"]
    by (simp add: sse_block_def sse_wire_block_def sse_carried_def)
qed

section \<open>Properties\<close>

text \<open>
  Property C29: where the network splits the bytes does not matter. Feeding a stream in any chunks
  yields the events, and leaves the buffer, that feeding it in one piece does: also when a chunk
  ends inside a line, inside a UTF-8 sequence or between the two bytes of a line break.
\<close>

theorem sse_chunking_is_irrelevant: "sse_feed [] chunks = sse_push [] (concat chunks)"
proof -
  have "sse_cut [] = None"
    by (simp add: sse_cut_None find_event_boundary_def sse_scan.simps)
  from sse_feed_cuts [OF this, of chunks] show ?thesis
    by (auto simp: sse_push_def dest: sse_drain_cuts)
qed



text \<open>
  A lone carriage return ends an event but not a line. The boundary search treats it as
  a line break, as the SSE specification does, while the line splitter knows only line feeds: two
  \<open>data\<close> lines separated by a carriage return arrive as one line with the second field in its value.
\<close>

theorem sse_lone_cr_is_not_a_line_break:
  "sse_push [] (''data: a'' @ [CR] @ ''data: b'' @ [CR, CR, LF])
     = ([\<lparr>ev_event = None, ev_data = ''a'' @ [CR] @ ''data: b''\<rparr>], [])"
  by (simp add: sse_push_def sse_drain_cut sse_cut_def find_event_boundary_def sse_scan.simps LF_def
      CR_def sse_block_def split_lines_def strip_suffix_cr_def sse_line_def byte_def starts_with_def
      strip_one_space_def numeral_nat)

end
