(* ===== verification/Event_Stream.thy ===== *)
theory Event_Stream
  imports Sse_Codec
begin

text \<open>
  The AWS event-stream framing of \<open>crates/router-core/src/eventstream.rs\<close>: big-endian prelude,
  headers, payload, two checksums. The CRC-32 of the crate \<open>crc32fast\<close> is the parameter \<open>crc\<close>.
\<close>

section \<open>Big-endian integers\<close>

text \<open>\<open>u16::from_be_bytes\<close> and \<open>u32::from_be_bytes\<close>, read as \<open>usize\<close>.\<close>

definition be_value :: "string \<Rightarrow> nat" where
  "be_value s = foldl (\<lambda>n c. n * 256 + byte c) 0 s"

definition put_u16 :: "nat \<Rightarrow> string" where
  "put_u16 n = [char_of (n div 2 ^ 8), char_of n]"

definition put_u32 :: "nat \<Rightarrow> string" where
  "put_u32 n = [char_of (n div 2 ^ 24), char_of (n div 2 ^ 16), char_of (n div 2 ^ 8), char_of n]"

lemma byte_char_of [simp]: "byte (char_of n) = n mod 256"
  by (simp add: byte_def)

lemma be_value_put_u16 [simp]: "be_value (put_u16 n) = n mod 2 ^ 16"
proof -
  have "n div 256 mod 256 * 256 + n mod 256 = n mod 65536"
    using mod_mult2_eq [of n 256 256] by simp
  then show ?thesis by (simp add: be_value_def put_u16_def)
qed

lemma be_value_put_u32 [simp]: "be_value (put_u32 n) = n mod 2 ^ 32"
proof -
  have 1: "n mod 65536 = 256 * (n div 256 mod 256) + n mod 256"
    using mod_mult2_eq [of n 256 256] by simp
  have 2: "n mod 16777216 = 65536 * (n div 65536 mod 256) + n mod 65536"
    using mod_mult2_eq [of n 65536 256] by simp
  have 3: "n mod 4294967296 = 16777216 * (n div 16777216 mod 256) + n mod 16777216"
    using mod_mult2_eq [of n 16777216 256] by simp
  show ?thesis
    unfolding be_value_def put_u32_def using 1 2 3 by simp
qed

lemma length_put [simp]: "length (put_u16 n) = 2" "length (put_u32 n) = 4"
  by (simp_all add: put_u16_def put_u32_def)

section \<open>Frames\<close>

definition PRELUDE_LEN :: nat where "PRELUDE_LEN = 12"

text \<open>The header loop of \<open>decode_frame\<close>; the state is \<open>event_type\<close> and \<open>message_type\<close>.\<close>

function es_headers ::
    "string \<Rightarrow> string option \<times> string option \<Rightarrow> (string option \<times> string option) option" where
  "es_headers [] st = Some st"
| "es_headers (n # rest) st =
     (let name_len = byte n in
      if length rest < name_len then None
      else if \<not> utf8_valid (take name_len rest) then None
      else case drop name_len rest of
        [] \<Rightarrow> None
      | value_kind # value \<Rightarrow>
          if byte value_kind \<noteq> 7 then None
          else if length value < 2 then None
          else
            let len = be_value (take 2 value); body = drop 2 value in
            if length body < len then None
            else if \<not> utf8_valid (take len body) then None
            else es_headers (drop len body)
              (if take name_len rest = '':event-type'' then (Some (take len body), snd st)
               else if take name_len rest = '':message-type'' then (fst st, Some (take len body))
               else st))"
  by pat_completeness auto
termination
proof (relation "measure (\<lambda>(headers, st). length headers)", goal_cases)
  case (2 n rest st name_len k v len body)
  then have "length (k # v) \<le> length rest"
    by (metis length_drop diff_le_self)
  with 2 show ?case by simp
qed simp

definition decode_frame :: "(string \<Rightarrow> u32) \<Rightarrow> string \<Rightarrow> sse_event option" where
  "decode_frame crc frame =
     (let headers_len = be_value (take 4 (drop 4 frame));
          declared_prelude_crc = be_value (take 4 (drop 8 frame)) in
      if unat (crc (take 8 frame)) \<noteq> declared_prelude_crc then None
      else if length frame < 4 then None
      else
        let payload_end = length frame - 4; headers_end = PRELUDE_LEN + headers_len in
        if headers_end > payload_end then None
        else if unat (crc (take payload_end frame)) \<noteq> be_value (drop payload_end frame) then None
        else case es_headers (drop PRELUDE_LEN (take headers_end frame)) (None, None) of
          None \<Rightarrow> None
        | Some (event_type, message_type) \<Rightarrow>
            Some \<lparr>ev_event = (if message_type = Some ''exception'' then Some ''exception''
                              else event_type),
                  ev_data = utf8_lossy (drop headers_end (take payload_end frame))\<rparr>)"

definition es_length_ok :: "nat \<Rightarrow> bool" where
  "es_length_ok total_len \<longleftrightarrow> PRELUDE_LEN + 4 \<le> total_len \<and> total_len \<le> 16 * 1024 * 1024"

text \<open>\<open>push\<close>: append, then cut frames while one is complete; a corrupt length drops the buffer.\<close>

function es_drain :: "(string \<Rightarrow> u32) \<Rightarrow> string \<Rightarrow> sse_event list \<times> string" where
  "es_drain crc buf =
     (if length buf < PRELUDE_LEN then ([], buf)
      else
        let total_len = be_value (take 4 buf) in
        if \<not> es_length_ok total_len then ([], [])
        else if length buf < total_len then ([], buf)
        else
          let (events, rest) = es_drain crc (drop total_len buf) in
          (case decode_frame crc (take total_len buf) of
             Some event \<Rightarrow> (event # events, rest)
           | None \<Rightarrow> (events, rest)))"
  by pat_completeness auto
termination
  by (relation "measure (\<lambda>(crc, buf). length buf)") (auto simp: es_length_ok_def PRELUDE_LEN_def)

declare es_drain.simps [simp del]

definition es_push :: "(string \<Rightarrow> u32) \<Rightarrow> string \<Rightarrow> string \<Rightarrow> sse_event list \<times> string" where
  "es_push crc buffer chunk = es_drain crc (buffer @ chunk)"

definition es_pending :: "string \<Rightarrow> nat" where
  "es_pending buffer = length buffer"

fun es_feed :: "(string \<Rightarrow> u32) \<Rightarrow> string \<Rightarrow> string list \<Rightarrow> sse_event list \<times> string" where
  "es_feed crc buffer [] = ([], buffer)"
| "es_feed crc buffer (chunk # chunks) =
     (let (events, rest) = es_push crc buffer chunk;
          (later, left) = es_feed crc rest chunks
      in (events @ later, left))"

definition es_header :: "string \<Rightarrow> string \<Rightarrow> string" where
  "es_header name value =
     char_of (length name) # name @ [char_of (7::nat)] @ put_u16 (length value) @ value"

definition encode_event :: "(string \<Rightarrow> u32) \<Rightarrow> string \<Rightarrow> string \<Rightarrow> string" where
  "encode_event crc event_type payload =
     (let headers = es_header '':event-type'' event_type @ es_header '':message-type'' ''event''
            @ es_header '':content-type'' ''application/json'';
          total_len = PRELUDE_LEN + length headers + length payload + 4;
          lengths = put_u32 total_len @ put_u32 (length headers);
          framed = lengths @ put_u32 (unat (crc lengths)) @ headers @ payload
      in framed @ put_u32 (unat (crc framed)))"

section \<open>The decoder as a framer\<close>

definition es_cut :: "string \<Rightarrow> (string \<times> string) option" where
  "es_cut buf =
     (let total_len = be_value (take 4 buf) in
      if PRELUDE_LEN \<le> length buf \<and> es_length_ok total_len \<and> total_len \<le> length buf
      then Some (take total_len buf, drop total_len buf) else None)"

definition es_corrupt :: "string \<Rightarrow> bool" where
  "es_corrupt buf \<longleftrightarrow> PRELUDE_LEN \<le> length buf \<and> \<not> es_length_ok (be_value (take 4 buf))"

interpretation es: framer es_cut
proof
  fix buf f rest
  assume "es_cut buf = Some (f, rest)"
  then show "length rest < length buf"
    by (auto simp: es_cut_def Let_def es_length_ok_def PRELUDE_LEN_def split: if_splits)
next
  fix buf f rest later
  assume "es_cut buf = Some (f, rest)"
  then show "es_cut (buf @ later) = Some (f, rest @ later)"
    by (auto simp: es_cut_def Let_def PRELUDE_LEN_def split: if_splits)
qed

lemma es_drain_cut:
  "es_drain crc buf =
     (case es_cut buf of
        None \<Rightarrow> ([], if es_corrupt buf then [] else buf)
      | Some (frame, rest) \<Rightarrow>
          (case decode_frame crc frame of
             None \<Rightarrow> es_drain crc rest
           | Some event \<Rightarrow> (event # fst (es_drain crc rest), snd (es_drain crc rest))))"
  by (subst es_drain.simps)
    (auto simp: es_cut_def es_corrupt_def Let_def case_prod_beta not_le split: option.splits)

lemma es_drain_cuts:
  "es.cuts buf frames left \<Longrightarrow>
     es_drain crc buf = (List.map_filter (decode_frame crc) frames, if es_corrupt left then [] else left)"
proof (induction rule: es.cuts.induct)
  case (cuts_none buf)
  then show ?case by (subst es_drain_cut) (simp add: List.map_filter_def)
next
  case (cuts_some buf f rest fs left)
  then show ?case
    by (subst es_drain_cut) (simp add: List.map_filter_def split: option.splits)
qed

lemma es_corrupt_append: "es_corrupt buf \<Longrightarrow> es_cut (buf @ later) = None \<and> es_corrupt (buf @ later)"
  by (auto simp: es_corrupt_def es_cut_def PRELUDE_LEN_def)

text \<open>A connection on which no corrupt length ever reaches the front of the buffer.\<close>

definition es_clean :: "string \<Rightarrow> bool" where
  "es_clean stream \<longleftrightarrow> (\<exists>frames left. es.cuts stream frames left \<and> \<not> es_corrupt left)"

lemma es_feed_cuts:
  assumes "es.cuts (buffer @ concat chunks) frames left" "\<not> es_corrupt left" "es_cut buffer = None"
  shows "es_feed crc buffer chunks = (List.map_filter (decode_frame crc) frames, left)"
  using assms
proof (induction chunks arbitrary: buffer frames)
  case Nil
  then show ?case by (auto simp: List.map_filter_def elim: es.cuts.cases)
next
  case (Cons c cs)
  obtain fs mid where fs: "es.cuts (buffer @ c) fs mid" using es.cuts_total by blast
  obtain gs left' where gs: "es.cuts (mid @ concat cs) gs left'" using es.cuts_total by blast
  have eq: "frames = fs @ gs" "left' = left"
    using es.cuts_deterministic [OF es.cuts_append [OF fs gs], of frames left] Cons.prems(1) by simp_all
  have clean: "\<not> es_corrupt mid"
  proof
    assume "es_corrupt mid"
    with es_corrupt_append [of mid "concat cs"] gs have "es_corrupt left'"
      by (auto elim: es.cuts.cases)
    with eq Cons.prems(2) show False by simp
  qed
  have "es_feed crc mid cs = (List.map_filter (decode_frame crc) gs, left)"
    using Cons.IH [of mid gs] gs eq Cons.prems(2) es.cuts_end [OF fs] by simp
  with clean eq show ?case
    by (simp add: es_push_def es_drain_cuts [OF fs] map_filter_def)
qed

section \<open>Encoded frames decode\<close>

lemma es_header_decodes:
  assumes "length name < 256" "utf8_valid name" "length value < 2 ^ 16" "utf8_valid value"
  shows "es_headers (es_header name value @ rest) st =
    es_headers rest
      (if name = '':event-type'' then (Some value, snd st)
       else if name = '':message-type'' then (fst st, Some value) else st)"
proof -
  have "byte (char_of (length name)) = length name" using assms(1) by simp
  moreover have "byte (char_of (7::nat)) = 7" by simp
  moreover have "drop (length name) (name @ [char_of (7::nat)] @ put_u16 (length value) @ value @ rest)
      = char_of (7::nat) # put_u16 (length value) @ value @ rest" by simp
  moreover have "be_value (put_u16 (length value)) = length value" using assms(3) by simp
  ultimately show ?thesis
    using assms by (simp add: es_header_def Let_def del: be_value_put_u16 byte_char_of)
qed

lemma ascii_header_names [simp]:
  "utf8_valid '':event-type''" "utf8_valid '':message-type''" "utf8_valid '':content-type''"
  "utf8_valid ''event''" "utf8_valid ''application/json''"
  by (rule utf8_valid_ascii, simp add: byte_def)+

lemma encoded_headers_decode:
  assumes "utf8_valid t" "length t < 2 ^ 16"
  shows "es_headers (es_header '':event-type'' t @ es_header '':message-type'' ''event''
           @ es_header '':content-type'' ''application/json'') (None, None)
         = Some (Some t, Some ''event'')"
proof -
  have content_type: "es_headers (es_header '':content-type'' ''application/json'') st = Some st" for st
    using es_header_decodes [of "'':content-type''" "''application/json''" "[]" st] by simp
  have message_type: "es_headers (es_header '':message-type'' ''event'' @ rest) st
      = es_headers rest (fst st, Some ''event'')" for rest st
    by (subst es_header_decodes) simp_all
  have event_type: "es_headers (es_header '':event-type'' t @ rest) st
      = es_headers rest (Some t, snd st)" for rest st
    using assms by (subst es_header_decodes) simp_all
  show ?thesis by (simp only: event_type message_type content_type fst_conv snd_conv)
qed

text \<open>What one frame can carry: text, within the decoder's limit of 16 MiB.\<close>

definition es_carried :: "string \<times> string \<Rightarrow> bool" where
  "es_carried ev \<longleftrightarrow> utf8_valid (fst ev) \<and> length (fst ev) < 2 ^ 16 \<and> utf8_valid (snd ev)
     \<and> length (fst ev) + length (snd ev) \<le> 16 * 1024 * 1024 - 86"

definition es_delivered :: "string \<times> string \<Rightarrow> sse_event" where
  "es_delivered ev = \<lparr>ev_event = Some (fst ev), ev_data = snd ev\<rparr>"

lemma length_es_header: "length (es_header name value) = 4 + length name + length value"
  by (simp add: es_header_def)

lemma decode_framed:
  assumes "length lengths = 8" "be_value (drop 4 lengths) = length headers"
    and "es_headers headers (None, None) = Some (et, Some ''event'')" "utf8_valid payload"
    and "framed = lengths @ put_u32 (unat (crc lengths)) @ headers @ payload"
  shows "decode_frame crc (framed @ put_u32 (unat (crc framed)))
    = Some \<lparr>ev_event = et, ev_data = payload\<rparr>"
proof -
  let ?frame = "framed @ put_u32 (unat (crc framed))"
  have crc: "unat (crc x) mod 2 ^ 32 = unat (crc x)" for x
    using unat_lt_2_32 [of "crc x"] by simp
  have parts: "take 8 ?frame = lengths" "take 4 (drop 4 ?frame) = drop 4 lengths"
    "take 4 (drop 8 ?frame) = put_u32 (unat (crc lengths))"
    "drop 12 (take (12 + length headers) ?frame) = headers"
    "drop (12 + length headers) (take (length framed) ?frame) = payload"
    "12 + length headers \<le> length framed"
    using assms(1) by (simp_all add: assms(5))
  have ends: "take (length framed) ?frame = framed" "length ?frame - 4 = length framed"
    "drop (length framed) ?frame = put_u32 (unat (crc framed))" "\<not> length ?frame < 4"
    by simp_all
  show ?thesis
    unfolding decode_frame_def PRELUDE_LEN_def Let_def parts(1-3) ends(2,3) assms(2) parts(4,5) ends(1)
    using ends(4) parts(6) parts(5) [unfolded ends(1)] assms(3) crc
    by (simp add: utf8_lossy_id [OF assms(4)] not_less)
qed

lemma encode_event_decodes:
  assumes "es_carried ev"
  shows "decode_frame crc (encode_event crc (fst ev) (snd ev)) = Some (es_delivered ev)"
proof -
  let ?headers = "es_header '':event-type'' (fst ev) @ es_header '':message-type'' ''event''
    @ es_header '':content-type'' ''application/json''"
  have "be_value (put_u32 (length ?headers)) = length ?headers"
    using assms by (simp add: es_carried_def length_es_header)
  then show ?thesis
    unfolding encode_event_def Let_def es_delivered_def
    using assms encoded_headers_decode [of "fst ev"]
    by (intro decode_framed [where lengths = "put_u32 (PRELUDE_LEN + length ?headers + length (snd ev) + 4)
        @ put_u32 (length ?headers)" and headers = ?headers]) (simp_all add: es_carried_def)
qed

text \<open>A frame whose declared length is its own: what the decoder cuts whole, sound or not.\<close>

definition es_frame :: "string \<Rightarrow> bool" where
  "es_frame x \<longleftrightarrow> es_length_ok (length x) \<and> be_value (take 4 x) = length x"

lemma es_cut_frame: "es_frame x \<Longrightarrow> es_cut x = Some (x, [])"
  by (auto simp: es_frame_def es_cut_def es_length_ok_def PRELUDE_LEN_def)

lemma es_cut_Nil: "es_cut [] = None"
  by (simp add: es_cut_def PRELUDE_LEN_def)

lemma encode_event_frame:
  assumes "es_carried ev"
  shows "es_frame (encode_event crc (fst ev) (snd ev))"
proof -
  have "length (encode_event crc (fst ev) (snd ev)) = 86 + length (fst ev) + length (snd ev)"
    by (simp add: encode_event_def Let_def length_es_header PRELUDE_LEN_def)
  moreover have "take 4 (encode_event crc (fst ev) (snd ev)) = put_u32 (86 + length (fst ev) + length (snd ev))"
    by (simp add: encode_event_def Let_def length_es_header PRELUDE_LEN_def add.assoc)
  ultimately show ?thesis
    using assms by (simp add: es_frame_def es_length_ok_def PRELUDE_LEN_def es_carried_def)
qed

lemma es_feed_frames:
  assumes "\<forall>x \<in> set frames. es_frame x" "concat chunks = concat frames"
  shows "es_feed crc [] chunks = (List.map_filter (decode_frame crc) frames, [])"
proof (rule es_feed_cuts)
  have "es.cuts (concat (map (\<lambda>x. x) frames)) (map (\<lambda>x. x) frames) []"
    by (rule es.cuts_concat) (use assms(1) es_cut_frame es_cut_Nil in auto)
  then show "es.cuts ([] @ concat chunks) frames []" by (simp add: assms(2))
qed (simp_all add: es_corrupt_def PRELUDE_LEN_def es_cut_Nil)

section \<open>Properties\<close>


text \<open>
  Property C29: the framing round-trips. Encoded events, cut into chunks anywhere, decode to the same
  event types and payloads in order, whatever the checksum function is.
\<close>

theorem es_round_trip:
  assumes "\<forall>ev \<in> set events. es_carried ev"
    and "concat chunks = concat (map (\<lambda>ev. encode_event crc (fst ev) (snd ev)) events)"
  shows "es_feed crc [] chunks = (map es_delivered events, [])"
proof -
  have "es_feed crc [] chunks =
      (List.map_filter (decode_frame crc) (map (\<lambda>ev. encode_event crc (fst ev) (snd ev)) events), [])"
    using assms by (intro es_feed_frames) (auto simp: encode_event_frame)
  also have "List.map_filter (decode_frame crc) (map (\<lambda>ev. encode_event crc (fst ev) (snd ev)) events)
      = map es_delivered events"
    using assms(1) by (induction events) (simp_all add: encode_event_decodes map_filter_def)
  finally show ?thesis .
qed

text \<open>Both at concrete inputs, with the number of bytes as the checksum.\<close>

definition byte_count :: "string \<Rightarrow> u32" where
  "byte_count s = word_of_nat (length s)"


theorem es_round_trip_witness:
  "es_feed byte_count [] [take 50 (encode_event byte_count ''x'' ''{}''), drop 50 (encode_event byte_count ''x'' ''{}'')]
     = ([\<lparr>ev_event = Some ''x'', ev_data = ''{}''\<rparr>], [])"
  using es_round_trip [of "[(''x'', ''{}'')]" "[take 50 (encode_event byte_count ''x'' ''{}''),
      drop 50 (encode_event byte_count ''x'' ''{}'')]" byte_count]
  by (simp add: es_carried_def es_delivered_def utf8_valid_ascii byte_def)

text \<open>
  A corrupt length discards everything buffered. When the declared length of the frame
  at the front is below the smallest frame or above 16 MiB, the push delivers nothing and keeps
  nothing, even when sound frames follow in the same chunk.
\<close>

theorem es_corrupt_length_discards:
  assumes "length (buffer @ chunk) \<ge> PRELUDE_LEN"
    and "be_value (take 4 (buffer @ chunk)) < 16 \<or> be_value (take 4 (buffer @ chunk)) > 16 * 1024 * 1024"
  shows "es_push crc buffer chunk = ([], [])"
  using assms by (auto simp: es_push_def es_drain.simps [of crc "buffer @ chunk"] es_length_ok_def PRELUDE_LEN_def)

theorem es_corrupt_length_discards_witness:
  "es_push byte_count [] (put_u32 3 @ replicate 8 LF @ encode_event byte_count ''x'' ''{}'') = ([], [])"
proof (rule es_corrupt_length_discards)
  show "PRELUDE_LEN \<le> length ([] @ put_u32 3 @ replicate 8 LF @ encode_event byte_count ''x'' ''{}'')"
    by (simp add: PRELUDE_LEN_def)
qed simp

end
