(* ===== verification/Calendar.thy ===== *)
theory Calendar
  imports RR_Prelude
begin

text \<open>
  The proleptic Gregorian calendar of \<open>crates/router-core/src/vkey.rs\<close> (\<open>days_from_civil\<close>,
  \<open>civil_from_days\<close>), the budget periods built on it, and the timestamp parser.
\<close>

section \<open>Days and civil dates\<close>

definition days_from_civil :: "int \<Rightarrow> int \<Rightarrow> int \<Rightarrow> int" where
  "days_from_civil y0 m d =
     (let y = (if m \<le> 2 then i64 (y0 - 1) else y0);
          era = i64_div (if y \<ge> 0 then y else i64 (y - 399)) 400;
          yoe = i64 (y - era * 400);
          doy = (153 * (if m > 2 then m - 3 else m + 9) + 2) div 5 + d - 1;
          doe = yoe * 365 + yoe div 4 - yoe div 100 + doy
      in i64 (era * 146097 + doe - 719468))"

definition civil_from_days :: "int \<Rightarrow> int \<times> int \<times> int" where
  "civil_from_days z0 =
     (let z = i64 (z0 + 719468);
          era = i64_div (if z \<ge> 0 then z else i64 (z - 146096)) 146097;
          doe = z - era * 146097;
          yoe = (doe - doe div 1460 + doe div 36524 - doe div 146096) div 365;
          y = yoe + era * 400;
          doy = doe - (365 * yoe + yoe div 4 - yoe div 100);
          mp = (5 * doy + 2) div 153;
          d = doy - (153 * mp + 2) div 5 + 1;
          m = (if mp < 10 then mp + 3 else mp - 9)
      in (if m \<le> 2 then y + 1 else y, m, d))"

datatype budget_period = Daily | Weekly | Monthly

definition period_ordinal :: "budget_period \<Rightarrow> u64 \<Rightarrow> u64" where
  "period_ordinal period unix_ms =
     (let days = unix_ms div 86400000 in
      case period of
        Daily \<Rightarrow> days
      | Weekly \<Rightarrow> days div 7
      | Monthly \<Rightarrow>
          let (year, month, _) = civil_from_days (uint days)
          in word_of_int year * 12 + word_of_int (month - 1))"

section \<open>Timestamps\<close>

text \<open>\<open>str::parse\<close> for the integer types: an optional sign, then digits, within the bounds.\<close>

definition is_digit :: "char \<Rightarrow> bool" where
  "is_digit c = byte_in 48 57 c"

definition digits_value :: "string \<Rightarrow> int" where
  "digits_value s = foldl (\<lambda>n c. 10 * n + int (byte c - 48)) 0 s"

definition parse_digits :: "string \<Rightarrow> int option" where
  "parse_digits s = (if s \<noteq> [] \<and> list_all is_digit s then Some (digits_value s) else None)"

definition in_range :: "int \<Rightarrow> int \<Rightarrow> int option \<Rightarrow> int option" where
  "in_range lo hi r = (case r of Some n \<Rightarrow> if lo \<le> n \<and> n < hi then Some n else None | None \<Rightarrow> None)"

definition parse_unsigned :: "nat \<Rightarrow> string \<Rightarrow> int option" where
  "parse_unsigned bits s =
     in_range 0 (2 ^ bits)
       (case s of [] \<Rightarrow> None | c # r \<Rightarrow> if c = CHR ''+'' then parse_digits r else parse_digits s)"

definition parse_i64 :: "string \<Rightarrow> int option" where
  "parse_i64 s =
     in_range (- (2 ^ 63)) (2 ^ 63)
       (case s of
          [] \<Rightarrow> None
        | c # r \<Rightarrow>
            if c = CHR ''-'' then map_option uminus (parse_digits r)
            else if c = CHR ''+'' then parse_digits r
            else parse_digits s)"

text \<open>A separator split that must give exactly three parts, as the \<open>next()\<close> chains demand.\<close>

definition three_parts :: "char \<Rightarrow> string \<Rightarrow> (string \<times> string \<times> string) option" where
  "three_parts c s = (case split_on c s of [a, b, d] \<Rightarrow> Some (a, b, d) | _ \<Rightarrow> None)"

definition parse_millis :: "string \<Rightarrow> int option" where
  "parse_millis fraction =
     (if fraction = [] then Some 0
      else
        let digits = take 3 fraction in
        if \<not> list_all is_digit digits then None
        else parse_unsigned 64 (digits @ replicate (3 - length digits) CHR ''0''))"

definition strip_last :: "char \<Rightarrow> string \<Rightarrow> string option" where
  "strip_last c s = (if s \<noteq> [] \<and> last s = c then Some (butlast s) else None)"

definition parse_rfc3339_utc_ms :: "string \<Rightarrow> u64 option" where
  "parse_rfc3339_utc_ms text =
     Option.bind (strip_last CHR ''Z'' text) (\<lambda>s.
     Option.bind (split_once CHR ''T'' s) (\<lambda>(date, time).
     Option.bind (three_parts CHR ''-'' date) (\<lambda>(ys, ms, ds).
     Option.bind (parse_i64 ys) (\<lambda>year.
     Option.bind (parse_unsigned 32 ms) (\<lambda>month.
     Option.bind (parse_unsigned 32 ds) (\<lambda>day.
     if \<not> (1 \<le> month \<and> month \<le> 12) \<or> \<not> (1 \<le> day \<and> day \<le> 31) then None
     else
       let (hms, fraction) = (case split_once CHR ''.'' time of Some p \<Rightarrow> p | None \<Rightarrow> (time, [])) in
       Option.bind (three_parts CHR '':'' hms) (\<lambda>(hs, mins, ss).
       Option.bind (parse_unsigned 64 hs) (\<lambda>hour.
       Option.bind (parse_unsigned 64 mins) (\<lambda>minute.
       Option.bind (parse_unsigned 64 ss) (\<lambda>second.
       if hour > 23 \<or> minute > 59 \<or> second > 60 then None
       else
         Option.bind (parse_millis fraction) (\<lambda>millis.
         let days = days_from_civil year month day in
         if days < 0 then None
         else Some (word_of_int days * 86400000 + word_of_int hour * 3600000
                    + word_of_int minute * 60000 + word_of_int second * 1000
                    + word_of_int millis))))))))))))"

section \<open>Real dates\<close>

definition leap :: "int \<Rightarrow> bool" where
  "leap y \<longleftrightarrow> 4 dvd y \<and> (\<not> 100 dvd y \<or> 400 dvd y)"

definition month_length :: "int \<Rightarrow> int \<Rightarrow> int" where
  "month_length y m =
     (if m = 2 then if leap y then 29 else 28
      else if m \<in> {4, 6, 9, 11} then 30 else 31)"

definition real_date :: "int \<times> int \<times> int \<Rightarrow> bool" where
  "real_date = (\<lambda>(y, m, d). 1 \<le> m \<and> m \<le> 12 \<and> 1 \<le> d \<and> d \<le> month_length y m)"

text \<open>The day within a 400-year era on which its \<open>y\<close>-th year (counted from March) starts.\<close>

definition era_start :: "int \<Rightarrow> int" where
  "era_start y = 365 * y + y div 4 - y div 100"

definition era_year :: "int \<Rightarrow> int" where
  "era_year doe = (doe - doe div 1460 + doe div 36524 - doe div 146096) div 365"

definition era_ends :: "int \<Rightarrow> int" where
  "era_ends y = (if y = 399 then 146096 else era_start (y + 1) - 1)"

lemma div_Suc_int: "0 < k \<Longrightarrow> (n + 1) div k = n div k + of_bool (k dvd n + 1)" for n k :: int
proof -
  assume k: "0 < k"
  have n: "n = k * (n div k) + n mod k" by simp
  show ?thesis
  proof (cases "n mod k = k - 1")
    case True
    then have "n + 1 = k * (n div k + 1)" using n by (simp only: distrib_left)
    with k show ?thesis by simp
  next
    case False
    with k have lt: "n mod k + 1 < k" "0 \<le> n mod k"
      using pos_mod_bound [OF k, of n] pos_mod_sign [OF k, of n] by linarith+
    have eq: "n + 1 = (n mod k + 1) + n div k * k" using n by (simp add: algebra_simps)
    have "((n mod k + 1) + n div k * k) div k = n div k + (n mod k + 1) div k"
      "((n mod k + 1) + n div k * k) mod k = (n mod k + 1) mod k"
      using k by (simp_all only: div_mult_self1 mod_mult_self1)
    then have "(n + 1) div k = n div k + (n mod k + 1) div k" "(n + 1) mod k = (n mod k + 1) mod k"
      by (simp_all only: eq [symmetric])
    moreover have "(n mod k + 1) mod k = n mod k + 1" "(n mod k + 1) div k = 0" using lt by simp_all
    ultimately show ?thesis using lt by (simp add: dvd_eq_mod_eq_0)
  qed
qed

lemma era_year_mono: "a \<le> b \<Longrightarrow> era_year a \<le> era_year b"
proof -
  let ?f = "\<lambda>n :: int. n - n div 1460 + n div 36524 - n div 146096"
  have step: "?f n \<le> ?f (n + 1)" for n
  proof -
    have "146096 dvd n + 1 \<Longrightarrow> 36524 dvd n + 1" by (rule dvd_trans [of 36524 146096]) (rule dvdI [of _ _ 4], simp_all)
    then have "of_bool (146096 dvd n + 1) \<le> (of_bool (36524 dvd n + 1) :: int)" by simp
    moreover have "of_bool (1460 dvd n + 1) \<le> (1 :: int)" by simp
    ultimately show ?thesis
      unfolding div_Suc_int [of 1460, simplified] div_Suc_int [of 36524, simplified]
        div_Suc_int [of 146096, simplified] by linarith
  qed
  have "?f a \<le> ?f (a + int k)" for k
  proof (induction k)
    case (Suc k)
    then show ?case using step [of "a + int k"] by (simp add: algebra_simps)
  qed simp
  moreover assume "a \<le> b"
  ultimately have "?f a \<le> ?f b" by (metis zle_iff_zadd)
  then show ?thesis unfolding era_year_def by (intro zdiv_mono1) simp_all
qed

lemma era_year_ends:
  "list_all (\<lambda>y. era_year (era_start y) = y \<and> era_year (era_ends y) = y
     \<and> era_ends y - era_start y = (if leap (y + 1) then 365 else 364)
     \<and> 0 \<le> era_start y \<and> era_ends y \<le> 146096) [0..399]"
  by code_simp

lemma era_facts:
  assumes "0 \<le> y" "y < 400"
  shows "era_year (era_start y) = y" "era_year (era_ends y) = y"
    "era_ends y - era_start y = (if leap (y + 1) then 365 else 364)"
    "0 \<le> era_start y" "era_ends y \<le> 146096"
  using era_year_ends assms by (simp_all add: list_all_iff)

lemma era_year_of: "0 \<le> y \<Longrightarrow> y < 400 \<Longrightarrow> era_start y \<le> doe \<Longrightarrow> doe \<le> era_ends y \<Longrightarrow> era_year doe = y"
  using era_facts(1,2) [of y] era_year_mono [of "era_start y" doe] era_year_mono [of doe "era_ends y"]
  by simp

text \<open>The day within a year that starts in March, for the month counted from March.\<close>

definition march_day :: "int \<Rightarrow> int \<Rightarrow> int" where
  "march_day mp d = (153 * mp + 2) div 5 + d - 1"

lemma march_days:
  "list_all (\<lambda>mp. list_all (\<lambda>d. (5 * march_day mp d + 2) div 153 = mp \<and> 0 \<le> march_day mp d
       \<and> march_day mp d \<le> (if mp = 11 \<and> d = 29 then 365 else 364))
     [1..if mp = 11 then 29 else if mp \<in> {1, 3, 6, 8} then 30 else 31]) [0..11]"
  by code_simp

lemma march_day_facts:
  assumes "0 \<le> mp" "mp \<le> 11" "1 \<le> d"
    "d \<le> (if mp = 11 then 29 else if mp \<in> {1, 3, 6, 8} then 30 else 31)"
  shows "(5 * march_day mp d + 2) div 153 = mp" "0 \<le> march_day mp d"
    "march_day mp d \<le> (if mp = 11 \<and> d = 29 then 365 else 364)"
  using march_days assms by (simp_all add: list_all_iff)

lemma floor_400: "i64_div (if y \<ge> 0 then y else y - 399) 400 = y div 400"
proof (cases "y \<ge> 0")
  case False
  then have "i64_div (y - 399) 400 = - ((399 - y) div 400)"
    by (simp add: i64_div_def)
  also have "\<dots> = y div 400" by linarith
  finally show ?thesis using False by simp
qed simp

lemma floor_146097: "i64_div (if z \<ge> 0 then z else z - 146096) 146097 = z div 146097"
proof (cases "z \<ge> 0")
  case False
  then have "i64_div (z - 146096) 146097 = - ((146096 - z) div 146097)"
    by (simp add: i64_div_def)
  also have "\<dots> = z div 146097" by linarith
  finally show ?thesis using False by simp
qed simp

lemma leap_mod_400: "leap (y + 400 * k) = leap y"
proof -
  have "4 dvd 400 * k" "100 dvd 400 * k" "400 dvd 400 * k"
    by (rule dvd_mult2, simp)+
  then have "4 dvd y + 400 * k \<longleftrightarrow> 4 dvd y" "100 dvd y + 400 * k \<longleftrightarrow> 100 dvd y"
    "400 dvd y + 400 * k \<longleftrightarrow> 400 dvd y"
    by (simp_all only: dvd_add_left_iff)
  then show ?thesis by (simp add: leap_def)
qed

text \<open>The civil date of an era, a year in it, and a day of a real March-based year.\<close>

lemma civil_from_era:
  assumes "0 \<le> yoe" "yoe < 400" "\<bar>era\<bar> \<le> 10 ^ 12"
    and "0 \<le> mp" "mp \<le> 11" "1 \<le> d"
    and "d \<le> (if mp = 11 then if leap (yoe + 1) then 29 else 28 else if mp \<in> {1, 3, 6, 8} then 30 else 31)"
  shows "civil_from_days (era * 146097 + (era_start yoe + march_day mp d) - 719468)
    = ((if mp < 10 then yoe + era * 400 else yoe + era * 400 + 1), (if mp < 10 then mp + 3 else mp - 9), d)"
proof -
  let ?doe = "era_start yoe + march_day mp d"
  have d: "d \<le> (if mp = 11 then 29 else if mp \<in> {1, 3, 6, 8} then 30 else 31)"
    using assms(7) by (auto split: if_splits)
  note md = march_day_facts [OF assms(4,5,6) d] and ef = era_facts [OF assms(1,2)]
  have "march_day mp d \<le> (if leap (yoe + 1) then 365 else 364)"
    using md(3) assms(7) by (auto split: if_splits)
  then have doe: "era_start yoe \<le> ?doe" "?doe \<le> era_ends yoe" "0 \<le> ?doe" "?doe \<le> 146096"
    using md(2) ef(3-5) by linarith+
  have z: "i64 (era * 146097 + ?doe) = era * 146097 + ?doe"
    by (rule i64_id) (use assms(3) doe in \<open>simp_all add: abs_le_iff\<close>)
  have z': "i64 (era * 146097 + ?doe - 146096) = era * 146097 + ?doe - 146096"
    by (rule i64_id) (use assms(3) doe in \<open>simp_all add: abs_le_iff\<close>)
  have era: "(era * 146097 + ?doe) div 146097 = era" using doe by simp
  have yoe: "(?doe - ?doe div 1460 + ?doe div 36524 - ?doe div 146096) div 365 = yoe"
    using era_year_of [OF assms(1,2) doe(1,2)] by (simp add: era_year_def)
  have doy: "?doe - (365 * yoe + yoe div 4 - yoe div 100) = march_day mp d"
    by (simp add: era_start_def)
  have day: "march_day mp d - (153 * mp + 2) div 5 + 1 = d" by (simp add: march_day_def)
  have shift: "era * 146097 + ?doe - 719468 + 719468 = era * 146097 + ?doe" by simp
  have rest: "era * 146097 + ?doe - era * 146097 = ?doe" by simp
  show ?thesis
    unfolding civil_from_days_def Let_def shift z z' floor_146097 era rest yoe doy md(1) day
    using assms(4,5) by auto
qed

lemma days_from_civil_era:
  assumes "\<bar>y\<bar> \<le> 10 ^ 12"
  shows "days_from_civil y m d =
    (let y' = (if m \<le> 2 then y - 1 else y) in
     i64 (y' div 400 * 146097
       + (era_start (y' mod 400) + march_day (if m > 2 then m - 3 else m + 9) d) - 719468))"
proof -
  have bounds: "- 1000000000000 \<le> y" "y \<le> 1000000000000" using assms by simp_all
  then have y1: "i64 (y - 1) = y - 1" and y2: "i64 (y - 399) = y - 399"
    and y3: "i64 (y - 1 - 399) = y - 1 - 399"
    by (simp_all add: i64_id)
  have small: "i64 (x mod 400) = x mod 400" for x
    using pos_mod_bound [of 400 x] pos_mod_sign [of 400 x] by (intro i64_id) simp_all
  have yoe: "x - x div 400 * 400 = x mod 400" for x :: int by (simp add: minus_div_mult_eq_mod)
  have f1: "i64_div (if y - 1 \<ge> 0 then y - 1 else i64 (y - 1 - 399)) 400 = (y - 1) div 400"
    and f2: "i64_div (if y \<ge> 0 then y else i64 (y - 399)) 400 = y div 400"
    unfolding y2 y3 by (rule floor_400)+
  show ?thesis
  proof (cases "m \<le> 2")
    case True
    then show ?thesis
      unfolding days_from_civil_def Let_def
      by (simp only: if_True y1 f1 yoe small era_start_def march_day_def)
        (simp add: algebra_simps)
  next
    case False
    then show ?thesis
      unfolding days_from_civil_def Let_def
      by (simp only: if_False f2 yoe small era_start_def march_day_def)
        (simp add: algebra_simps)
  qed
qed

text \<open>
  Property C35: the calendar is right. For every real date within a trillion years of year 0, leap days
  included, counting its days since 1970 and converting back gives the date.
\<close>

theorem civil_round_trip:
  assumes "real_date (y, m, d)" and "\<bar>y\<bar> \<le> 10 ^ 12"
  shows "civil_from_days (days_from_civil y m d) = (y, m, d)"
proof -
  define y' where "y' = (if m \<le> 2 then y - 1 else y)"
  define mp where "mp = (if m > 2 then m - 3 else m + 9)"
  have m: "1 \<le> m" "m \<le> 12" and d: "1 \<le> d" "d \<le> month_length y m"
    using assms(1) by (simp_all add: real_date_def)
  have bound: "\<bar>y' div 400\<bar> \<le> 10 ^ 12" using assms(2) unfolding y'_def by (auto simp: abs_le_iff)
  have mp: "0 \<le> mp" "mp \<le> 11" using m by (auto simp: mp_def)
  have "leap (y' mod 400 + 1) = leap (y' + 1)"
    using leap_mod_400 [of "y' mod 400 + 1" "y' div 400"] by (simp add: algebra_simps)
  then have len: "d \<le> (if mp = 11 then if leap (y' mod 400 + 1) then 29 else 28
      else if mp \<in> {1, 3, 6, 8} then 30 else 31)"
    using d m by (auto simp: mp_def y'_def month_length_def split: if_splits)
  let ?n = "y' div 400 * 146097 + (era_start (y' mod 400) + march_day mp d) - 719468"
  have returned: "civil_from_days ?n
      = ((if mp < 10 then y' mod 400 + y' div 400 * 400 else y' mod 400 + y' div 400 * 400 + 1),
         (if mp < 10 then mp + 3 else mp - 9), d)"
    by (rule civil_from_era) (use bound mp d(1) len in simp_all)
  have era: "0 \<le> era_start (y' mod 400)" "era_start (y' mod 400) \<le> 146096"
    using era_facts [of "y' mod 400"] by (auto split: if_splits)
  have "0 \<le> march_day mp d" "march_day mp d \<le> 365"
    using march_day_facts [OF mp d(1)] len by (auto split: if_splits)
  then have "i64 ?n = ?n"
    by (intro i64_id) (use era bound in \<open>simp_all add: abs_le_iff\<close>)
  then have "days_from_civil y m d = ?n"
    using days_from_civil_era [OF assms(2), of m d] by (simp add: y'_def mp_def Let_def)
  then show ?thesis
    using returned m by (auto simp: mp_def y'_def)
qed

theorem civil_round_trip_witness: "civil_from_days (days_from_civil 2024 2 29) = (2024, 2, 29)"
  by (rule civil_round_trip) (simp_all add: real_date_def month_length_def leap_def)

text \<open>
  The timestamp parser takes days that do not exist. The thirty-first of February is
  read as the third of March.
\<close>

theorem rfc3339_reads_february_31:
  "parse_rfc3339_utc_ms ''2026-02-31T00:00:00Z'' = parse_rfc3339_utc_ms ''2026-03-03T00:00:00Z''
   \<and> parse_rfc3339_utc_ms ''2026-02-31T00:00:00Z'' = Some 1772496000000"
  by code_simp

end
