(* ===== verification/Virtual_Keys.thy ===== *)
theory Virtual_Keys
  imports Token_Bucket Calendar
begin

text \<open>
  Virtual keys of \<open>crates/router-core/src/vkey.rs\<close>: generation and parsing of tokens, the packed
  spend word and its compare-exchange loop, the runtime state of a key, and the lookup table. The
  hash of the crate \<open>blake3\<close> and the generator of the crate \<open>fastrand\<close> are parameters.
\<close>

section \<open>Definitions of keys\<close>

record prev_secret =
  ps_secret_hash :: string
  ps_valid_until_ms :: u64

record budget =
  bu_usd :: f64
  bu_period :: budget_period

record rate_limit =
  rl_rpm :: "u64 option"
  rl_tpm :: "u64 option"

definition rate_default :: rate_limit where
  "rate_default = \<lparr>rl_rpm = None, rl_tpm = None\<rparr>"

record virtual_key_def =
  vd_id :: string
  vd_name :: string
  vd_secret_hash :: string
  vd_prev_secret :: "prev_secret option"
  vd_models :: "string list"
  vd_tenant :: "string option"
  vd_budget :: "budget option"
  vd_rate :: "rate_limit option"
  vd_expires_ms :: "u64 option"
  vd_tags :: "string \<rightharpoonup> string"
  vd_enabled :: bool
  vd_created_ms :: u64

section \<open>Tokens\<close>

definition SECRET_LEN :: nat where "SECRET_LEN = 26"
definition ID_LEN :: nat where "ID_LEN = 6"

definition BASE62 :: string where
  "BASE62 = ''0123456789ABCDEFGHIJKLMNOPQRSTUVWXYZabcdefghijklmnopqrstuvwxyz''"

text \<open>\<open>char::from_digit(n, 16)\<close>.\<close>

definition hex_digit :: "nat \<Rightarrow> char" where
  "hex_digit n = ''0123456789abcdef'' ! n"

text \<open>\<open>draw i n\<close> is the \<open>i\<close>-th number the generator yields, asked for one below \<open>n\<close>.\<close>

definition generate_secret :: "(nat \<Rightarrow> nat \<Rightarrow> nat) \<Rightarrow> string" where
  "generate_secret draw = map (\<lambda>i. BASE62 ! draw i (length BASE62)) [0..<SECRET_LEN]"

definition generate :: "(nat \<Rightarrow> nat \<Rightarrow> nat) \<Rightarrow> string \<times> string" where
  "generate draw =
     (map (\<lambda>i. hex_digit (draw i 16)) [0..<ID_LEN], generate_secret (\<lambda>i. draw (ID_LEN + i)))"

definition generated_full :: "string \<times> string \<Rightarrow> string" where
  "generated_full key = ''ck-'' @ fst key @ ''-'' @ snd key"

definition is_hexdigit :: "char \<Rightarrow> bool" where
  "is_hexdigit c \<longleftrightarrow> byte_in 48 57 c \<or> byte_in 65 70 c \<or> byte_in 97 102 c"

definition parse_token :: "string \<Rightarrow> (string \<times> string) option" where
  "parse_token token =
     Option.bind (strip_prefix ''ck-'' token) (\<lambda>rest.
     Option.bind (split_once CHR ''-'' rest) (\<lambda>(key_id, secret).
     if length key_id \<noteq> ID_LEN \<or> \<not> list_all is_hexdigit key_id \<or> secret = [] then None
     else Some (key_id, secret)))"

section \<open>Stored hashes\<close>

text \<open>\<open>u8::from_str_radix(_, 16)\<close>: an optional plus sign, then hexadecimal digits, at most 255.\<close>

definition hex_value :: "char \<Rightarrow> nat" where
  "hex_value c = (if byte_in 48 57 c then byte c - 48 else if byte_in 65 70 c then byte c - 55 else byte c - 87)"

definition u8_from_hex :: "string \<Rightarrow> nat option" where
  "u8_from_hex s =
     (let digits = (case s of c # r \<Rightarrow> if c = CHR ''+'' then r else s | [] \<Rightarrow> []);
          n = foldl (\<lambda>n c. 16 * n + hex_value c) 0 digits
      in if digits \<noteq> [] \<and> list_all is_hexdigit digits \<and> n < 256 then Some n else None)"

fun decode_hex :: "string \<Rightarrow> string option" where
  "decode_hex [] = Some []"
| "decode_hex [c] = None"
| "decode_hex (a # b # rest) =
     Option.bind (u8_from_hex [a, b]) (\<lambda>n. map_option (\<lambda>out. char_of n # out) (decode_hex rest))"

definition decode_hash :: "string \<Rightarrow> string option" where
  "decode_hash stored =
     Option.bind (strip_prefix ''blake3:'' stored) (\<lambda>hex.
     if length hex \<noteq> 64 then None else decode_hex hex)"

text \<open>\<open>digest\<close> is the hash, \<open>to_hex\<close> the rendering of a digest as text.\<close>

definition hash_secret :: "(string \<Rightarrow> string) \<Rightarrow> (string \<Rightarrow> string) \<Rightarrow> string \<Rightarrow> string" where
  "hash_secret digest to_hex secret = ''blake3:'' @ to_hex (digest secret)"

text \<open>What the crate documents of the two: 32 bytes, and lowercase hexadecimal, two digits a byte.\<close>

definition hashes_like_blake3 :: "(string \<Rightarrow> string) \<Rightarrow> (string \<Rightarrow> string) \<Rightarrow> bool" where
  "hashes_like_blake3 digest to_hex \<longleftrightarrow>
     (\<forall>s. length (digest s) = 32) \<and>
     (\<forall>bs. to_hex bs = concat (map (\<lambda>c. [hex_digit (byte c div 16), hex_digit (byte c mod 16)]) bs))"

datatype vk_reject = Unknown | BadSecret | Disabled | Expired

datatype vk_deny = RateLimited u64 | BudgetExhausted

section \<open>Spend\<close>

definition SPEND_BITS :: nat where "SPEND_BITS = 40"
definition SPEND_MASK :: u64 where "SPEND_MASK = push_bit SPEND_BITS 1 - 1"
definition PERIOD_MASK :: u64 where "PERIOD_MASK = push_bit 24 1 - 1"

definition sp_pack :: "u64 \<Rightarrow> u64 \<Rightarrow> u64" where
  "sp_pack period spend = push_bit SPEND_BITS period OR spend"

definition sp_period :: "u64 \<Rightarrow> u64" where "sp_period w = drop_bit SPEND_BITS w"
definition sp_spent :: "u64 \<Rightarrow> u64" where "sp_spent w = w AND SPEND_MASK"

text \<open>One turn of the loop in \<open>add\<close>: the word to store over \<open>current\<close>.\<close>

definition sp_next :: "u64 \<Rightarrow> u64 \<Rightarrow> u64 \<Rightarrow> u64" where
  "sp_next micro_usd ordinal current =
     (let period = ordinal AND PERIOD_MASK;
          next_spend =
            (if sp_period current = period
             then min (u64_saturating_add (sp_spent current) micro_usd) SPEND_MASK
             else min micro_usd SPEND_MASK)
      in sp_pack period next_spend)"

definition sp_add :: "u64 \<Rightarrow> u64 \<Rightarrow> u64 \<Rightarrow> u64" where
  "sp_add packed micro_usd ordinal = sp_next micro_usd ordinal packed"

definition sp_current :: "u64 \<Rightarrow> u64 \<Rightarrow> u64" where
  "sp_current packed ordinal =
     (if sp_period packed = ordinal AND PERIOD_MASK then sp_spent packed else 0)"

text \<open>
  The same operation as atomic steps: load, then compare-exchange until it succeeds. The weak
  exchange may fail on an unchanged word, so a failure is possible at every try.
\<close>

datatype sp_pc =
    SpStart u64 u64             \<comment> \<open>debit, period\<close>
  | SpLoaded u64 u64 u64        \<comment> \<open>and the word read\<close>
  | SpDone u64 u64

inductive sp_thread :: "u64 \<Rightarrow> sp_pc \<Rightarrow> u64 \<Rightarrow> sp_pc \<Rightarrow> bool" where
  sp_load: "sp_thread w (SpStart m p) w (SpLoaded m p w)"
| sp_swap: "w = cur \<Longrightarrow> sp_thread w (SpLoaded m p cur) (sp_next m p cur) (SpDone m p)"
| sp_retry: "sp_thread w (SpLoaded m p cur) w (SpLoaded m p w)"

inductive sp_reachable :: "u64 \<Rightarrow> (nat \<Rightarrow> sp_pc) \<Rightarrow> u64 \<Rightarrow> (nat \<Rightarrow> sp_pc) \<Rightarrow> nat list \<Rightarrow> bool"
  for w0 :: u64 and t0 :: "nat \<Rightarrow> sp_pc" where
  sp_reachable_start: "sp_reachable w0 t0 w0 t0 []"
| sp_reachable_step:
    "sp_reachable w0 t0 w t order \<Longrightarrow> sp_thread w (t i) w' pc' \<Longrightarrow>
       sp_reachable w0 t0 w' (t(i := pc'))
         (order @ (case pc' of SpDone m p \<Rightarrow> [i] | _ \<Rightarrow> []))"

inductive_cases sp_thread_doneE: "sp_thread w (SpDone m p) w' pc'"

text \<open>The debit a thread came with, at every step of it.\<close>

fun sp_debit :: "sp_pc \<Rightarrow> u64 \<times> u64" where
  "sp_debit (SpStart m p) = (m, p)"
| "sp_debit (SpLoaded m p w) = (m, p)"
| "sp_debit (SpDone m p) = (m, p)"

definition sp_finished :: "sp_pc \<Rightarrow> bool" where
  "sp_finished pc \<longleftrightarrow> (case pc of SpDone m p \<Rightarrow> True | _ \<Rightarrow> False)"

section \<open>The runtime state of a key\<close>

text \<open>
  \<open>vk_spend\<close> is an address: the code shares one \<open>SpendState\<close> between all the runtimes a key has had
  (an \<open>Arc\<close>). The words themselves are in a store that grows by one for every new key.
\<close>

record vk_runtime =
  vk_def :: virtual_key_def
  vk_hash :: "string option"
  vk_prev :: "(string \<times> u64) option"
  vk_rpm :: "token_bucket option"
  vk_tpm :: "token_bucket option"
  vk_spend :: nat
  vk_shares :: u64

type_synonym spend_store = "u64 list"

definition new_bucket :: "u64 option \<Rightarrow> token_bucket option" where
  "new_bucket per_min = map_option (\<lambda>limit. tb_new limit (max (limit div 60) 1)) per_min"

definition take_bucket :: "token_bucket option \<Rightarrow> u64 option \<Rightarrow> token_bucket option" where
  "take_bucket prev limit =
     (case (prev, limit) of
        (Some b, Some _) \<Rightarrow> Some (tb_clone_state b)
      | _ \<Rightarrow> new_bucket limit)"

definition vk_new ::
    "virtual_key_def \<Rightarrow> vk_runtime option \<Rightarrow> nat \<Rightarrow> spend_store \<Rightarrow> vk_runtime \<times> spend_store" where
  "vk_new def prev_rt members store =
     (let rate = (case vd_rate def of Some r \<Rightarrow> r | None \<Rightarrow> rate_default);
          shares = (word_of_nat (max members 1) :: u64);
          share = map_option (\<lambda>l. max (l div shares) 1);
          share_rpm = share (rl_rpm rate);
          share_tpm = share (rl_tpm rate);
          (rpm, tpm) =
            (case prev_rt of
               Some p \<Rightarrow>
                 if vd_rate (vk_def p) = vd_rate def \<and> vk_shares p = shares
                 then (take_bucket (vk_rpm p) share_rpm, take_bucket (vk_tpm p) share_tpm)
                 else (new_bucket share_rpm, new_bucket share_tpm)
             | None \<Rightarrow> (new_bucket share_rpm, new_bucket share_tpm));
          (spend, store) =
            (case prev_rt of Some p \<Rightarrow> (vk_spend p, store) | None \<Rightarrow> (length store, store @ [0]))
      in (\<lparr>vk_def = def,
           vk_hash = decode_hash (vd_secret_hash def),
           vk_prev =
             Option.bind (vd_prev_secret def) (\<lambda>p.
               map_option (\<lambda>h. (h, ps_valid_until_ms p)) (decode_hash (ps_secret_hash p))),
           vk_rpm = rpm, vk_tpm = tpm, vk_spend = spend, vk_shares = shares\<rparr>, store))"

definition vk_verify_secret :: "(string \<Rightarrow> string) \<Rightarrow> vk_runtime \<Rightarrow> string \<Rightarrow> u64 \<Rightarrow> bool" where
  "vk_verify_secret digest rt secret unix_ms =
     (let candidate = digest secret in
      if (case vk_hash rt of Some hash \<Rightarrow> candidate = hash | None \<Rightarrow> False) then True
      else case vk_prev rt of
        Some (prev_hash, valid_until) \<Rightarrow> unix_ms \<le> valid_until \<and> candidate = prev_hash
      | None \<Rightarrow> False)"

definition vk_allows_model :: "vk_runtime \<Rightarrow> string \<Rightarrow> string option \<Rightarrow> bool" where
  "vk_allows_model rt requested resolved =
     (if vd_models (vk_def rt) = [] then True
      else list_ex (\<lambda>m. m = requested \<or> resolved = Some m) (vd_models (vk_def rt)))"

text \<open>\<open>(budget.usd * 1_000_000.0).max(0.0) as u64\<close>: the cast truncates and saturates; NaN becomes 0.\<close>

definition limit_micro :: "f64 \<Rightarrow> u64" where
  "limit_micro usd =
     (case usd of
        Finite q \<Rightarrow> word_of_int (min (max \<lfloor>q * 1000000\<rfloor> 0) (2 ^ 64 - 1))
      | Infinity \<Rightarrow> - 1
      | _ \<Rightarrow> 0)"

definition vk_budget_exhausted :: "spend_store \<Rightarrow> vk_runtime \<Rightarrow> u64 \<Rightarrow> bool" where
  "vk_budget_exhausted store rt ordinal =
     (case vd_budget (vk_def rt) of
        None \<Rightarrow> False
      | Some b \<Rightarrow> limit_micro (bu_usd b) \<le> sp_current (store ! vk_spend rt) ordinal)"

definition vk_admit :: "spend_store \<Rightarrow> vk_runtime \<Rightarrow> u64 \<Rightarrow> u64 \<Rightarrow> vk_runtime \<times> (vk_deny + unit)" where
  "vk_admit store rt mono_ms ordinal =
     (let (rpm, admitted) =
        (case vk_rpm rt of
           None \<Rightarrow> (None, True)
         | Some b \<Rightarrow> (let (b, ok) = tb_try_consume b 1 mono_ms in (Some b, ok)));
          rt = rt\<lparr>vk_rpm := rpm\<rparr>
      in if \<not> admitted then
           let rpm_limit = (case Option.bind (vd_rate (vk_def rt)) rl_rpm of Some l \<Rightarrow> l | None \<Rightarrow> 60);
               per_min = max (rpm_limit div vk_shares rt) 1
           in (rt, Inl (RateLimited (min (max (60 div per_min) 1) 60)))
         else
           let (tpm, drained) =
             (case vk_tpm rt of
                None \<Rightarrow> (None, False)
              | Some b \<Rightarrow>
                  if tb_available_tokens b = 0
                  then let b = fst (tb_try_consume b 0 mono_ms) in (Some b, tb_available_tokens b = 0)
                  else (Some b, False));
               rt = rt\<lparr>vk_tpm := tpm\<rparr>
           in if drained then (rt, Inl (RateLimited 1))
              else if vk_budget_exhausted store rt ordinal then (rt, Inl BudgetExhausted)
              else (rt, Inr ()))"

definition vk_debit_usage ::
    "spend_store \<Rightarrow> vk_runtime \<Rightarrow> u64 \<Rightarrow> u64 \<Rightarrow> u64 \<Rightarrow> u64 \<Rightarrow> vk_runtime \<times> spend_store" where
  "vk_debit_usage store rt tokens micro_usd mono_ms ordinal =
     (rt\<lparr>vk_tpm :=
           (case vk_tpm rt of
              Some b \<Rightarrow> if tokens > 0 then Some (tb_debit_saturating b tokens mono_ms) else Some b
            | None \<Rightarrow> None)\<rparr>,
      if micro_usd > 0
      then store[vk_spend rt := sp_add (store ! vk_spend rt) micro_usd ordinal]
      else store)"

definition vk_period_ordinal :: "vk_runtime \<Rightarrow> u64 \<Rightarrow> u64" where
  "vk_period_ordinal rt unix_ms =
     period_ordinal (case vd_budget (vk_def rt) of Some b \<Rightarrow> bu_period b | None \<Rightarrow> Monthly) unix_ms"

section \<open>The table\<close>

record vk_table =
  vt_by_id :: "string \<rightharpoonup> vk_runtime"
  vt_shares :: nat

definition vk_table_default :: vk_table where
  "vk_table_default = \<lparr>vt_by_id = Map.empty, vt_shares = 1\<rparr>"

text \<open>One turn of the loop over the definitions.\<close>

definition vk_insert ::
    "vk_table option \<Rightarrow> nat \<Rightarrow> (string \<rightharpoonup> vk_runtime) \<times> spend_store \<Rightarrow> virtual_key_def \<Rightarrow>
       (string \<rightharpoonup> vk_runtime) \<times> spend_store" where
  "vk_insert prev shares st def =
     (let prev_rt = Option.bind prev (\<lambda>t. vt_by_id t (vd_id def));
          (rt, store) = vk_new def prev_rt shares (snd st)
      in ((fst st)(vd_id def \<mapsto> rt), store))"

definition vk_build_with_shares ::
    "virtual_key_def list \<Rightarrow> vk_table option \<Rightarrow> nat \<Rightarrow> spend_store \<Rightarrow> vk_table \<times> spend_store" where
  "vk_build_with_shares defs prev shares store =
     (let (by_id, store) = foldl (vk_insert prev shares) (Map.empty, store) defs
      in (\<lparr>vt_by_id = by_id, vt_shares = max shares 1\<rparr>, store))"

definition vk_build ::
    "virtual_key_def list \<Rightarrow> vk_table option \<Rightarrow> spend_store \<Rightarrow> vk_table \<times> spend_store" where
  "vk_build defs prev store = vk_build_with_shares defs prev 1 store"

definition vk_verify ::
    "(string \<Rightarrow> string) \<Rightarrow> vk_table \<Rightarrow> string \<Rightarrow> u64 \<Rightarrow> vk_reject + vk_runtime" where
  "vk_verify digest table token unix_ms =
     (case parse_token token of
        None \<Rightarrow> Inl Unknown
      | Some (key_id, secret) \<Rightarrow>
          (case vt_by_id table key_id of
             None \<Rightarrow> Inl Unknown
           | Some rt \<Rightarrow>
               if \<not> vk_verify_secret digest rt secret unix_ms then Inl BadSecret
               else if \<not> vd_enabled (vk_def rt) then Inl Disabled
               else if (case vd_expires_ms (vk_def rt) of Some expiry \<Rightarrow> expiry \<le> unix_ms | None \<Rightarrow> False)
               then Inl Expired
               else Inr rt))"

section \<open>The packed word\<close>

lemma masks: "SPEND_MASK = mask 40" "PERIOD_MASK = mask 24"
  by (simp_all add: SPEND_MASK_def PERIOD_MASK_def SPEND_BITS_def mask_eq_exp_minus_1 push_bit_eq_mult)

lemma sp_unpack:
  assumes "s \<le> SPEND_MASK"
  shows "sp_period (sp_pack (p AND PERIOD_MASK) s) = p AND PERIOD_MASK"
    and "sp_spent (sp_pack (p AND PERIOD_MASK) s) = s"
proof -
  have "unat s < 2 ^ 40" using assms by (simp add: masks mask_eq_exp_minus_1 word_le_nat_alt)
  then have "take_bit 40 s = s" by (simp only: word_unat_eq_iff unsigned_take_bit_eq take_bit_nat_eq_self)
  then have low: "\<not> bit s n" if "40 \<le> n" for n using that by (metis bit_take_bit_iff not_le)
  show "sp_period (sp_pack (p AND PERIOD_MASK) s) = p AND PERIOD_MASK"
    by (rule bit_word_eqI) (auto simp: sp_period_def sp_pack_def masks SPEND_BITS_def bit_simps low)
  show "sp_spent (sp_pack (p AND PERIOD_MASK) s) = s"
    by (rule bit_word_eqI) (auto simp: sp_spent_def sp_pack_def masks SPEND_BITS_def bit_simps, metis low not_le)
qed

lemma unat_SPEND_MASK: "unat SPEND_MASK = 2 ^ 40 - 1"
  by (simp add: masks mask_eq_exp_minus_1)

lemma sp_spent_le: "sp_spent w \<le> SPEND_MASK"
  by (simp add: sp_spent_def word_and_le1)

text \<open>A debit in the period adds, up to the mask; a debit in another period opens that period.\<close>

lemma sp_next_current:
  "unat (sp_current (sp_next m p w) p) = min (unat (sp_current w p) + unat m) (2 ^ 40 - 1)"
proof (cases "sp_period w = p AND PERIOD_MASK")
  case True
  have "unat (sp_spent w) \<le> 2 ^ 40 - 1" using sp_spent_le [of w] unat_SPEND_MASK by (simp add: word_le_nat_alt)
  then have "min (min (unat (sp_spent w) + unat m) (2 ^ 64 - 1)) (2 ^ 40 - 1)
      = min (unat (sp_spent w) + unat m) (2 ^ 40 - 1)"
    by (simp add: min_def)
  then show ?thesis
    using True by (simp add: sp_next_def Let_def sp_current_def sp_unpack unat_min_word
      unat_saturating_add unat_SPEND_MASK)
next
  case False
  then show ?thesis
    by (simp add: sp_next_def Let_def sp_current_def sp_unpack unat_min_word unat_SPEND_MASK)
qed

lemma sp_next_period: "sp_period (sp_next m p w) = p AND PERIOD_MASK"
  by (simp add: sp_next_def Let_def sp_unpack)

lemma sp_current_other: "sp_period w \<noteq> p AND PERIOD_MASK \<Longrightarrow> sp_current w p = 0"
  by (simp add: sp_current_def)

lemma foldl_sp_next:
  "unat (sp_current (foldl (\<lambda>w m. sp_next m p w) w ms) p)
     = min (unat (sp_current w p) + sum_list (map unat ms)) (2 ^ 40 - 1)"
proof (induction ms arbitrary: w)
  case Nil
  have "unat (sp_current w p) \<le> 2 ^ 40 - 1"
    using sp_spent_le [of w] unat_SPEND_MASK by (simp add: sp_current_def word_le_nat_alt)
  then show ?case by simp
next
  case (Cons m ms)
  then show ?case by (simp add: sp_next_current min_def)
qed

section \<open>Racing debits\<close>

text \<open>The shared word is always the debits of the finished threads, folded in the order they finished.\<close>

lemma sp_thread_cases:
  assumes "sp_thread w pc w' pc'"
  shows "sp_debit pc' = sp_debit pc \<and> \<not> sp_finished pc
    \<and> (if sp_finished pc' then w' = sp_next (fst (sp_debit pc)) (snd (sp_debit pc)) w else w' = w)"
  using assms by cases (simp_all add: sp_finished_def)

lemma sp_reachable_linearises:
  assumes "sp_reachable w0 t0 w t order" and "\<And>i. \<not> sp_finished (t0 i)"
  shows "w = foldl (\<lambda>w i. sp_next (fst (sp_debit (t0 i))) (snd (sp_debit (t0 i))) w) w0 order
    \<and> distinct order \<and> set order = {i. sp_finished (t i)} \<and> (\<forall>i. sp_debit (t i) = sp_debit (t0 i))"
  using assms
proof (induction rule: sp_reachable.induct)
  case sp_reachable_start
  then show ?case by simp
next
  case (sp_reachable_step w t order i w' pc')
  note step = sp_thread_cases [OF sp_reachable_step.hyps(2)]
  note IH = sp_reachable_step.IH [OF sp_reachable_step.prems]
  show ?case
  proof (cases pc')
    case (SpDone m p)
    then have "sp_finished pc'" by (simp add: sp_finished_def)
    with step IH SpDone show ?thesis by (auto simp: sp_finished_def)
  next
    case (SpStart m p)
    with step IH show ?thesis by (auto simp: sp_finished_def)
  next
    case (SpLoaded m p cur)
    with step IH show ?thesis by (auto simp: sp_finished_def)
  qed
qed

text \<open>
  Property C4: no debit is lost to a race. However the threads that debit one key in one period
  interleave, and however often the exchange fails, the recorded spend of the period is at every
  moment what it was plus the debits of exactly the threads that have finished, each counted once,
  saturating at the 40 bits the word has for it.
\<close>

theorem spend_racing_loses_no_debit:
  assumes "sp_reachable w0 t0 w t order"
    and "\<And>i. \<exists>m. t0 i = SpStart m p"
  shows "set order = {i. sp_finished (t i)} \<and>
    unat (sp_current w p)
      = min (unat (sp_current w0 p) + (\<Sum>i | sp_finished (t i). unat (fst (sp_debit (t0 i))))) (2 ^ 40 - 1)"
proof -
  have fresh: "\<not> sp_finished (t0 i)" and period: "snd (sp_debit (t0 i)) = p" for i
    using assms(2) [of i] by (auto simp: sp_finished_def)
  note lin = sp_reachable_linearises [OF assms(1) fresh]
  have "foldl (\<lambda>w i. sp_next (fst (sp_debit (t0 i))) (snd (sp_debit (t0 i))) w) w0 order
      = foldl (\<lambda>w m. sp_next m p w) w0 (map (\<lambda>i. fst (sp_debit (t0 i))) order)"
    by (simp add: period foldl_map)
  with lin have "unat (sp_current w p) =
      min (unat (sp_current w0 p) + sum_list (map (\<lambda>i. unat (fst (sp_debit (t0 i)))) order)) (2 ^ 40 - 1)"
    by (simp add: foldl_sp_next comp_def)
  moreover have "sum_list (map (\<lambda>i. unat (fst (sp_debit (t0 i)))) order)
      = (\<Sum>i | sp_finished (t i). unat (fst (sp_debit (t0 i))))"
    using lin sum_list_distinct_conv_sum_set [of order "\<lambda>i. unat (fst (sp_debit (t0 i)))"] by simp
  ultimately show ?thesis using lin by simp
qed

text \<open>Two threads debit 5 and 7; the first exchange of the second thread fails and is retried.\<close>

theorem spend_racing_loses_no_debit_witness:
  "\<exists>w t order. sp_reachable 0 (\<lambda>i. SpStart (if i = 0 then 5 else 7) 3) w t order
     \<and> order = [0, 1] \<and> unat (sp_current w 3) = 12"
proof -
  let ?t0 = "\<lambda>i :: nat. SpStart (if i = 0 then 5 else 7 :: u64) 3"
  define t1 where "t1 = ?t0(0 := SpLoaded 5 3 0)"
  define t2 where "t2 = t1(1 := SpLoaded 7 3 0)"
  define t3 where "t3 = t2(0 := SpDone 5 3)"
  define t4 where "t4 = t3(1 := SpLoaded 7 3 (sp_next 5 3 0))"
  define t5 where "t5 = t4(1 := SpDone 7 3)"
  note step = sp_reachable_step [where ?t0.0 = ?t0 and ?w0.0 = 0]
  have "sp_reachable 0 ?t0 0 t1 []"
    using step [OF sp_reachable_start, of 0 0 "SpLoaded 5 3 0"] sp_load [of 0 5 3] by (simp add: t1_def)
  then have "sp_reachable 0 ?t0 0 t2 []"
    using step [of 0 t1 "[]" 1 0 "SpLoaded 7 3 0"] sp_load [of 0 7 3] by (simp add: t1_def t2_def)
  then have "sp_reachable 0 ?t0 (sp_next 5 3 0) t3 [0]"
    using step [of 0 t2 "[]" 0 _ "SpDone 5 3"] sp_swap [of 0 0 5 3] by (simp add: t1_def t2_def t3_def)
  then have "sp_reachable 0 ?t0 (sp_next 5 3 0) t4 [0]"
    using step [of "sp_next 5 3 0" t3 "[0]" 1 _ "SpLoaded 7 3 (sp_next 5 3 0)"]
      sp_retry [of "sp_next 5 3 0" 7 3 0] by (simp add: t1_def t2_def t3_def t4_def)
  then have r: "sp_reachable 0 ?t0 (sp_next 7 3 (sp_next 5 3 0)) t5 [0, 1]"
    using step [of "sp_next 5 3 0" t4 "[0]" 1 _ "SpDone 7 3"] sp_swap [of "sp_next 5 3 0" _ 7 3]
    by (simp add: t4_def t5_def)
  have "{i. sp_finished (t5 i)} = {0, 1}"
    by (auto simp: t1_def t2_def t3_def t4_def t5_def sp_finished_def)
  with spend_racing_loses_no_debit [OF r, of 3]
  have "unat (sp_current (sp_next 7 3 (sp_next 5 3 0)) 3) = 12"
    by (simp add: sp_current_def sp_spent_def)
  with r show ?thesis by blast
qed

text \<open>
  A late debit erases the period that has begun. The word holds one period only, and a
  debit whose period is not that of the word replaces it: after a debit that was stamped before
  midnight and lands after the first debit of the new day, the new day's spend reads as zero.
\<close>

theorem spend_straggler_erases_the_new_period:
  assumes "old AND PERIOD_MASK \<noteq> new AND PERIOD_MASK"
  shows "sp_current (sp_add (sp_add w spent new) late old) new = 0"
  using assms by (simp add: sp_add_def sp_current_other sp_next_period)

theorem spend_straggler_erases_the_new_period_witness:
  "sp_current (sp_add (sp_add 0 5000000 20000) 1 19999) 20000 = 0"
  by (rule spend_straggler_erases_the_new_period) (simp add: PERIOD_MASK_def)

section \<open>Generated keys\<close>

definition draws_below :: "(nat \<Rightarrow> nat \<Rightarrow> nat) \<Rightarrow> bool" where
  "draws_below draw \<longleftrightarrow> (\<forall>i n. 0 < n \<longrightarrow> draw i n < n)"

lemma hex_digits: "list_all (\<lambda>n. is_hexdigit (hex_digit n) \<and> hex_digit n \<noteq> CHR ''-''
    \<and> hex_digit n \<noteq> CHR ''+'' \<and> hex_value (hex_digit n) = n) [0..<16]"
  by code_simp

lemma hex_digit_facts:
  assumes "n < 16"
  shows "is_hexdigit (hex_digit n)" "hex_digit n \<noteq> CHR ''-''" "hex_digit n \<noteq> CHR ''+''"
    "hex_value (hex_digit n) = n"
  using hex_digits assms by (simp_all add: list_all_iff)

lemma generated_id:
  assumes "draws_below draw"
  shows "length (fst (generate draw)) = ID_LEN" "list_all is_hexdigit (fst (generate draw))"
    "CHR ''-'' \<notin> set (fst (generate draw))" "snd (generate draw) \<noteq> []"
proof -
  have draw: "draw i 16 < 16" for i using assms by (simp add: draws_below_def)
  show "length (fst (generate draw)) = ID_LEN" "snd (generate draw) \<noteq> []"
    by (simp_all add: generate_def generate_secret_def ID_LEN_def SECRET_LEN_def)
  show "list_all is_hexdigit (fst (generate draw))" "CHR ''-'' \<notin> set (fst (generate draw))"
    using hex_digit_facts(1,2) [OF draw] by (auto simp: generate_def list_all_iff) metis
qed

text \<open>The digest stored for a secret is read back as the digest of the secret.\<close>

lemma u8_from_hex_pair:
  assumes "n < 256"
  shows "u8_from_hex [hex_digit (n div 16), hex_digit (n mod 16)] = Some n"
proof -
  have "n div 16 < 16" "n mod 16 < 16" using assms by auto
  then show ?thesis using hex_digit_facts assms by (simp add: u8_from_hex_def)
qed

lemma byte_less [simp]: "byte c < 256"
  by (simp add: byte_def)

lemma char_of_byte [simp]: "char_of (byte c) = c"
  by (simp add: byte_def)

lemma decode_hex_rendered:
  "decode_hex (concat (map (\<lambda>c. [hex_digit (byte c div 16), hex_digit (byte c mod 16)]) bs)) = Some bs"
  by (induction bs) (simp_all add: u8_from_hex_pair)

lemma decode_hash_secret:
  assumes "hashes_like_blake3 digest to_hex"
  shows "decode_hash (hash_secret digest to_hex s) = Some (digest s)"
proof -
  have "length (concat (map (\<lambda>c. [hex_digit (byte c div 16), hex_digit (byte c mod 16)]) bs)) = 2 * length bs"
    for bs by (induction bs) simp_all
  with assms show ?thesis
    by (simp add: hashes_like_blake3_def decode_hash_def hash_secret_def decode_hex_rendered)
qed

section \<open>Building the table\<close>

lemma vk_new_fields [simp]: "vk_def (fst (vk_new def prev n store)) = def"
  "vk_hash (fst (vk_new def prev n store)) = decode_hash (vd_secret_hash def)"
  "vk_prev (fst (vk_new def prev n store)) =
     Option.bind (vd_prev_secret def) (\<lambda>p. map_option (\<lambda>h. (h, ps_valid_until_ms p)) (decode_hash (ps_secret_hash p)))"
  by (simp_all add: vk_new_def Let_def case_prod_beta)

lemma vk_new_store:
  "snd (vk_new def prev n store) = (case prev of None \<Rightarrow> store @ [0] | Some p \<Rightarrow> store)"
  "vk_spend (fst (vk_new def prev n store)) = (case prev of None \<Rightarrow> length store | Some p \<Rightarrow> vk_spend p)"
  by (simp_all add: vk_new_def Let_def case_prod_beta split: option.splits)

definition prev_runtime :: "vk_table option \<Rightarrow> string \<Rightarrow> vk_runtime option" where
  "prev_runtime prev key_id = Option.bind prev (\<lambda>t. vt_by_id t key_id)"

text \<open>What the loop has built from a prefix of the definitions with distinct ids.\<close>

lemma vk_insert_fold:
  assumes "distinct (map vd_id defs)"
  shows "\<exists>ext. snd (foldl (vk_insert prev n) (m, store) defs) = store @ ext
    \<and> (\<forall>def \<in> set defs. \<exists>rt store'. fst (foldl (vk_insert prev n) (m, store) defs) (vd_id def) = Some rt
         \<and> rt = fst (vk_new def (prev_runtime prev (vd_id def)) n store')
         \<and> length store \<le> length store')
    \<and> (\<forall>i. i \<notin> vd_id ` set defs \<longrightarrow> fst (foldl (vk_insert prev n) (m, store) defs) i = m i)"
  using assms
proof (induction defs arbitrary: m store)
  case Nil
  then show ?case by simp
next
  case (Cons def defs)
  let ?p = "prev_runtime prev (vd_id def)"
  let ?store1 = "snd (vk_new def ?p n store)"
  let ?m1 = "m(vd_id def \<mapsto> fst (vk_new def ?p n store))"
  have first: "vk_insert prev n (m, store) def = (?m1, ?store1)"
    by (simp add: vk_insert_def prev_runtime_def Let_def case_prod_beta)
  have tail: "distinct (map vd_id defs)" using Cons.prems by simp
  obtain ext where IH: "snd (foldl (vk_insert prev n) (?m1, ?store1) defs) = ?store1 @ ext"
    "\<forall>d \<in> set defs. \<exists>rt store'. fst (foldl (vk_insert prev n) (?m1, ?store1) defs) (vd_id d) = Some rt
         \<and> rt = fst (vk_new d (prev_runtime prev (vd_id d)) n store') \<and> length ?store1 \<le> length store'"
    "\<forall>i. i \<notin> vd_id ` set defs \<longrightarrow> fst (foldl (vk_insert prev n) (?m1, ?store1) defs) i = ?m1 i"
    using Cons.IH [OF tail, of ?m1 ?store1] by blast
  obtain grown where grown: "?store1 = store @ grown"
    by (cases ?p) (simp_all add: vk_new_store)
  have own: "fst (foldl (vk_insert prev n) (?m1, ?store1) defs) (vd_id def) = Some (fst (vk_new def ?p n store))"
    using IH(3) Cons.prems by simp
  have "\<exists>rt store'. fst (foldl (vk_insert prev n) (?m1, ?store1) defs) (vd_id d) = Some rt
         \<and> rt = fst (vk_new d (prev_runtime prev (vd_id d)) n store') \<and> length store \<le> length store'"
    if "d \<in> set (def # defs)" for d
    using that IH(2) own grown by fastforce
  moreover have "fst (foldl (vk_insert prev n) (?m1, ?store1) defs) i = m i"
    if "i \<notin> vd_id ` set (def # defs)" for i
    using that IH(3) by simp
  moreover have "snd (foldl (vk_insert prev n) (?m1, ?store1) defs) = store @ (grown @ ext)"
    using IH(1) grown by simp
  ultimately show ?case by (simp only: foldl_Cons first) blast
qed

lemma vk_build_by_id:
  "vt_by_id (fst (vk_build_with_shares defs prev n store))
     = fst (foldl (vk_insert prev n) (Map.empty, store) defs)"
  by (simp add: vk_build_with_shares_def case_prod_beta)

lemma vk_build_finds:
  assumes "distinct (map vd_id defs)" "def \<in> set defs"
  shows "\<exists>rt store'. vt_by_id (fst (vk_build_with_shares defs prev n store)) (vd_id def) = Some rt
    \<and> rt = fst (vk_new def (prev_runtime prev (vd_id def)) n store')"
  unfolding vk_build_by_id using vk_insert_fold [OF assms(1), of prev n Map.empty store] assms(2) by blast

lemma vk_build_only:
  assumes "distinct (map vd_id defs)"
    and "vt_by_id (fst (vk_build_with_shares defs prev n store)) i = Some rt"
  shows "\<exists>def \<in> set defs. vd_id def = i"
proof (rule ccontr)
  assume "\<not> ?thesis"
  then have "i \<notin> vd_id ` set defs" by blast
  then have "fst (foldl (vk_insert prev n) (Map.empty, store) defs) i = None"
    using vk_insert_fold [OF assms(1), of prev n Map.empty store] by blast
  with assms(2) show False by (simp add: vk_build_by_id)
qed

lemma vk_verify_Inr:
  "vk_verify digest table token now = Inr rt \<longleftrightarrow>
     (\<exists>i secret. parse_token token = Some (i, secret) \<and> vt_by_id table i = Some rt
        \<and> vk_verify_secret digest rt secret now \<and> vd_enabled (vk_def rt)
        \<and> (case vd_expires_ms (vk_def rt) of None \<Rightarrow> True | Some expiry \<Rightarrow> now < expiry))"
  by (auto simp: vk_verify_def not_le split: option.splits)

section \<open>Spend addresses\<close>

text \<open>Every runtime has an address in the store, and no two keys share one.\<close>

definition vk_spends_ok :: "(string \<rightharpoonup> vk_runtime) \<Rightarrow> spend_store \<Rightarrow> bool" where
  "vk_spends_ok by_id store \<longleftrightarrow>
     (\<forall>i rt. by_id i = Some rt \<longrightarrow> vk_spend rt < length store) \<and>
     (\<forall>i j a b. by_id i = Some a \<and> by_id j = Some b \<and> vk_spend a = vk_spend b \<longrightarrow> i = j)"

definition vk_spends_from ::
    "vk_table option \<Rightarrow> spend_store \<Rightarrow> (string \<rightharpoonup> vk_runtime) \<times> spend_store \<Rightarrow> bool" where
  "vk_spends_from prev store st \<longleftrightarrow>
     (\<exists>ext. snd st = store @ ext) \<and>
     (\<forall>i rt. fst st i = Some rt \<longrightarrow>
        (case prev_runtime prev i of
           Some p \<Rightarrow> vk_spend rt = vk_spend p
         | None \<Rightarrow> length store \<le> vk_spend rt \<and> vk_spend rt < length (snd st))) \<and>
     (\<forall>i j a b. fst st i = Some a \<and> fst st j = Some b \<and> prev_runtime prev i = None
        \<and> prev_runtime prev j = None \<and> vk_spend a = vk_spend b \<longrightarrow> i = j)"

lemma vk_insert_spends:
  assumes "vk_spends_from prev store st"
  shows "vk_spends_from prev store (vk_insert prev n st def)"
proof (cases "prev_runtime prev (vd_id def)")
  case None
  have st': "vk_insert prev n st def =
      ((fst st)(vd_id def \<mapsto> fst (vk_new def None n (snd st))), snd st @ [0])"
    using None by (simp add: vk_insert_def prev_runtime_def [symmetric] Let_def case_prod_beta vk_new_store)
  have spend: "vk_spend (fst (vk_new def None n (snd st))) = length (snd st)" by (simp add: vk_new_store)
  have old: "vk_spend rt < length (snd st)" if "fst st i = Some rt" "prev_runtime prev i = None" for i rt
    using that assms by (fastforce simp: vk_spends_from_def)
  show ?thesis
    unfolding vk_spends_from_def st' fst_conv snd_conv
  proof (intro conjI allI impI)
    show "\<exists>ext. snd st @ [0] = store @ ext" using assms by (auto simp: vk_spends_from_def)
  next
    fix i rt assume a: "((fst st)(vd_id def \<mapsto> fst (vk_new def None n (snd st)))) i = Some rt"
    show "case prev_runtime prev i of None \<Rightarrow> length store \<le> vk_spend rt \<and> vk_spend rt < length (snd st @ [0])
        | Some p \<Rightarrow> vk_spend rt = vk_spend p"
    proof (cases "i = vd_id def")
      case True
      with a None spend assms show ?thesis by (auto simp: vk_spends_from_def)
    next
      case False
      with a assms show ?thesis by (fastforce simp: vk_spends_from_def split: option.splits)
    qed
  next
    fix i j a b
    assume "((fst st)(vd_id def \<mapsto> fst (vk_new def None n (snd st)))) i = Some a
      \<and> ((fst st)(vd_id def \<mapsto> fst (vk_new def None n (snd st)))) j = Some b
      \<and> prev_runtime prev i = None \<and> prev_runtime prev j = None \<and> vk_spend a = vk_spend b"
    moreover have "i = j" if "fst st i = Some a" "fst st j = Some b" "prev_runtime prev i = None"
      "prev_runtime prev j = None" "vk_spend a = vk_spend b" for i j a b
      using assms that unfolding vk_spends_from_def by blast
    ultimately show "i = j" using old [of i a] old [of j b] spend by (fastforce split: if_splits)
  qed
next
  case (Some p)
  have st': "vk_insert prev n st def = ((fst st)(vd_id def \<mapsto> fst (vk_new def (Some p) n (snd st))), snd st)"
    using Some by (simp add: vk_insert_def prev_runtime_def [symmetric] Let_def case_prod_beta vk_new_store)
  have spend: "vk_spend (fst (vk_new def (Some p) n (snd st))) = vk_spend p" by (simp add: vk_new_store)
  show ?thesis
    using assms Some spend unfolding vk_spends_from_def st' fst_conv snd_conv
    by (auto split: option.splits)
qed

lemma vk_build_spends:
  "vk_spends_from prev store
     (vt_by_id (fst (vk_build_with_shares defs prev n store)), snd (vk_build_with_shares defs prev n store))"
proof -
  have "vk_spends_from prev store (foldl (vk_insert prev n) st defs)" if "vk_spends_from prev store st" for st
    using that by (induction defs arbitrary: st) (simp_all add: vk_insert_spends)
  moreover have "vk_spends_from prev store (Map.empty, store)" by (simp add: vk_spends_from_def)
  ultimately show ?thesis by (simp add: vk_build_with_shares_def case_prod_beta)
qed

section \<open>Properties of the table\<close>

text \<open>What it takes to be let in under a definition, by the documented order of enforcement.\<close>

definition vk_honours :: "(string \<Rightarrow> string) \<Rightarrow> virtual_key_def \<Rightarrow> string \<Rightarrow> u64 \<Rightarrow> bool" where
  "vk_honours digest def token now \<longleftrightarrow>
     (\<exists>secret. parse_token token = Some (vd_id def, secret) \<and>
        (decode_hash (vd_secret_hash def) = Some (digest secret) \<or>
         (\<exists>p. vd_prev_secret def = Some p \<and> now \<le> ps_valid_until_ms p
            \<and> decode_hash (ps_secret_hash p) = Some (digest secret)))) \<and>
     vd_enabled def \<and>
     (case vd_expires_ms def of None \<Rightarrow> True | Some expiry \<Rightarrow> now < expiry)"

lemma vk_verify_secret_new:
  "vk_verify_secret digest (fst (vk_new def prev n store)) secret now \<longleftrightarrow>
     decode_hash (vd_secret_hash def) = Some (digest secret) \<or>
     (\<exists>p. vd_prev_secret def = Some p \<and> now \<le> ps_valid_until_ms p
        \<and> decode_hash (ps_secret_hash p) = Some (digest secret))"
proof (cases "vd_prev_secret def")
  case None
  then show ?thesis by (auto simp: vk_verify_secret_def Let_def split: option.splits)
next
  case (Some p)
  then show ?thesis
    by (cases "decode_hash (ps_secret_hash p)")
      (auto simp: vk_verify_secret_def Let_def split: option.splits)
qed

lemma vk_verify_built:
  assumes "distinct (map vd_id defs)"
  shows "(\<exists>rt. vk_verify digest (fst (vk_build_with_shares defs prev n store)) token now = Inr rt \<and> vk_def rt = def)
    \<longleftrightarrow> def \<in> set defs \<and> vk_honours digest def token now"
proof -
  let ?table = "fst (vk_build_with_shares defs prev n store)"
  have accepted: "def \<in> set defs \<and> vk_honours digest def token now"
    if in_table: "vk_verify digest ?table token now = Inr rt" "vk_def rt = def" for rt
  proof -
    obtain i secret where parsed: "parse_token token = Some (i, secret)" and found: "vt_by_id ?table i = Some rt"
      and ok: "vk_verify_secret digest rt secret now" "vd_enabled def"
        "case vd_expires_ms def of None \<Rightarrow> True | Some expiry \<Rightarrow> now < expiry"
      using in_table unfolding vk_verify_Inr by blast
    obtain d where d: "d \<in> set defs" "vd_id d = i" using vk_build_only [OF assms found] by blast
    obtain store' where rt: "rt = fst (vk_new d (prev_runtime prev (vd_id d)) n store')"
      using vk_build_finds [OF assms d(1), of prev n store] found d(2) by auto
    then have "d = def" using in_table(2) by simp
    with parsed ok d rt show ?thesis by (auto simp: vk_honours_def vk_verify_secret_new)
  qed
  have "\<exists>rt. vk_verify digest ?table token now = Inr rt \<and> vk_def rt = def"
    if honoured: "def \<in> set defs" "vk_honours digest def token now"
  proof -
    obtain rt store' where found: "vt_by_id ?table (vd_id def) = Some rt"
      and rt: "rt = fst (vk_new def (prev_runtime prev (vd_id def)) n store')"
      using vk_build_finds [OF assms honoured(1), of prev n store] by blast
    obtain secret where "parse_token token = Some (vd_id def, secret)" "vk_verify_secret digest rt secret now"
      using honoured(2) unfolding rt vk_verify_secret_new vk_honours_def by blast
    then show ?thesis
      using found rt honoured(2) unfolding vk_verify_Inr vk_honours_def by fastforce
  qed
  with accepted show ?thesis by blast
qed

text \<open>
  Property C23: the table authenticates exactly what the definitions say. A token is accepted as the
  key of a definition iff that definition is in the table, the token carries its id and a secret
  whose digest is the stored one (or the previous one, within its grace window), and the key is
  enabled and not expired: whatever table and shares it was built from.
\<close>

theorem vk_authenticates_exactly:
  assumes "distinct (map vd_id defs)"
  shows "(\<exists>rt. vk_verify digest (fst (vk_build_with_shares defs prev n store)) token now = Inr rt \<and> vk_def rt = def)
    \<longleftrightarrow> def \<in> set defs \<and> vk_honours digest def token now"
  using assms by (rule vk_verify_built)

text \<open>
  Property C34: a generated key works. The definition stored for fresh key material, enabled and
  without expiry, lets in the token that was shown once, for any generator and any 32-byte hash.
\<close>

theorem vk_generated_key_authenticates:
  assumes "draws_below draw" and "hashes_like_blake3 digest to_hex"
    and "distinct (map vd_id defs)" and "def \<in> set defs"
    and "vd_id def = fst (generate draw)"
    and "vd_secret_hash def = hash_secret digest to_hex (snd (generate draw))"
    and "vd_enabled def" and "vd_expires_ms def = None"
  shows "\<exists>rt. vk_verify digest (fst (vk_build_with_shares defs prev n store))
           (generated_full (generate draw)) now = Inr rt \<and> vk_def rt = def"
proof -
  have "parse_token (generated_full (generate draw)) = Some (vd_id def, snd (generate draw))"
    using generated_id [OF assms(1)] assms(5)
      split_once_append [of "CHR ''-''" "fst (generate draw)" "snd (generate draw)"]
    by (simp add: parse_token_def generated_full_def case_prod_beta)
  then have "vk_honours digest def (generated_full (generate draw)) now"
    using assms(6-8) decode_hash_secret [OF assms(2)] by (simp add: vk_honours_def)
  then show ?thesis
    using vk_verify_built [OF assms(3)] assms(4) by blast
qed

text \<open>
  Property C24: a rebuild keeps the spend. After any change of definitions or of the fleet's size, a
  key that was in the table has the same spend word under the same address, so that debits of
  requests still running under the old table count; every other key starts at zero under an address
  of its own.
\<close>

theorem vk_rebuild_keeps_spend:
  assumes "distinct (map vd_id defs)" and "vk_spends_ok (vt_by_id prev) store"
    and "def \<in> set defs"
    and "vk_build_with_shares defs (Some prev) n store = (table, store')"
  shows "vk_spends_ok (vt_by_id table) store' \<and>
    (\<exists>rt. vt_by_id table (vd_id def) = Some rt \<and>
       (case vt_by_id prev (vd_id def) of
          Some p \<Rightarrow> vk_spend rt = vk_spend p \<and> store' ! vk_spend rt = store ! vk_spend p
        | None \<Rightarrow> length store \<le> vk_spend rt))"
proof -
  have spends: "vk_spends_from (Some prev) store (vt_by_id table, store')"
    using vk_build_spends [of "Some prev" store defs n] assms(4) by simp
  have prev: "prev_runtime (Some prev) i = vt_by_id prev i" for i by (simp add: prev_runtime_def)
  obtain ext where ext: "store' = store @ ext" using spends by (auto simp: vk_spends_from_def)
  have address: "case vt_by_id prev i of Some p \<Rightarrow> vk_spend rt = vk_spend p
      | None \<Rightarrow> length store \<le> vk_spend rt \<and> vk_spend rt < length store'"
    if "vt_by_id table i = Some rt" for i rt
    by (cases "vt_by_id prev i") (use spends that in \<open>fastforce simp: vk_spends_from_def prev\<close>)+
  have below: "vk_spend p < length store" if "vt_by_id prev i = Some p" for i p
    using assms(2) that by (auto simp: vk_spends_ok_def)
  have "vk_spends_ok (vt_by_id table) store'"
    unfolding vk_spends_ok_def
  proof (intro conjI allI impI)
    fix i rt assume "vt_by_id table i = Some rt"
    from address [OF this] show "vk_spend rt < length store'"
      using below ext by (fastforce split: option.splits)
  next
    fix i j a b
    assume *: "vt_by_id table i = Some a \<and> vt_by_id table j = Some b \<and> vk_spend a = vk_spend b"
    then have ai: "case vt_by_id prev i of Some p \<Rightarrow> vk_spend a = vk_spend p
        | None \<Rightarrow> length store \<le> vk_spend a \<and> vk_spend a < length store'"
      and aj: "case vt_by_id prev j of Some p \<Rightarrow> vk_spend b = vk_spend p
        | None \<Rightarrow> length store \<le> vk_spend b \<and> vk_spend b < length store'"
      using address by blast+
    show "i = j"
    proof (cases "vt_by_id prev i"; cases "vt_by_id prev j")
      assume "vt_by_id prev i = None" "vt_by_id prev j = None"
      with * spends show ?thesis by (simp add: vk_spends_from_def prev)
    next
      fix p assume "vt_by_id prev i = None" "vt_by_id prev j = Some p"
      with ai aj * below [of j p] show ?thesis by simp
    next
      fix p assume "vt_by_id prev i = Some p" "vt_by_id prev j = None"
      with ai aj * below [of i p] show ?thesis by simp
    next
      fix p q assume "vt_by_id prev i = Some p" "vt_by_id prev j = Some q"
      with ai aj * assms(2) show ?thesis unfolding vk_spends_ok_def by (metis option.simps(5))
    qed
  qed
  moreover obtain rt where "vt_by_id table (vd_id def) = Some rt"
    using vk_build_finds [OF assms(1,3), of "Some prev" n store] assms(4) by auto
  ultimately show ?thesis
    using address below ext by (auto simp: nth_append split: option.splits dest!: address)
qed

text \<open>The three at a concrete table: one key, a digest that keeps 32 bytes of the secret.\<close>

definition sample_digest :: "string \<Rightarrow> string" where
  "sample_digest s = take 32 (s @ replicate 32 CHR ''.'')"

definition sample_hex :: "string \<Rightarrow> string" where
  "sample_hex bs = concat (map (\<lambda>c. [hex_digit (byte c div 16), hex_digit (byte c mod 16)]) bs)"

definition sample_key :: "string \<Rightarrow> string \<Rightarrow> virtual_key_def" where
  "sample_key key_id secret =
     \<lparr>vd_id = key_id, vd_name = ''agent'', vd_secret_hash = hash_secret sample_digest sample_hex secret,
      vd_prev_secret = None, vd_models = [], vd_tenant = None, vd_budget = None, vd_rate = None,
      vd_expires_ms = None, vd_tags = Map.empty, vd_enabled = True, vd_created_ms = 0\<rparr>"

lemma sample_hashes: "hashes_like_blake3 sample_digest sample_hex"
  by (auto simp: hashes_like_blake3_def sample_digest_def sample_hex_def min_def)

theorem vk_authenticates_exactly_witness:
  "\<not> (\<exists>rt. vk_verify sample_digest (fst (vk_build [sample_key ''00ff00'' ''s''] None []))
        ''ck-00ff00-t'' 5 = Inr rt \<and> vk_def rt = sample_key ''00ff00'' ''s'')"
proof -
  have "parse_token ''ck-00ff00-t'' = Some (''00ff00'', ''t'')" by code_simp
  moreover have "sample_digest ''s'' \<noteq> sample_digest ''t''" by (simp add: sample_digest_def)
  ultimately have "\<not> vk_honours sample_digest (sample_key ''00ff00'' ''s'') ''ck-00ff00-t'' 5"
    using decode_hash_secret [OF sample_hashes]
    by (auto simp: vk_honours_def sample_key_def)
  then show ?thesis
    using vk_authenticates_exactly [of "[sample_key ''00ff00'' ''s'']"] by (simp add: vk_build_def)
qed

theorem vk_generated_key_authenticates_witness:
  "\<exists>rt. vk_verify sample_digest
      (fst (vk_build_with_shares [sample_key (fst (generate (\<lambda>i n. i mod n))) (snd (generate (\<lambda>i n. i mod n)))] None 1 []))
      (generated_full (generate (\<lambda>i n. i mod n))) 5 = Inr rt
    \<and> vk_def rt = sample_key (fst (generate (\<lambda>i n. i mod n))) (snd (generate (\<lambda>i n. i mod n)))"
  by (rule vk_generated_key_authenticates [OF _ sample_hashes])
    (simp_all add: draws_below_def sample_key_def)

theorem vk_rebuild_keeps_spend_witness:
  "\<exists>rt. vt_by_id (fst (vk_build_with_shares [sample_key ''00ff00'' ''t'']
        (Some (fst (vk_build [sample_key ''00ff00'' ''s''] None []))) 2 [42])) ''00ff00'' = Some rt
     \<and> vk_spend rt = 0"
proof -
  define prev where "prev = fst (vk_build [sample_key ''00ff00'' ''s''] None [])"
  have id: "vd_id (sample_key i s) = i" for i s by (simp add: sample_key_def)
  have prev: "\<exists>p. vt_by_id prev = [''00ff00'' \<mapsto> p] \<and> vk_spend p = 0"
    by (auto simp: prev_def vk_build_def vk_build_with_shares_def vk_insert_def case_prod_beta id vk_new_store)
  then have "vk_spends_ok (vt_by_id prev) [42]" by (auto simp: vk_spends_ok_def split: if_splits)
  from vk_rebuild_keeps_spend [OF _ this _ prod.collapse [symmetric], of "[sample_key ''00ff00'' ''t'']"
      "sample_key ''00ff00'' ''t''" 2]
  show ?thesis using prev by (auto simp: id prev_def)
qed

end
