(* ===== verification/Access_Grants.thy ===== *)
theory Access_Grants
  imports RR_Prelude
begin

text \<open>
  Console identities of \<open>crates/router-core/src/access.rs\<close>: users, teams, and the grant a member
  gets from the teams they belong to. Argon2 password hashing (the crate \<open>argon2\<close>) is a parameter.
\<close>

section \<open>Users and teams\<close>

datatype user_role = Admin | Member

record user_def =
  us_id :: string
  us_email :: string
  us_password_hash :: string
  us_role :: user_role
  us_created_ms :: u64

datatype team_access = ReadOnly | Keys | Full

text \<open>The derived order: weakest first.\<close>

instantiation team_access :: linorder
begin

fun team_rank :: "team_access \<Rightarrow> nat" where
  "team_rank ReadOnly = 0"
| "team_rank Keys = 1"
| "team_rank Full = 2"

definition less_eq_team_access :: "team_access \<Rightarrow> team_access \<Rightarrow> bool" where
  "a \<le> b \<longleftrightarrow> team_rank a \<le> team_rank b"

definition less_team_access :: "team_access \<Rightarrow> team_access \<Rightarrow> bool" where
  "a < b \<longleftrightarrow> team_rank a < team_rank b"

instance
proof
  fix a b c :: team_access
  show "a \<le> b \<Longrightarrow> b \<le> a \<Longrightarrow> a = b"
    by (cases a; cases b) (simp_all add: less_eq_team_access_def)
qed (auto simp: less_eq_team_access_def less_team_access_def)

end

lemma ReadOnly_least [simp]: "ReadOnly \<le> a"
  by (simp add: less_eq_team_access_def)

lemma Full_greatest [simp]: "a \<le> Full"
  by (cases a) (simp_all add: less_eq_team_access_def)

record team_def =
  tm_id :: string
  tm_name :: string
  tm_members :: "string set"
  tm_models :: "string set"
  tm_access :: team_access
  tm_created_ms :: u64

section \<open>Grants\<close>

record grant =
  gr_access :: team_access
  gr_models :: "string set option"
  gr_teams :: "string list"

definition grant_admin :: grant where
  "grant_admin = \<lparr>gr_access = Full, gr_models = None, gr_teams = []\<rparr>"

text \<open>One turn of the loop over the teams.\<close>

definition grant_team :: "string \<Rightarrow> grant \<Rightarrow> team_def \<Rightarrow> grant" where
  "grant_team user_id g team =
     (if user_id \<notin> tm_members team then g
      else \<lparr>gr_access = max (gr_access g) (tm_access team),
            gr_models =
              (case gr_models g of
                 None \<Rightarrow> None
               | Some models \<Rightarrow>
                   if tm_models team = {} then None else Some (models \<union> tm_models team)),
            gr_teams = gr_teams g @ [tm_id team]\<rparr>)"

definition grant_for_member :: "string \<Rightarrow> team_def list \<Rightarrow> grant" where
  "grant_for_member user_id teams =
     (let g = foldl (grant_team user_id)
                \<lparr>gr_access = ReadOnly, gr_models = Some {}, gr_teams = []\<rparr> teams
      in if gr_teams g = [] then g\<lparr>gr_models := Some {}\<rparr> else g)"

definition grant_allows_models :: "grant \<Rightarrow> string list \<Rightarrow> bool" where
  "grant_allows_models g requested =
     (case gr_models g of None \<Rightarrow> True | Some allowed \<Rightarrow> list_all (\<lambda>m. m \<in> allowed) requested)"

definition hash_password :: "(string \<Rightarrow> string + string) \<Rightarrow> string \<Rightarrow> string + string" where
  "hash_password argon2_hash password = argon2_hash password"

text \<open>\<open>argon2_parse\<close> reads a PHC string, \<open>argon2_verify\<close> checks a password against what was read.\<close>

definition verify_password ::
    "(string \<Rightarrow> 'phc option) \<Rightarrow> (string \<Rightarrow> 'phc \<Rightarrow> bool) \<Rightarrow> string \<Rightarrow> string \<Rightarrow> bool" where
  "verify_password argon2_parse argon2_verify password stored =
     (case argon2_parse stored of None \<Rightarrow> False | Some phc \<Rightarrow> argon2_verify password phc)"

section \<open>What a member is granted\<close>

definition teams_of :: "string \<Rightarrow> team_def list \<Rightarrow> team_def list" where
  "teams_of user_id teams = filter (\<lambda>team. user_id \<in> tm_members team) teams"

lemma foldl_grant_team:
  "foldl (grant_team user_id) g teams =
     \<lparr>gr_access = foldl max (gr_access g) (map tm_access (teams_of user_id teams)),
      gr_models =
        (if gr_models g = None \<or> (\<exists>team \<in> set (teams_of user_id teams). tm_models team = {}) then None
         else Some (the (gr_models g) \<union> \<Union> (tm_models ` set (teams_of user_id teams)))),
      gr_teams = gr_teams g @ map tm_id (teams_of user_id teams)\<rparr>"
proof (induction teams arbitrary: g)
  case Nil
  then show ?case by (cases g) (auto simp: teams_of_def)
next
  case (Cons team teams)
  show ?case
    by (simp only: foldl_Cons Cons.IH)
      (auto simp: grant_team_def teams_of_def split: option.splits)
qed

lemma grant_for_member_eq:
  "grant_for_member user_id teams =
     \<lparr>gr_access = foldl max ReadOnly (map tm_access (teams_of user_id teams)),
      gr_models =
        (if \<exists>team \<in> set (teams_of user_id teams). tm_models team = {} then None
         else Some (\<Union> (tm_models ` set (teams_of user_id teams)))),
      gr_teams = map tm_id (teams_of user_id teams)\<rparr>"
  by (simp add: grant_for_member_def foldl_grant_team Let_def)

lemma foldl_max_le_iff: "(a :: 'a :: linorder) \<le> foldl max b xs \<longleftrightarrow> a \<le> b \<or> (\<exists>x \<in> set xs. a \<le> x)"
  by (induction xs arbitrary: b) (auto simp: le_max_iff_disj)

lemma grant_access_iff:
  "a \<le> gr_access (grant_for_member user_id teams) \<longleftrightarrow>
     a = ReadOnly \<or> (\<exists>team \<in> set teams. user_id \<in> tm_members team \<and> a \<le> tm_access team)"
proof -
  have "a \<le> ReadOnly \<longleftrightarrow> a = ReadOnly" by (cases a) (simp_all add: less_eq_team_access_def)
  then show ?thesis by (auto simp: grant_for_member_eq foldl_max_le_iff teams_of_def)
qed

section \<open>Properties\<close>

text \<open>
  Property C36: a member's grant is exactly what their teams give, in any order. An access level is
  granted iff it is read-only or some team of theirs gives at least that much; a list of models is
  allowed iff it is empty, or some team of theirs is unrestricted, or each model is listed by one of
  their teams. So a user in no team may read and route to nothing.
\<close>

theorem grant_is_the_union_of_teams:
  "(a \<le> gr_access (grant_for_member user_id teams) \<longleftrightarrow>
      a = ReadOnly \<or> (\<exists>team \<in> set teams. user_id \<in> tm_members team \<and> a \<le> tm_access team))
   \<and> (grant_allows_models (grant_for_member user_id teams) requested \<longleftrightarrow>
      (\<exists>team \<in> set teams. user_id \<in> tm_members team \<and> tm_models team = {})
      \<or> set requested \<subseteq> \<Union> (tm_models ` {team \<in> set teams. user_id \<in> tm_members team}))"
proof (rule conjI [OF grant_access_iff])
  show "grant_allows_models (grant_for_member user_id teams) requested \<longleftrightarrow>
      (\<exists>team \<in> set teams. user_id \<in> tm_members team \<and> tm_models team = {})
      \<or> set requested \<subseteq> \<Union> (tm_models ` {team \<in> set teams. user_id \<in> tm_members team})"
    by (auto simp: grant_allows_models_def grant_for_member_eq teams_of_def list_all_iff)
qed

end
