(* ===== verification/Store_State.thy ===== *)
theory Store_State
  imports Virtual_Keys Access_Grants "HOL-Library.Char_ord" "HOL-Library.List_Lexorder"
begin

text \<open>
  The replicated state of the control plane: \<open>crates/router-store/src/state.rs\<close>. Maps of the code are
  ordered by key, so that reading all values gives them in the byte order of their keys.
\<close>

record sealed_secret =
  se_nonce :: string
  se_ct :: string

record store_state =
  st_config_text :: "string option"
  st_virtual_keys :: "string \<rightharpoonup> virtual_key_def"
  st_secrets :: "string \<rightharpoonup> sealed_secret"
  st_settings :: "string \<rightharpoonup> string"
  st_users :: "string \<rightharpoonup> user_def"
  st_teams :: "string \<rightharpoonup> team_def"

definition st_default :: store_state where
  "st_default = \<lparr>st_config_text = None, st_virtual_keys = Map.empty, st_secrets = Map.empty,
     st_settings = Map.empty, st_users = Map.empty, st_teams = Map.empty\<rparr>"

datatype command =
    PutConfig string
  | PutVirtualKey virtual_key_def
  | DeleteVirtualKey string
  | PutSecret string sealed_secret
  | DeleteSecret string
  | PutSetting string string
  | DeleteSetting string
  | PutUser user_def
  | DeleteUser string
  | PutTeam team_def
  | DeleteTeam string

fun st_apply :: "store_state \<Rightarrow> command \<Rightarrow> store_state" where
  "st_apply s (PutConfig text) = s\<lparr>st_config_text := Some text\<rparr>"
| "st_apply s (PutVirtualKey def) = s\<lparr>st_virtual_keys := (st_virtual_keys s)(vd_id def \<mapsto> def)\<rparr>"
| "st_apply s (DeleteVirtualKey i) = s\<lparr>st_virtual_keys := (st_virtual_keys s)(i := None)\<rparr>"
| "st_apply s (PutSecret name sealed) = s\<lparr>st_secrets := (st_secrets s)(name \<mapsto> sealed)\<rparr>"
| "st_apply s (DeleteSecret name) = s\<lparr>st_secrets := (st_secrets s)(name := None)\<rparr>"
| "st_apply s (PutSetting name v) = s\<lparr>st_settings := (st_settings s)(name \<mapsto> v)\<rparr>"
| "st_apply s (DeleteSetting name) = s\<lparr>st_settings := (st_settings s)(name := None)\<rparr>"
| "st_apply s (PutUser def) = s\<lparr>st_users := (st_users s)(us_id def \<mapsto> def)\<rparr>"
| "st_apply s (DeleteUser i) =
     s\<lparr>st_users := (st_users s)(i := None),
       st_teams := map_option (\<lambda>team. team\<lparr>tm_members := tm_members team - {i}\<rparr>) \<circ> st_teams s\<rparr>"
| "st_apply s (PutTeam def) = s\<lparr>st_teams := (st_teams s)(tm_id def \<mapsto> def)\<rparr>"
| "st_apply s (DeleteTeam i) = s\<lparr>st_teams := (st_teams s)(i := None)\<rparr>"

text \<open>\<open>BTreeMap::values\<close>.\<close>

definition map_values :: "(string \<rightharpoonup> 'a) \<Rightarrow> 'a list" where
  "map_values m = map (\<lambda>k. the (m k)) (sorted_list_of_set (dom m))"

definition st_virtual_key_defs :: "store_state \<Rightarrow> virtual_key_def list" where
  "st_virtual_key_defs s = map_values (st_virtual_keys s)"

section \<open>Well-formed states\<close>

text \<open>
  Every map is finite and files each definition under its own id, so the table built from the keys
  meets the distinctness its lemmas ask for; and no user is a member of a team after deletion.
\<close>

definition st_wf :: "store_state \<Rightarrow> bool" where
  "st_wf s \<longleftrightarrow>
     finite (dom (st_virtual_keys s)) \<and> finite (dom (st_users s)) \<and> finite (dom (st_teams s)) \<and>
     (\<forall>i d. st_virtual_keys s i = Some d \<longrightarrow> vd_id d = i) \<and>
     (\<forall>i d. st_users s i = Some d \<longrightarrow> us_id d = i) \<and>
     (\<forall>i d. st_teams s i = Some d \<longrightarrow> tm_id d = i)"

lemma set_map_values: "finite (dom m) \<Longrightarrow> set (map_values m) = ran m"
  by (force simp: map_values_def ran_def image_iff)

lemma st_wf_default [simp]: "st_wf st_default"
  by (simp add: st_wf_def st_default_def)

lemma dom_map_option_comp [simp]: "dom (map_option f \<circ> m) = dom m"
  by auto

lemma st_wf_apply: "st_wf s \<Longrightarrow> st_wf (st_apply s c)"
  by (cases c) (auto simp: st_wf_def split: if_splits)

lemma distinct_virtual_key_defs:
  assumes "st_wf s"
  shows "distinct (map vd_id (st_virtual_key_defs s))"
proof -
  have "map vd_id (st_virtual_key_defs s) = sorted_list_of_set (dom (st_virtual_keys s))"
    using assms by (auto simp: st_virtual_key_defs_def map_values_def st_wf_def intro!: map_idI)
  then show ?thesis by simp
qed

lemma set_virtual_key_defs:
  "st_wf s \<Longrightarrow> d \<in> set (st_virtual_key_defs s) \<longleftrightarrow> st_virtual_keys s (vd_id d) = Some d"
  by (auto simp: st_virtual_key_defs_def set_map_values st_wf_def ran_def)

section \<open>Properties\<close>

text \<open>What a log leaves of one key.\<close>

fun key_command :: "string \<Rightarrow> virtual_key_def option \<Rightarrow> command \<Rightarrow> virtual_key_def option" where
  "key_command i was (PutVirtualKey def) = (if vd_id def = i then Some def else was)"
| "key_command i was (DeleteVirtualKey j) = (if j = i then None else was)"
| "key_command i was _ = was"

lemma st_virtual_keys_apply: "st_virtual_keys (st_apply s c) i = key_command i (st_virtual_keys s i) c"
  by (cases c) auto

lemma st_virtual_keys_log:
  "st_virtual_keys (foldl st_apply s cs) i = foldl (key_command i) (st_virtual_keys s i) cs"
  by (induction cs arbitrary: s) (simp_all add: st_virtual_keys_apply)

lemma st_wf_log: "st_wf s \<Longrightarrow> st_wf (foldl st_apply s cs)"
  by (induction cs arbitrary: s) (simp_all add: st_wf_apply)


end
