(* ===== verification/Control_Plane.thy ===== *)
theory Control_Plane
  imports Store_State
begin

text \<open>
  The control plane of \<open>crates/router-store\<close>: the backend interface (\<open>backend/mod.rs\<close>), the node's
  store with its compare-and-swap loop (\<open>lib.rs\<close>), and the in-memory and file backends. The code of a
  document (\<open>serde_json\<close>) and the file system's failures are parameters kept in the file backend's state.
\<close>

section \<open>Snapshots and errors\<close>

record snapshot =
  sn_state :: store_state
  sn_version :: u64
  sn_token :: "string option"

definition sn_empty :: snapshot where
  "sn_empty = \<lparr>sn_state = st_default, sn_version = 0, sn_token = None\<rparr>"

datatype cp_error = Conflict u64 u64 | Unavailable string | Fault string | Unsupported string

definition version_token :: "u64 \<Rightarrow> string option" where
  "version_token version = (if version > 0 then Some (decimal (unat version)) else None)"

section \<open>Heartbeats\<close>

record node_beat =
  nb_id :: string
  nb_addr :: string
  nb_seen_ms :: u64

definition nb_age :: "node_beat \<Rightarrow> u64 \<Rightarrow> u64" where
  "nb_age beat now_ms = u64_saturating_sub now_ms (nb_seen_ms beat)"

text \<open>One turn of the loop of \<open>live_within\<close>.\<close>

definition live_beat :: "u64 \<Rightarrow> u64 \<Rightarrow> (string \<rightharpoonup> node_beat) \<Rightarrow> node_beat \<Rightarrow> (string \<rightharpoonup> node_beat)" where
  "live_beat window now_ms by_id beat =
     (if nb_age beat now_ms > window then by_id
      else case by_id (nb_id beat) of
        Some kept \<Rightarrow>
          by_id(nb_id beat \<mapsto> (if nb_seen_ms beat > nb_seen_ms kept then beat else kept))
      | None \<Rightarrow> by_id(nb_id beat \<mapsto> beat))"

definition live_within :: "node_beat list \<Rightarrow> u64 \<Rightarrow> u64 \<Rightarrow> node_beat list" where
  "live_within beats window now_ms =
     map_values (foldl (live_beat window now_ms) Map.empty beats)"

section \<open>The node's store, over any backend\<close>

text \<open>\<open>refresh\<close>: the cache afterwards, and the version when it moved.\<close>

definition store_refresh ::
    "('b \<Rightarrow> cp_error + snapshot) \<Rightarrow> 'b \<Rightarrow> snapshot \<Rightarrow> snapshot \<times> (cp_error + u64 option)" where
  "store_refresh load b cached =
     (case load b of
        Inl e \<Rightarrow> (cached, Inl e)
      | Inr fetched \<Rightarrow>
          if sn_version fetched = sn_version cached then (cached, Inr None)
          else (fetched, Inr (Some (sn_version fetched))))"

text \<open>
  One turn of the loop of \<open>commit\<close>: the backend and the cache afterwards, and the answer, \<open>None\<close> when
  the turn lost a race and the loop goes round.
\<close>

definition store_attempt ::
    "('b \<Rightarrow> cp_error + snapshot) \<Rightarrow> ('b \<Rightarrow> snapshot \<Rightarrow> store_state \<Rightarrow> 'b \<times> (cp_error + snapshot)) \<Rightarrow>
       'b \<Rightarrow> snapshot \<Rightarrow> u64 option \<Rightarrow> command \<Rightarrow> 'b \<times> snapshot \<times> (cp_error + u64) option" where
  "store_attempt load commit b cached expect command =
     (case expect of
        Some expected \<Rightarrow>
          if expected \<noteq> sn_version cached
          then (b, cached, Some (Inl (Conflict expected (sn_version cached))))
          else (case commit b cached (st_apply (sn_state cached) command) of
                  (b, Inr s) \<Rightarrow> (b, s, Some (Inr (sn_version s)))
                | (b, Inl (Conflict _ actual)) \<Rightarrow>
                    (b, fst (store_refresh load b cached), Some (Inl (Conflict expected actual)))
                | (b, Inl e) \<Rightarrow> (b, cached, Some (Inl e)))
      | None \<Rightarrow>
          (case commit b cached (st_apply (sn_state cached) command) of
             (b, Inr s) \<Rightarrow> (b, s, Some (Inr (sn_version s)))
           | (b, Inl (Conflict _ actual)) \<Rightarrow> (b, fst (store_refresh load b cached), None)
           | (b, Inl e) \<Rightarrow> (b, cached, Some (Inl e))))"

definition COMMIT_ATTEMPTS :: nat where "COMMIT_ATTEMPTS = 5"

text \<open>
  The loop with \<open>left\<close> attempts to go. \<open>rivals left\<close> is whatever other nodes do to the backend before
  that attempt reaches it.
\<close>

fun store_commit_loop ::
    "('b \<Rightarrow> cp_error + snapshot) \<Rightarrow> ('b \<Rightarrow> snapshot \<Rightarrow> store_state \<Rightarrow> 'b \<times> (cp_error + snapshot)) \<Rightarrow>
       (nat \<Rightarrow> 'b \<Rightarrow> 'b) \<Rightarrow> nat \<Rightarrow> 'b \<Rightarrow> snapshot \<Rightarrow> u64 option \<Rightarrow> command \<Rightarrow>
       'b \<times> snapshot \<times> (cp_error + u64)" where
  "store_commit_loop load commit rivals 0 b cached expect command =
     (b, cached, Inl (Unavailable (''gave up after '' @ decimal COMMIT_ATTEMPTS
       @ '' attempts: the store is being written faster than this node can keep up'')))"
| "store_commit_loop load commit rivals (Suc left) b cached expect command =
     (case store_attempt load commit (rivals left b) cached expect command of
        (b, cached, Some answer) \<Rightarrow> (b, cached, answer)
      | (b, cached, None) \<Rightarrow> store_commit_loop load commit rivals left b cached expect command)"

definition store_commit ::
    "('b \<Rightarrow> cp_error + snapshot) \<Rightarrow> ('b \<Rightarrow> snapshot \<Rightarrow> store_state \<Rightarrow> 'b \<times> (cp_error + snapshot)) \<Rightarrow>
       (nat \<Rightarrow> 'b \<Rightarrow> 'b) \<Rightarrow> 'b \<Rightarrow> snapshot \<Rightarrow> u64 option \<Rightarrow> command \<Rightarrow>
       'b \<times> snapshot \<times> (cp_error + u64)" where
  "store_commit load commit rivals = store_commit_loop load commit rivals COMMIT_ATTEMPTS"

lemma store_commit_turns:
  "store_commit load commit rivals
     = store_commit_loop load commit rivals (Suc (Suc (Suc (Suc (Suc 0)))))"
  by (simp add: store_commit_def COMMIT_ATTEMPTS_def eval_nat_numeral)

definition store_live :: "node_beat list \<Rightarrow> nat" where
  "store_live peers = max (length peers) 1"

section \<open>A fleet\<close>

text \<open>
  Any number of nodes over one backend. An event is one node's refresh or one turn of its commit
  loop; the turns of different nodes interleave as they like. The run also returns the commands that
  were accepted, in order.
\<close>

datatype fleet_event = Refresh nat | Attempt nat "u64 option" command

definition fleet_step ::
    "('b \<Rightarrow> cp_error + snapshot) \<Rightarrow> ('b \<Rightarrow> snapshot \<Rightarrow> store_state \<Rightarrow> 'b \<times> (cp_error + snapshot)) \<Rightarrow>
       'b \<times> (nat \<Rightarrow> snapshot) \<times> command list \<Rightarrow> fleet_event \<Rightarrow> 'b \<times> (nat \<Rightarrow> snapshot) \<times> command list" where
  "fleet_step load commit st ev =
     (let (b, caches, accepted) = st in
      case ev of
        Refresh i \<Rightarrow> (b, caches(i := fst (store_refresh load b (caches i))), accepted)
      | Attempt i expect command \<Rightarrow>
          (let (b, cached, answer) = store_attempt load commit b (caches i) expect command in
           (b, caches(i := cached),
            (case answer of Some (Inr _) \<Rightarrow> accepted @ [command] | _ \<Rightarrow> accepted))))"

definition fleet_run ::
    "('b \<Rightarrow> cp_error + snapshot) \<Rightarrow> ('b \<Rightarrow> snapshot \<Rightarrow> store_state \<Rightarrow> 'b \<times> (cp_error + snapshot)) \<Rightarrow>
       'b \<times> (nat \<Rightarrow> snapshot) \<times> command list \<Rightarrow> fleet_event list \<Rightarrow> 'b \<times> (nat \<Rightarrow> snapshot) \<times> command list" where
  "fleet_run load commit = foldl (fleet_step load commit)"

text \<open>A snapshot some prefix of the accepted commands built, with its version.\<close>

definition cached_from :: "store_state \<Rightarrow> u64 \<Rightarrow> command list \<Rightarrow> snapshot \<Rightarrow> bool" where
  "cached_from s0 v0 accepted s \<longleftrightarrow>
     (\<exists>k \<le> length accepted. sn_state s = foldl st_apply s0 (take k accepted) \<and> sn_version s = v0 + of_nat k)"

lemma cached_from_current:
  "(sn_state s, sn_version s) = (foldl st_apply s0 accepted, v0 + of_nat (length accepted)) \<Longrightarrow>
     cached_from s0 v0 accepted s"
  by (auto simp: cached_from_def intro!: exI [of _ "length accepted"])

lemma take_prefix_append: "k \<le> length xs \<Longrightarrow> take k (xs @ ys) = take k xs"
  by simp

lemma cached_from_mono: "cached_from s0 v0 accepted s \<Longrightarrow> cached_from s0 v0 (accepted @ cs) s"
  unfolding cached_from_def by (metis le_add1 length_append order_trans take_prefix_append)

lemma of_nat_u64_inject: "k < 2 ^ 64 \<Longrightarrow> n < 2 ^ 64 \<Longrightarrow> (of_nat k :: u64) = of_nat n \<Longrightarrow> k = n"
  by (simp add: word_of_nat_eq_iff take_bit_nat_eq_self)

lemma cached_from_latest:
  assumes "cached_from s0 v0 accepted s" "sn_version s = v0 + of_nat (length accepted)"
    and "length accepted < 2 ^ 64"
  shows "sn_state s = foldl st_apply s0 accepted"
proof -
  obtain k where k: "k \<le> length accepted" "sn_state s = foldl st_apply s0 (take k accepted)"
    "sn_version s = v0 + of_nat k" using assms(1) by (auto simp: cached_from_def)
  then have "k = length accepted"
    using assms(2,3) of_nat_u64_inject [of k "length accepted"] by simp
  with k show ?thesis by simp
qed

lemma attempt_refreshes:
  "store_attempt load commit b cached expect command = (b', cached', None) \<Longrightarrow>
     cached' = cached \<or> load b' = Inr cached'"
  by (auto simp: store_attempt_def store_refresh_def split: option.splits if_splits prod.splits
      sum.splits cp_error.splits)

section \<open>The contract of a backend\<close>

text \<open>
  \<open>contents\<close> is the document the backend holds. A backend promises that loading returns it, that a
  commit succeeds only on the version it was based on and then leaves exactly the new state one
  version up, and that a failed commit leaves the document alone.
\<close>

locale control_plane =
  fixes ok :: "'b \<Rightarrow> bool"
    and contents :: "'b \<Rightarrow> store_state \<times> u64"
    and load :: "'b \<Rightarrow> cp_error + snapshot"
    and commit :: "'b \<Rightarrow> snapshot \<Rightarrow> store_state \<Rightarrow> 'b \<times> (cp_error + snapshot)"
  assumes load_contents: "ok b \<Longrightarrow> load b = Inr s \<Longrightarrow> (sn_state s, sn_version s) = contents b"
    and commit_ok: "ok b \<Longrightarrow> commit b base next = (b', r) \<Longrightarrow> ok b'"
    and commit_accepts: "ok b \<Longrightarrow> commit b base next = (b', Inr s) \<Longrightarrow>
          snd (contents b) = sn_version base \<and> contents b' = (next, sn_version base + 1)
          \<and> sn_state s = next \<and> sn_version s = sn_version base + 1"
    and commit_refuses: "ok b \<Longrightarrow> commit b base next = (b', Inl e) \<Longrightarrow> contents b' = contents b"
    and commit_conflict: "ok b \<Longrightarrow> commit b base next = (b', Inl (Conflict x y)) \<Longrightarrow>
          snd (contents b) \<noteq> sn_version base \<and> x = sn_version base \<and> y = snd (contents b)"
begin

lemma refresh_cache:
  "ok b \<Longrightarrow> fst (store_refresh load b cached) = cached
     \<or> (sn_state (fst (store_refresh load b cached)), sn_version (fst (store_refresh load b cached))) = contents b"
  using load_contents by (auto simp: store_refresh_def split: sum.splits)

text \<open>What one turn does: it accepts on the version of the cache, or leaves the document alone.\<close>

lemma attempt_cases:
  assumes "ok b" "store_attempt load commit b cached expect command = (b', cached', answer)"
  shows "ok b' \<and>
    (case answer of
       Some (Inr v) \<Rightarrow>
         snd (contents b) = sn_version cached \<and> (\<forall>e. expect = Some e \<longrightarrow> e = sn_version cached)
         \<and> contents b' = (st_apply (sn_state cached) command, sn_version cached + 1) \<and> v = sn_version cached + 1
         \<and> (sn_state cached', sn_version cached') = contents b'
     | Some (Inl e) \<Rightarrow>
         contents b' = contents b
         \<and> (cached' = cached \<or> (sn_state cached', sn_version cached') = contents b')
     | None \<Rightarrow>
         expect = None \<and> contents b' = contents b \<and> snd (contents b) \<noteq> sn_version cached
         \<and> (cached' = cached \<or> (sn_state cached', sn_version cached') = contents b'))"
proof (cases "\<exists>e. expect = Some e \<and> e \<noteq> sn_version cached")
  case True
  with assms show ?thesis by (auto simp: store_attempt_def)
next
  case False
  obtain b'' r where c: "commit b cached (st_apply (sn_state cached) command) = (b'', r)"
    by fastforce
  show ?thesis
  proof (cases r)
    case (Inr s)
    with commit_accepts [OF assms(1), of cached _ b'' s] c False assms(2) commit_ok [OF assms(1) c]
    show ?thesis by (auto simp: store_attempt_def split: option.splits)
  next
    case (Inl e)
    then have same: "contents b'' = contents b" using commit_refuses assms(1) c by blast
    show ?thesis
    proof (cases e)
      case (Conflict x y)
      then show ?thesis
        using refresh_cache [OF commit_ok [OF assms(1) c], of cached] same c Inl False assms(2)
          commit_ok [OF assms(1) c] commit_conflict [OF assms(1) c [unfolded Inl Conflict]]
        by (auto simp: store_attempt_def split: option.splits)
    qed (use same c Inl False assms(2) commit_ok [OF assms(1) c] in
        \<open>auto simp: store_attempt_def split: option.splits\<close>)
  qed
qed

text \<open>
  The document is what the accepted commands built, in order, one version each; every node's cache is
  some earlier document with its version.
\<close>

lemma fleet_step_builds:
  assumes "ok b" and "contents b = (foldl st_apply s0 accepted, v0 + of_nat (length accepted))"
    and "\<forall>i. cached_from s0 v0 accepted (caches i)"
    and "fleet_step load commit (b, caches, accepted) ev = (b', caches', accepted')"
    and "length accepted < 2 ^ 64"
  shows "ok b' \<and> contents b' = (foldl st_apply s0 accepted', v0 + of_nat (length accepted'))
    \<and> (\<forall>i. cached_from s0 v0 accepted' (caches' i)) \<and> length accepted' \<le> Suc (length accepted)"
proof (cases ev)
  case (Refresh i)
  then show ?thesis
    using assms(1-4) refresh_cache [OF assms(1), of "caches i"] cached_from_current [of _ s0 accepted v0]
    by (auto simp: fleet_step_def)
next
  case (Attempt i expect command)
  obtain cached answer where a: "store_attempt load commit b (caches i) expect command = (b', cached, answer)"
    and upd: "caches' = caches(i := cached)"
    and acc: "accepted' = (case answer of Some (Inr v) \<Rightarrow> accepted @ [command] | _ \<Rightarrow> accepted)"
    using assms(4) Attempt by (auto simp: fleet_step_def split: prod.splits)
  note cases = attempt_cases [OF assms(1) a]
  consider (won) v where "answer = Some (Inr v)" | (lost) "accepted' = accepted" "contents b' = contents b"
      "cached = caches i \<or> (sn_state cached, sn_version cached) = contents b'"
    using cases acc by (cases answer rule: option.exhaust) (auto split: sum.splits)
  then show ?thesis
  proof cases
    case won
    with cases assms(2) have "sn_version (caches i) = v0 + of_nat (length accepted)"
      and b': "contents b' = (st_apply (sn_state (caches i)) command, sn_version (caches i) + 1)"
      and c': "(sn_state cached, sn_version cached) = contents b'" by simp_all
    moreover have "sn_state (caches i) = foldl st_apply s0 accepted"
      using cached_from_latest [OF spec [OF assms(3)] calculation(1) assms(5)] .
    ultimately have new: "contents b' = (foldl st_apply s0 (accepted @ [command]),
        v0 + of_nat (length (accepted @ [command])))" by (simp add: add.assoc add.commute)
    have acc': "accepted' = accepted @ [command]" using acc won by simp
    have "cached_from s0 v0 accepted' cached"
      using cached_from_current [of cached s0 accepted' v0] c' new acc' by simp
    moreover have "cached_from s0 v0 accepted' (caches j)" for j
      using cached_from_mono assms(3) acc' by blast
    ultimately show ?thesis using cases new acc' upd by simp
  next
    case lost
    then show ?thesis
      using cases assms(2,3) upd cached_from_current [of cached s0 accepted v0] by auto
  qed
qed

lemma fleet_run_builds:
  assumes "ok b" and "contents b = (foldl st_apply s0 accepted, v0 + of_nat (length accepted))"
    and "\<forall>i. cached_from s0 v0 accepted (caches i)"
    and "fleet_run load commit (b, caches, accepted) evs = (b', caches', accepted')"
    and "length accepted + length evs < 2 ^ 64"
  shows "ok b' \<and> contents b' = (foldl st_apply s0 accepted', v0 + of_nat (length accepted'))
    \<and> (\<forall>i. cached_from s0 v0 accepted' (caches' i))"
  using assms
proof (induction evs arbitrary: b caches accepted)
  case Nil
  then show ?case by (simp add: fleet_run_def)
next
  case (Cons ev evs)
  obtain b1 caches1 accepted1 where step: "fleet_step load commit (b, caches, accepted) ev = (b1, caches1, accepted1)"
    by (cases "fleet_step load commit (b, caches, accepted) ev") auto
  have "fleet_run load commit (b1, caches1, accepted1) evs = (b', caches', accepted')"
    using Cons.prems(4) step by (simp add: fleet_run_def)
  moreover have "length accepted < 2 ^ 64" using Cons.prems(5) by simp
  ultimately show ?case
    using fleet_step_builds [OF Cons.prems(1-3) step] Cons.IH [of b1 accepted1 caches1] Cons.prems(5) by simp
qed

lemma no_update_is_lost:
  assumes "ok b" and "\<forall>i. (sn_state (caches i), sn_version (caches i)) = contents b"
    and "fleet_run load commit (b, caches, []) evs = (b', caches', accepted)" and "length evs < 2 ^ 64"
  shows "contents b' = (foldl st_apply (fst (contents b)) accepted, snd (contents b) + of_nat (length accepted))"
  using fleet_run_builds [OF assms(1) _ _ assms(3), of "fst (contents b)" "snd (contents b)"] assms(2,4)
    cached_from_current [of _ "fst (contents b)" "[]" "snd (contents b)"] by (simp add: prod_eq_iff)

text \<open>An answer of the whole commit, with rivals that keep the backend sound.\<close>

lemma commit_answer:
  assumes "ok b" "\<And>n b. ok b \<Longrightarrow> ok (rivals n b)"
    and "store_commit_loop load commit rivals n b cached expect command = (b', cached', Inr v)"
    and "(sn_state cached, sn_version cached) \<in> seen"
    and "\<And>b s. ok b \<Longrightarrow> load b = Inr s \<Longrightarrow> (sn_state s, sn_version s) \<in> seen"
  shows "\<exists>base w. (base, w) \<in> seen \<and> contents b' = (st_apply base command, w + 1) \<and> v = w + 1
    \<and> (\<forall>e. expect = Some e \<longrightarrow> e = w)"
  using assms(1,3,4)
proof (induction n arbitrary: b cached)
  case 0
  then show ?case by simp
next
  case (Suc n)
  obtain b1 cached1 answer where a:
    "store_attempt load commit (rivals n b) cached expect command = (b1, cached1, answer)"
    by (cases "store_attempt load commit (rivals n b) cached expect command") auto
  note cases = attempt_cases [OF assms(2) [OF Suc.prems(1)] a]
  show ?case
  proof (cases answer)
    case (Some r)
    with Suc.prems(2) a have "answer = Some (Inr v)" "b1 = b'" by simp_all
    with cases Suc.prems(3) show ?thesis by fastforce
  next
    case None
    have "(sn_state cached1, sn_version cached1) \<in> seen"
      using a None Suc.prems(3) attempt_refreshes [OF a [unfolded None]] assms(5) cases None
      by auto
    moreover have "store_commit_loop load commit rivals n b1 cached1 expect command = (b', cached', Inr v)"
      using Suc.prems(2) a None by simp
    ultimately show ?thesis using Suc.IH [of b1 cached1] cases None by simp
  qed
qed

end

end
