(* ===== verification/Backends.thy ===== *)
theory Backends
  imports Control_Plane
begin

text \<open>
  The in-memory and file backends of \<open>crates/router-store/src/backend\<close> as providers of the
  control-plane contract, and the heartbeats of a fleet. The S3 and DynamoDB backends are calls of the
  AWS SDK and are not modelled.
\<close>

section \<open>The in-memory backend\<close>

record memory_store =
  mem_state :: store_state
  mem_version :: u64
  mem_beats :: "string \<rightharpoonup> node_beat"

definition mem_default :: memory_store where
  "mem_default = \<lparr>mem_state = st_default, mem_version = 0, mem_beats = Map.empty\<rparr>"

definition mem_load :: "memory_store \<Rightarrow> cp_error + snapshot" where
  "mem_load b =
     Inr \<lparr>sn_state = mem_state b, sn_version = mem_version b, sn_token = version_token (mem_version b)\<rparr>"

definition mem_commit :: "memory_store \<Rightarrow> snapshot \<Rightarrow> store_state \<Rightarrow> memory_store \<times> (cp_error + snapshot)" where
  "mem_commit b base next =
     (if mem_version b \<noteq> sn_version base
      then (b, Inl (Conflict (sn_version base) (mem_version b)))
      else
        let b = b\<lparr>mem_version := mem_version b + 1, mem_state := next\<rparr> in
        (b, Inr \<lparr>sn_state = next, sn_version = mem_version b, sn_token = version_token (mem_version b)\<rparr>))"

definition mem_heartbeat :: "memory_store \<Rightarrow> node_beat \<Rightarrow> memory_store" where
  "mem_heartbeat b beat = b\<lparr>mem_beats := (mem_beats b)(nb_id beat \<mapsto> beat)\<rparr>"

text \<open>The order in which a hash map yields its values is immaterial here: \<open>live_within\<close> sorts.\<close>

definition mem_peers :: "memory_store \<Rightarrow> u64 \<Rightarrow> u64 \<Rightarrow> node_beat list" where
  "mem_peers b window now_ms = live_within (map_values (mem_beats b)) window now_ms"

definition mem_depart :: "memory_store \<Rightarrow> string \<Rightarrow> memory_store" where
  "mem_depart b i = b\<lparr>mem_beats := (mem_beats b)(i := None)\<rparr>"

interpretation mem: control_plane "\<lambda>b. True" "\<lambda>b. (mem_state b, mem_version b)" mem_load mem_commit
  by unfold_locales (auto simp: mem_load_def mem_commit_def Let_def split: if_splits)

section \<open>The file backend\<close>

record document =
  do_format :: u32
  do_version :: u64
  do_state :: store_state

definition FORMAT :: u32 where "FORMAT = 1"

text \<open>
  What the code relies on outside itself: the JSON codec of documents, and the file system, which may
  fail at each call with a message; a failed write says what it left in the file.
\<close>

record file_env =
  fe_to_vec :: "document \<Rightarrow> string + string"
  fe_from_slice :: "string \<Rightarrow> string + document"
  fe_read_fails :: "string option"
  fe_mkdir_fails :: "string option"
  fe_write_fails :: "(string \<times> string) option"
  fe_rename_fails :: "string option"

text \<open>The document file, the temporary file, the heartbeat files with their modification times.\<close>

record file_store =
  fl_env :: file_env
  fl_doc :: "string option"
  fl_tmp :: "string option"
  fl_nodes :: "string \<rightharpoonup> u64"

definition cp_unavailable :: "string \<Rightarrow> string \<Rightarrow> cp_error" where
  "cp_unavailable context err = Unavailable (context @ '': '' @ err)"

definition cp_fault :: "string \<Rightarrow> string \<Rightarrow> cp_error" where
  "cp_fault context err = Fault (context @ '': '' @ err)"

definition document_encode :: "file_env \<Rightarrow> u64 \<Rightarrow> store_state \<Rightarrow> cp_error + string" where
  "document_encode env version state =
     (case fe_to_vec env \<lparr>do_format = FORMAT, do_version = version, do_state = state\<rparr> of
        Inl e \<Rightarrow> Inl (cp_fault ''encoding the control-plane document'' e)
      | Inr bytes \<Rightarrow> Inr bytes)"

definition document_decode :: "file_env \<Rightarrow> string \<Rightarrow> cp_error + (store_state \<times> u64)" where
  "document_decode env bytes =
     (case fe_from_slice env bytes of
        Inl e \<Rightarrow> Inl (cp_fault ''parsing the control-plane document'' e)
      | Inr doc \<Rightarrow>
          if do_format doc \<noteq> FORMAT
          then Inl (Fault (''control-plane document is format '' @ decimal (unat (do_format doc))
                 @ '', this build understands '' @ decimal (unat FORMAT)))
          else Inr (do_state doc, do_version doc))"

definition file_read_document :: "file_store \<Rightarrow> cp_error + (store_state \<times> u64)" where
  "file_read_document f =
     (case fe_read_fails (fl_env f) of
        Some e \<Rightarrow> Inl (cp_unavailable ''reading the store file'' e)
      | None \<Rightarrow>
          (case fl_doc f of
             None \<Rightarrow> Inr (st_default, 0)
           | Some bytes \<Rightarrow> document_decode (fl_env f) bytes))"

definition file_load :: "file_store \<Rightarrow> cp_error + snapshot" where
  "file_load f =
     (case file_read_document f of
        Inl e \<Rightarrow> Inl e
      | Inr (state, version) \<Rightarrow>
          Inr \<lparr>sn_state = state, sn_version = version, sn_token = version_token version\<rparr>)"

definition file_commit :: "file_store \<Rightarrow> snapshot \<Rightarrow> store_state \<Rightarrow> file_store \<times> (cp_error + snapshot)" where
  "file_commit f base next =
     (case file_read_document f of
        Inl e \<Rightarrow> (f, Inl e)
      | Inr (_, current) \<Rightarrow>
          if current \<noteq> sn_version base then (f, Inl (Conflict (sn_version base) current))
          else
            let version = current + 1 in
            (case document_encode (fl_env f) version next of
               Inl e \<Rightarrow> (f, Inl e)
             | Inr bytes \<Rightarrow>
                 (case fe_mkdir_fails (fl_env f) of
                    Some e \<Rightarrow> (f, Inl (cp_unavailable ''creating the store directory'' e))
                  | None \<Rightarrow>
                      (case fe_write_fails (fl_env f) of
                         Some (e, partial) \<Rightarrow>
                           (f\<lparr>fl_tmp := Some partial\<rparr>, Inl (cp_unavailable ''writing the store file'' e))
                       | None \<Rightarrow>
                           (case fe_rename_fails (fl_env f) of
                              Some e \<Rightarrow>
                                (f\<lparr>fl_tmp := Some bytes\<rparr>, Inl (cp_unavailable ''replacing the store file'' e))
                            | None \<Rightarrow>
                                (f\<lparr>fl_doc := Some bytes, fl_tmp := None\<rparr>,
                                 Inr \<lparr>sn_state = next, sn_version = version,
                                      sn_token = Some (decimal (unat version))\<rparr>))))))"

text \<open>The codec reads back what it wrote.\<close>

definition file_ok :: "file_store \<Rightarrow> bool" where
  "file_ok f \<longleftrightarrow>
     (\<forall>doc bytes. fe_to_vec (fl_env f) doc = Inr bytes \<longrightarrow> fe_from_slice (fl_env f) bytes = Inr doc)"

text \<open>The document on disk; what cannot be read stands for the empty one.\<close>

definition file_contents :: "file_store \<Rightarrow> store_state \<times> u64" where
  "file_contents f =
     (case fl_doc f of
        None \<Rightarrow> (st_default, 0)
      | Some bytes \<Rightarrow>
          (case document_decode (fl_env f) bytes of Inr c \<Rightarrow> c | Inl e \<Rightarrow> (st_default, 0)))"

lemma file_read_contents: "file_read_document f = Inr c \<Longrightarrow> file_contents f = c"
  by (auto simp: file_read_document_def file_contents_def split: option.splits)

lemma document_round_trip:
  assumes "file_ok f" "document_encode (fl_env f) version state = Inr bytes"
  shows "document_decode (fl_env f) bytes = Inr (state, version)"
  using assms by (auto simp: file_ok_def document_encode_def document_decode_def split: sum.splits)

lemma file_commit_cases:
  assumes "file_commit f base next = (f', r)"
  obtains (refused) e where "r = Inl e" "fl_doc f' = fl_doc f" "fl_env f' = fl_env f"
      "\<And>x y. e = Conflict x y \<Longrightarrow> snd (file_contents f) \<noteq> sn_version base \<and> x = sn_version base \<and> y = snd (file_contents f)"
  | (written) state bytes where "file_read_document f = Inr (state, sn_version base)"
      "document_encode (fl_env f) (sn_version base + 1) next = Inr bytes"
      "f' = f\<lparr>fl_doc := Some bytes, fl_tmp := None\<rparr>"
      "r = Inr \<lparr>sn_state = next, sn_version = sn_version base + 1,
                sn_token = Some (decimal (unat (sn_version base + 1)))\<rparr>"
proof (cases "file_read_document f")
  case (Inl e)
  moreover have "\<not> (\<exists>x y. e = Conflict x y)"
    using Inl by (auto simp: file_read_document_def document_decode_def cp_unavailable_def cp_fault_def
        split: option.splits sum.splits if_splits)
  ultimately show ?thesis using assms refused by (auto simp: file_commit_def)
next
  case (Inr c)
  obtain state current where c: "c = (state, current)" by fastforce
  show ?thesis
  proof (cases "current = sn_version base")
    case False
    then show ?thesis
      using assms Inr c refused file_read_contents [OF Inr] by (auto simp: file_commit_def)
  next
    case True
    show ?thesis
    proof (cases "document_encode (fl_env f) (sn_version base + 1) next")
      case (Inl e)
      then have "\<not> (\<exists>x y. e = Conflict x y)"
        by (auto simp: document_encode_def cp_fault_def split: sum.splits)
      then show ?thesis using assms Inr c True Inl refused by (auto simp: file_commit_def)
    next
      case encoded: (Inr bytes)
      then show ?thesis
        using assms Inr c True refused written
        by (auto simp: file_commit_def Let_def cp_unavailable_def split: option.splits)
    qed
  qed
qed

interpretation fs: control_plane file_ok file_contents file_load file_commit
proof
  fix b s assume "file_load b = Inr s"
  then show "(sn_state s, sn_version s) = file_contents b"
    using file_read_contents by (fastforce simp: file_load_def split: sum.splits)
next
  fix b base "next" b' r assume b: "file_ok b" and c: "file_commit b base next = (b', r)"
  from c show "file_ok b'" by (cases rule: file_commit_cases) (use b in \<open>auto simp: file_ok_def\<close>)
next
  fix b base "next" b' s assume b: "file_ok b" and c: "file_commit b base next = (b', Inr s)"
  from c show "snd (file_contents b) = sn_version base \<and> file_contents b' = (next, sn_version base + 1)
      \<and> sn_state s = next \<and> sn_version s = sn_version base + 1"
  proof (cases rule: file_commit_cases)
    case (written state bytes)
    then show ?thesis
      using document_round_trip [OF b written(2)] file_read_contents [OF written(1)]
      by (simp add: file_contents_def)
  qed simp
next
  fix b base "next" b' e assume "file_commit b base next = (b', Inl e)"
  then show "file_contents b' = file_contents b"
  proof (cases rule: file_commit_cases)
    case (refused e)
    from refused(2,3) show ?thesis by (simp add: file_contents_def split: option.split)
  qed simp
next
  fix b base "next" b' x y assume "file_commit b base next = (b', Inl (Conflict x y))"
  then show "snd (file_contents b) \<noteq> sn_version base \<and> x = sn_version base \<and> y = snd (file_contents b)"
    by (cases rule: file_commit_cases) auto
qed

section \<open>Heartbeat files\<close>

text \<open>\<open>encode\<close> and \<open>decode\<close> are the URL-safe base64 of the crate \<open>base64\<close>.\<close>

definition beat_name :: "(string \<Rightarrow> string) \<Rightarrow> string \<Rightarrow> string \<Rightarrow> string" where
  "beat_name encode node_id addr = node_id @ ''.'' @ encode addr"

definition parse_beat_name :: "(string \<Rightarrow> string option) \<Rightarrow> string \<Rightarrow> (string \<times> string) option" where
  "parse_beat_name decode name =
     (case split_once CHR ''.'' name of
        None \<Rightarrow> None
      | Some (node_id, encoded) \<Rightarrow>
          (case decode encoded of
             None \<Rightarrow> None
           | Some addr \<Rightarrow> if utf8_valid addr then Some (node_id, addr) else None))"

definition file_heartbeat ::
    "(string \<Rightarrow> string) \<Rightarrow> u64 \<Rightarrow> file_store \<Rightarrow> node_beat \<Rightarrow> file_store \<times> (cp_error + unit)" where
  "file_heartbeat encode now_ms f beat =
     (case fe_mkdir_fails (fl_env f) of
        Some e \<Rightarrow> (f, Inl (cp_unavailable ''creating the heartbeat directory'' e))
      | None \<Rightarrow>
          (case fe_write_fails (fl_env f) of
             Some (e, _) \<Rightarrow> (f, Inl (cp_unavailable ''writing a heartbeat'' e))
           | None \<Rightarrow>
               (f\<lparr>fl_nodes := (fl_nodes f)(beat_name encode (nb_id beat) (nb_addr beat) \<mapsto> now_ms)\<rparr>, Inr ())))"

definition file_beat :: "(string \<Rightarrow> string option) \<Rightarrow> file_store \<Rightarrow> string \<Rightarrow> node_beat option" where
  "file_beat decode f name =
     (case parse_beat_name decode name of
        Some (node_id, addr) \<Rightarrow>
          Some \<lparr>nb_id = node_id, nb_addr = addr,
                nb_seen_ms = (case fl_nodes f name of Some mtime \<Rightarrow> mtime | None \<Rightarrow> 0)\<rparr>
      | None \<Rightarrow> None)"

text \<open>\<open>entries\<close> is the listing of the directory, in whatever order the system gives it.\<close>

definition file_peers ::
    "(string \<Rightarrow> string option) \<Rightarrow> file_store \<Rightarrow> string list \<Rightarrow> u64 \<Rightarrow> u64 \<Rightarrow> node_beat list" where
  "file_peers decode f entries window now_ms =
     live_within (List.map_filter (file_beat decode f) entries) window now_ms"

definition file_depart :: "file_store \<Rightarrow> string \<Rightarrow> file_store" where
  "file_depart f node_id =
     f\<lparr>fl_nodes := (\<lambda>name. if starts_with (node_id @ ''.'') name then None else fl_nodes f name)\<rparr>"

text \<open>The newest sighting of each node within the window.\<close>

definition newest :: "node_beat list \<Rightarrow> u64 \<Rightarrow> u64 \<Rightarrow> string \<Rightarrow> node_beat option \<Rightarrow> bool" where
  "newest beats window now_ms i r \<longleftrightarrow>
     (case r of
        None \<Rightarrow> \<not> (\<exists>beat \<in> set beats. nb_id beat = i \<and> nb_age beat now_ms \<le> window)
      | Some kept \<Rightarrow>
          kept \<in> set beats \<and> nb_id kept = i \<and> nb_age kept now_ms \<le> window \<and>
          (\<forall>beat \<in> set beats. nb_id beat = i \<and> nb_age beat now_ms \<le> window
             \<longrightarrow> nb_seen_ms beat \<le> nb_seen_ms kept))"

lemma live_beats_newest:
  "newest beats window now_ms i (foldl (live_beat window now_ms) Map.empty beats i)
   \<and> finite (dom (foldl (live_beat window now_ms) Map.empty beats))"
proof (induction beats rule: rev_induct)
  case Nil
  then show ?case by (simp add: newest_def)
next
  case (snoc beat beats)
  define m where "m = foldl (live_beat window now_ms) Map.empty beats"
  have IH: "newest beats window now_ms i (m i)" "finite (dom m)" using snoc by (simp_all add: m_def)
  have fin: "finite (dom (live_beat window now_ms m beat))"
    using IH(2) by (simp add: live_beat_def split: option.splits)
  have "newest (beats @ [beat]) window now_ms i (live_beat window now_ms m beat i)"
  proof (cases "nb_age beat now_ms \<le> window \<and> nb_id beat = i")
    case False
    then have "live_beat window now_ms m beat i = m i"
      by (auto simp: live_beat_def split: option.splits)
    with False IH(1) show ?thesis by (auto simp: newest_def split: option.splits)
  next
    case True
    show ?thesis
    proof (cases "m i")
      case None
      with True IH(1) show ?thesis by (auto simp: newest_def live_beat_def)
    next
      case (Some kept)
      with True IH(1) show ?thesis
        by (auto simp: newest_def live_beat_def not_less intro: order_trans less_imp_le)
    qed
  qed
  with fin show ?case by (simp add: m_def)
qed

lemma map_values_distinct:
  assumes "finite (dom m)" "\<And>k v. m k = Some v \<Longrightarrow> key v = k"
  shows "map key (map_values m) = sorted_list_of_set (dom m)"
  using assms by (auto simp: map_values_def intro!: map_idI)

section \<open>Properties\<close>

text \<open>
  Property C20: nodes that share a memory store lose no update. Any number of nodes refresh and commit
  in any interleaving, from caches as stale as they may be; the document is always the accepted
  commands applied in order to the one they started from, and its version counts them.
\<close>

theorem memory_fleet_loses_no_update:
  assumes "\<forall>i. (sn_state (caches i), sn_version (caches i)) = (mem_state b, mem_version b)"
    and "fleet_run mem_load mem_commit (b, caches, []) evs = (b', caches', accepted)"
    and "length evs < 2 ^ 64"
  shows "mem_state b' = foldl st_apply (mem_state b) accepted
    \<and> mem_version b' = mem_version b + of_nat (length accepted)"
  using mem.no_update_is_lost [OF _ assms] by simp

text \<open>Two nodes write over the same base: the second loses its turn, refreshes, and its next turn lands.\<close>

theorem memory_fleet_loses_no_update_witness:
  "case fleet_run mem_load mem_commit (mem_default, (\<lambda>i. sn_empty), [])
       [Attempt 0 None (PutSetting ''a'' ''1''), Attempt 1 None (PutSetting ''b'' ''2''),
        Attempt 1 None (PutSetting ''b'' ''2'')] of
     (b', caches', accepted) \<Rightarrow>
       accepted = [PutSetting ''a'' ''1'', PutSetting ''b'' ''2'']
       \<and> mem_state b' = foldl st_apply st_default accepted \<and> mem_version b' = 2"
proof -
  obtain b' caches' accepted where run: "fleet_run mem_load mem_commit (mem_default, (\<lambda>i. sn_empty), [])
       [Attempt 0 None (PutSetting ''a'' ''1''), Attempt 1 None (PutSetting ''b'' ''2''),
        Attempt 1 None (PutSetting ''b'' ''2'')] = (b', caches', accepted)"
    by (rule prod_cases3)
  have acc: "accepted = [PutSetting ''a'' ''1'', PutSetting ''b'' ''2'']"
    using run by (auto simp: fleet_run_def fleet_step_def store_attempt_def mem_commit_def mem_default_def
        sn_empty_def store_refresh_def mem_load_def Let_def)
  have "mem_state b' = foldl st_apply (mem_state mem_default) accepted
      \<and> mem_version b' = mem_version mem_default + of_nat (length accepted)"
    by (rule memory_fleet_loses_no_update [OF _ run]) (simp_all add: sn_empty_def mem_default_def)
  with run acc show ?thesis by (simp add: mem_default_def)
qed


definition sample_env :: file_env where
  "sample_env = \<lparr>fe_to_vec = (\<lambda>doc. if do_version doc = 1 \<and> do_format doc = FORMAT
                     \<and> do_state doc = st_apply st_default (PutConfig ''x'') then Inr ''doc'' else Inl ''full''),
     fe_from_slice = (\<lambda>bytes. Inr \<lparr>do_format = FORMAT, do_version = 1,
                     do_state = st_apply st_default (PutConfig ''x'')\<rparr>),
     fe_read_fails = None, fe_mkdir_fails = None, fe_write_fails = None, fe_rename_fails = None\<rparr>"

definition sample_file :: file_store where
  "sample_file = \<lparr>fl_env = sample_env, fl_doc = None, fl_tmp = None, fl_nodes = Map.empty\<rparr>"

lemma sample_file_ok: "file_ok sample_file"
  by (auto simp: file_ok_def sample_file_def sample_env_def split: if_splits)

lemma sample_file_empty: "file_contents sample_file = (st_default, 0)"
  by (simp add: file_contents_def sample_file_def)


text \<open>
  Property C26: an edit made against a version that is gone is refused. A commit that names the version
  the operator saw fails when the document on disk is at another one, and changes nothing; one that
  succeeds has moved the document from that version to the next.
\<close>

theorem stale_edit_is_refused:
  assumes "file_ok f" and "store_commit file_load file_commit (\<lambda>_ f. f) f cached (Some seen) command = (f', cached', r)"
  shows "(case r of
      Inr v \<Rightarrow> snd (file_contents f) = seen \<and> v = seen + 1
        \<and> file_contents f' = (st_apply (sn_state cached) command, seen + 1)
    | Inl e \<Rightarrow> file_contents f' = file_contents f)"
proof -
  obtain f1 cached1 answer where a: "store_attempt file_load file_commit f cached (Some seen) command = (f1, cached1, answer)"
    by (rule prod_cases3)
  note cases = fs.attempt_cases [OF assms(1) a]
  then obtain r' where r': "answer = Some r'" by (cases answer) auto
  with a assms(2) have "r' = r" "f1 = f'" by (simp_all add: store_commit_turns)
  with cases r' show ?thesis by (auto split: sum.splits)
qed

theorem stale_edit_is_refused_witness:
  "file_contents (fst (store_commit file_load file_commit (\<lambda>_ f. f) sample_file sn_empty (Some 3) (PutConfig ''x'')))
     = (st_default, 0)"
proof -
  obtain f' cached' r where c: "store_commit file_load file_commit (\<lambda>_ f. f) sample_file sn_empty (Some 3) (PutConfig ''x'')
      = (f', cached', r)" by (rule prod_cases3)
  then have "\<exists>e. r = Inl e"
    by (auto simp: store_commit_turns store_attempt_def sn_empty_def)
  with stale_edit_is_refused [OF sample_file_ok c] c show ?thesis by (auto simp: sample_file_empty)
qed



text \<open>
  The live members are exactly the nodes seen within the window. The list holds one beat
  for each node that has one no older than the window, the newest of them, in the order of the ids;
  a beat from the future counts as fresh.
\<close>

theorem live_within_exactly:
  "sorted (map nb_id (live_within beats window now_ms)) \<and> distinct (map nb_id (live_within beats window now_ms))
   \<and> (\<forall>i. newest beats window now_ms i (find (\<lambda>beat. nb_id beat = i) (live_within beats window now_ms)))"
proof -
  let ?m = "foldl (live_beat window now_ms) Map.empty beats"
  have new: "newest beats window now_ms i (?m i)" and fin: "finite (dom ?m)" for i
    using live_beats_newest by blast+
  have key: "nb_id v = k" if "?m k = Some v" for k v using new [of k] that by (simp add: newest_def)
  have ids: "map nb_id (live_within beats window now_ms) = sorted_list_of_set (dom ?m)"
    unfolding live_within_def by (rule map_values_distinct [OF fin key])
  have "find (\<lambda>beat. nb_id beat = i) (live_within beats window now_ms) = ?m i" for i
  proof (cases "?m i")
    case None
    then have "i \<notin> set (map nb_id (live_within beats window now_ms))" using fin ids by auto
    with None show ?thesis by (force simp: find_None_iff)
  next
    case (Some v)
    then have "v \<in> set (live_within beats window now_ms)" "nb_id v = i"
      using fin key by (auto simp: live_within_def set_map_values ran_def)
    then obtain w where w: "find (\<lambda>beat. nb_id beat = i) (live_within beats window now_ms) = Some w"
      by (cases "find (\<lambda>beat. nb_id beat = i) (live_within beats window now_ms)") (auto simp: find_None_iff)
    then have "nb_id w = i" "w \<in> set (live_within beats window now_ms)"
      by (auto simp: find_Some_iff)
    then have "?m i = Some w" using fin key by (auto simp: live_within_def set_map_values ran_def)
    with w show ?thesis by simp
  qed
  with new ids show ?thesis by simp
qed

text \<open>
  A departing node takes exactly its own heartbeats. For a node id without a dot, every
  heartbeat file that names the node goes and every other heartbeat file stays.
\<close>

theorem departing_removes_own_beats:
  assumes "CHR ''.'' \<notin> set node_id" and "parse_beat_name decode name = Some (owner, addr)"
  shows "fl_nodes (file_depart f node_id) name = (if owner = node_id then None else fl_nodes f name)"
proof -
  obtain encoded where "split_once CHR ''.'' name = Some (owner, encoded)"
    using assms(2) by (auto simp: parse_beat_name_def split: option.splits if_splits)
  then have name: "name = owner @ CHR ''.'' # encoded" "CHR ''.'' \<notin> set owner"
    by (simp_all add: split_once_Some)
  have "starts_with (node_id @ ''.'') name \<longleftrightarrow> owner = node_id"
  proof
    assume "starts_with (node_id @ ''.'') name"
    then obtain r where "name = node_id @ CHR ''.'' # r" by (auto simp: starts_with_append)
    then have "split_once CHR ''.'' name = Some (node_id, r)" using assms(1) by simp
    then show "owner = node_id" using name by simp
  qed (auto simp: name starts_with_append)
  then show ?thesis by (simp add: file_depart_def)
qed

theorem departing_removes_own_beats_witness:
  "fl_nodes (file_depart (sample_file\<lparr>fl_nodes := [''n1.aa'' \<mapsto> 5, ''n10.aa'' \<mapsto> 6]\<rparr>) ''n1'') ''n10.aa'' = Some 6"
  using departing_removes_own_beats [of "''n1''" Some "''n10.aa''" "''n10''" "''aa''"
      "sample_file\<lparr>fl_nodes := [''n1.aa'' \<mapsto> 5, ''n10.aa'' \<mapsto> 6]\<rparr>"]
  by (simp add: parse_beat_name_def)

end
