(* ===== verification/Config_Model.thy ===== *)
theory Config_Model
  imports Virtual_Keys
begin

text \<open>
  The resolved configuration of \<open>crates/router-core/src/config/mod.rs\<close>. Maps whose order the program
  walks are association lists in key order; maps it only looks into are partial functions. Durations
  are milliseconds or seconds, as the field says; a secret is the string it exposes.
\<close>

datatype provider_kind =
    OpenAi | Anthropic | Gemini | Azure | Bedrock | Vertex | OpenAiCompat
  | ClaudeSubscription | CodexSubscription

definition is_subscription :: "provider_kind \<Rightarrow> bool" where
  "is_subscription kind \<longleftrightarrow> kind = ClaudeSubscription \<or> kind = CodexSubscription"

datatype auth_mode = AuthKey | AuthNone

record target_model =
  tg_provider :: string
  tg_model :: string

definition tg_parse :: "string \<Rightarrow> target_model option" where
  "tg_parse s =
     (case split_once CHR ''/'' s of
        None \<Rightarrow> None
      | Some (provider, model) \<Rightarrow>
          if provider = [] \<or> model = [] then None
          else Some \<lparr>tg_provider = provider, tg_model = model\<rparr>)"

definition tg_display :: "target_model \<Rightarrow> string" where
  "tg_display t = tg_provider t @ ''/'' @ tg_model t"

record weighted_target =
  wt_target :: target_model
  wt_weight :: f64

record routing_group =
  rg_primary :: "weighted_target list"
  rg_fallback :: "weighted_target list"

definition rg_targets :: "routing_group \<Rightarrow> target_model list" where
  "rg_targets g = map wt_target (rg_primary g @ rg_fallback g)"

datatype retry_on = ConnectError | Status429 | Status5xx

record retries =
  re_max_attempts :: u32
  re_on :: "retry_on list"

record breaker_settings =
  bs_failure_threshold :: u32
  bs_window_ms :: u64
  bs_cooldown_ms :: u64

record reliability =
  rl_breaker :: breaker_settings
  rl_retries :: retries

record azure_settings =
  az_endpoint :: string
  az_api_version :: string
  az_deployments :: "(string \<times> string) list"

record bedrock_settings =
  bk_region :: string
  bk_access_key_id :: string

record vertex_settings =
  vx_project :: string
  vx_location :: string

record codex_settings =
  cx_version :: string
  cx_reasoning_effort :: "string option"
  cx_verbosity :: "string option"
  cx_pdf_dpi :: u32
  cx_pdf_max_pages :: nat

definition codex_default :: codex_settings where
  "codex_default = \<lparr>cx_version = ''0.146.0'', cx_reasoning_effort = Some ''low'',
     cx_verbosity = Some ''low'', cx_pdf_dpi = 150, cx_pdf_max_pages = 50\<rparr>"

record api_key =
  ak_name :: string
  ak_secret :: string
  ak_weight :: f64
  ak_models :: "string list option"
  ak_tenant :: "string option"
  ak_rpm :: "u64 option"
  ak_tpm :: "u64 option"
  ak_max_concurrency :: "u32 option"
  ak_source_path :: "string option"

record provider =
  pv_kind :: provider_kind
  pv_base_url :: "string option"
  pv_auth :: auth_mode
  pv_keys :: "api_key list"
  pv_max_concurrency :: nat
  pv_timeout_secs :: u64
  pv_azure :: "azure_settings option"
  pv_bedrock :: "bedrock_settings option"
  pv_vertex :: "vertex_settings option"
  pv_codex :: "codex_settings option"

record static_key =
  sk_secret :: string
  sk_tenant :: "string option"

record server_config =
  sv_host :: string
  sv_port :: nat
  sv_max_body_size :: u64
  sv_auth_keys :: "static_key list"
  sv_require_auth :: bool
  sv_drain_timeout_secs :: u64

record console_config =
  cn_admin_keys :: "string list"
  cn_session_ttl_secs :: u64

definition console_enabled :: "console_config \<Rightarrow> bool" where
  "console_enabled c \<longleftrightarrow> cn_admin_keys c \<noteq> []"

record store_config =
  sc_backend :: string
  sc_bucket :: "string option"
  sc_prefix :: "string option"
  sc_table :: "string option"
  sc_region :: "string option"
  sc_endpoint :: "string option"
  sc_refresh_interval_secs :: u64
  sc_heartbeat_interval_secs :: u64
  sc_liveness_window_secs :: u64

definition store_config_default :: store_config where
  "store_config_default =
     \<lparr>sc_backend = ''file'', sc_bucket = None, sc_prefix = None, sc_table = None, sc_region = None,
      sc_endpoint = None, sc_refresh_interval_secs = 3, sc_heartbeat_interval_secs = 5,
      sc_liveness_window_secs = 15\<rparr>"

definition store_is_shared :: "store_config \<Rightarrow> bool" where
  "store_is_shared c \<longleftrightarrow> sc_backend c = ''s3'' \<or> sc_backend c = ''dynamodb''"

datatype body_capture = CaptureOff | CaptureErrors | CaptureAll

definition capture_parse :: "string \<Rightarrow> body_capture option" where
  "capture_parse s =
     (if s \<in> {''off'', ''none'', ''false''} then Some CaptureOff
      else if s = ''errors'' then Some CaptureErrors
      else if s \<in> {''all'', ''true''} then Some CaptureAll
      else None)"

definition capture_as_str :: "body_capture \<Rightarrow> string" where
  "capture_as_str c =
     (case c of CaptureOff \<Rightarrow> ''off'' | CaptureErrors \<Rightarrow> ''errors'' | CaptureAll \<Rightarrow> ''all'')"

definition capture_wants :: "body_capture \<Rightarrow> nat \<Rightarrow> bool" where
  "capture_wants c status =
     (case c of CaptureOff \<Rightarrow> False | CaptureErrors \<Rightarrow> 400 \<le> status | CaptureAll \<Rightarrow> True)"

record usage_config =
  uc_retention_days :: u32
  uc_flush_interval_secs :: u64
  uc_per_key_metrics :: bool
  uc_capture_bodies :: body_capture
  uc_body_limit_bytes :: nat
  uc_body_retention_days :: u32

definition usage_default :: usage_config where
  "usage_default =
     \<lparr>uc_retention_days = 365, uc_flush_interval_secs = 10, uc_per_key_metrics = False,
      uc_capture_bodies = CaptureAll, uc_body_limit_bytes = 256 * 1024, uc_body_retention_days = 1\<rparr>"

record price =
  pc_input_per_mtok :: f64
  pc_output_per_mtok :: f64

record config_error =
  ce_path :: string
  ce_message :: string

record config =
  cf_server :: server_config
  cf_providers :: "(string \<times> provider) list"
  cf_aliases :: "string \<rightharpoonup> target_model"
  cf_fallbacks :: "target_model \<rightharpoonup> target_model list"
  cf_groups :: "string \<rightharpoonup> routing_group"
  cf_reliability :: reliability
  cf_tenants :: "string set"
  cf_virtual_keys :: "virtual_key_def list"
  cf_console :: console_config
  cf_store :: store_config
  cf_usage :: usage_config
  cf_pricing :: "string \<rightharpoonup> price"

definition cf_retries :: "config \<Rightarrow> retries" where
  "cf_retries c = rl_retries (cf_reliability c)"

text \<open>A target printed is parsed back, when its provider has no slash.\<close>

lemma tg_parse_display:
  "tg_provider t \<noteq> [] \<Longrightarrow> CHR ''/'' \<notin> set (tg_provider t) \<Longrightarrow> tg_model t \<noteq> [] \<Longrightarrow>
     tg_parse (tg_display t) = Some t"
  by (simp add: tg_parse_def tg_display_def)

lemma tg_parse_Some: "tg_parse s = Some t \<Longrightarrow> tg_display t = s \<and> tg_provider t \<noteq> [] \<and> tg_model t \<noteq> []"
  by (auto simp: tg_parse_def tg_display_def split_once_Some split: option.splits if_splits)

end
