(* ===== verification/Config_Raw.thy ===== *)
theory Config_Raw
  imports Config_Model
begin

text \<open>
  The configuration as written (\<open>crates/router-core/src/config/raw.rs\<close>) and the well-known providers
  (\<open>presets.rs\<close>). Maps are association lists in key order with distinct keys, as a \<open>BTreeMap\<close> is
  iterated; deserialising the document is the work of \<open>serde\<close>.
\<close>

section \<open>The document\<close>

datatype raw_auth_key = Bare string | Named string "string option"

fun rak_value :: "raw_auth_key \<Rightarrow> string" where
  "rak_value (Bare v) = v"
| "rak_value (Named key _) = key"

fun rak_tenant :: "raw_auth_key \<Rightarrow> string option" where
  "rak_tenant (Bare _) = None"
| "rak_tenant (Named _ tenant) = tenant"

record raw_server =
  rs_host :: string
  rs_port :: nat
  rs_max_body_size_mb :: u64
  rs_auth_keys :: "raw_auth_key list"
  rs_require_auth :: bool
  rs_drain_timeout_secs :: u64

definition raw_server_default :: raw_server where
  "raw_server_default =
     \<lparr>rs_host = ''0.0.0.0'', rs_port = 8080, rs_max_body_size_mb = 100, rs_auth_keys = [],
      rs_require_auth = False, rs_drain_timeout_secs = 30\<rparr>"

record raw_group_target =
  gt_target :: string
  gt_weight :: f64

record raw_group =
  gp_primary :: "raw_group_target list"
  gp_fallback :: "raw_group_target list"

record raw_budget =
  rb_usd :: f64
  rb_period :: string

record raw_rate_limit =
  rr_rpm :: "u64 option"
  rr_tpm :: "u64 option"

record raw_virtual_key =
  rv_name :: string
  rv_id :: string
  rv_secret_hash :: string
  rv_models :: "string list"
  rv_tenant :: "string option"
  rv_budget :: "raw_budget option"
  rv_rate_limit :: "raw_rate_limit option"
  rv_expires :: "string option"
  rv_tags :: "string \<rightharpoonup> string"
  rv_enabled :: bool

record raw_console =
  rc_admin_keys :: "string list"
  rc_session_ttl_secs :: u64

definition raw_console_default :: raw_console where
  "raw_console_default = \<lparr>rc_admin_keys = [], rc_session_ttl_secs = 12 * 60 * 60\<rparr>"

record raw_store =
  rt_backend :: string
  rt_bucket :: "string option"
  rt_prefix :: "string option"
  rt_table :: "string option"
  rt_region :: "string option"
  rt_endpoint :: "string option"
  rt_refresh_interval_secs :: u64
  rt_heartbeat_interval_secs :: u64
  rt_liveness_window_secs :: u64

definition raw_store_default :: raw_store where
  "raw_store_default =
     \<lparr>rt_backend = ''file'', rt_bucket = None, rt_prefix = None, rt_table = None, rt_region = None,
      rt_endpoint = None, rt_refresh_interval_secs = 3, rt_heartbeat_interval_secs = 5,
      rt_liveness_window_secs = 15\<rparr>"

record raw_usage =
  ru_retention_days :: u32
  ru_flush_interval_secs :: u64
  ru_per_key_metrics :: bool
  ru_capture_bodies :: string
  ru_body_limit_bytes :: nat
  ru_body_retention_days :: u32

definition raw_usage_default :: raw_usage where
  "raw_usage_default =
     \<lparr>ru_retention_days = 365, ru_flush_interval_secs = 10, ru_per_key_metrics = False,
      ru_capture_bodies = ''all'', ru_body_limit_bytes = 256 * 1024, ru_body_retention_days = 1\<rparr>"

record raw_price =
  rp_input_per_mtok :: f64
  rp_output_per_mtok :: f64

record raw_key_limits =
  kl_rpm :: "u64 option"
  kl_tpm :: "u64 option"
  kl_max_concurrency :: "u32 option"

record raw_codex =
  rx_version :: "string option"
  rx_reasoning_effort :: "string option"
  rx_verbosity :: "string option"
  rx_pdf_dpi :: "u32 option"
  rx_pdf_max_pages :: "nat option"

record raw_key =
  rk_name :: string
  rk_value :: string
  rk_weight :: f64
  rk_models :: "string list option"
  rk_tenant :: "string option"
  rk_rpm :: "u64 option"
  rk_tpm :: "u64 option"
  rk_max_concurrency :: "u32 option"

definition default_weight :: f64 where
  "default_weight = Finite 1"

record raw_provider =
  rw_type :: "string option"
  rw_base_url :: "string option"
  rw_auth :: "string option"
  rw_keys :: "raw_key list"
  rw_max_concurrency :: nat
  rw_timeout_secs :: u64
  rw_endpoint :: "string option"
  rw_api_version :: "string option"
  rw_deployments :: "(string \<times> string) list"
  rw_region :: "string option"
  rw_access_key_id :: "string option"
  rw_project :: "string option"
  rw_location :: "string option"
  rw_codex :: "raw_codex option"
  rw_key_limits :: "raw_key_limits option"

definition raw_provider_default :: raw_provider where
  "raw_provider_default =
     \<lparr>rw_type = None, rw_base_url = None, rw_auth = None, rw_keys = [], rw_max_concurrency = 512,
      rw_timeout_secs = 120, rw_endpoint = None, rw_api_version = None, rw_deployments = [],
      rw_region = None, rw_access_key_id = None, rw_project = None, rw_location = None,
      rw_codex = None, rw_key_limits = None\<rparr>"

record raw_breaker =
  rb_failure_threshold :: u32
  rb_window_secs :: u64
  rb_cooldown_secs :: u64

definition raw_breaker_default :: raw_breaker where
  "raw_breaker_default = \<lparr>rb_failure_threshold = 5, rb_window_secs = 30, rb_cooldown_secs = 15\<rparr>"

record raw_retries =
  rr_max_attempts :: u32
  rr_on :: "string list"

definition raw_retries_default :: raw_retries where
  "raw_retries_default = \<lparr>rr_max_attempts = 2, rr_on = [''connect_error'', ''429'', ''5xx'']\<rparr>"

record raw_reliability =
  rl_raw_breaker :: raw_breaker
  rl_raw_retries :: raw_retries

record raw_config =
  rg_server :: raw_server
  rg_providers :: "(string \<times> raw_provider) list"
  rg_aliases :: "(string \<times> string) list"
  rg_fallbacks :: "(string \<times> string list) list"
  rg_groups :: "(string \<times> raw_group) list"
  rg_reliability :: raw_reliability
  rg_tenants :: "string list"
  rg_virtual_keys :: "raw_virtual_key list"
  rg_console :: raw_console
  rg_store :: raw_store
  rg_usage :: raw_usage
  rg_pricing :: "(string \<times> raw_price) list"

definition raw_config_default :: raw_config where
  "raw_config_default =
     \<lparr>rg_server = raw_server_default, rg_providers = [], rg_aliases = [], rg_fallbacks = [], rg_groups = [],
      rg_reliability = \<lparr>rl_raw_breaker = raw_breaker_default, rl_raw_retries = raw_retries_default\<rparr>,
      rg_tenants = [], rg_virtual_keys = [], rg_console = raw_console_default, rg_store = raw_store_default,
      rg_usage = raw_usage_default, rg_pricing = []\<rparr>"

text \<open>The keys of every map are distinct.\<close>

definition raw_wf :: "raw_config \<Rightarrow> bool" where
  "raw_wf raw \<longleftrightarrow> distinct (map fst (rg_providers raw)) \<and> distinct (map fst (rg_aliases raw))
     \<and> distinct (map fst (rg_fallbacks raw)) \<and> distinct (map fst (rg_groups raw))
     \<and> distinct (map fst (rg_pricing raw))"

section \<open>Well-known providers\<close>

record preset =
  ps_kind :: provider_kind
  ps_base_url :: "string option"
  ps_discovery_env :: "string option"
  ps_keyless_ok :: bool

definition openai_compat :: "string \<Rightarrow> string option \<Rightarrow> preset" where
  "openai_compat base_url discovery_env =
     \<lparr>ps_kind = OpenAiCompat, ps_base_url = Some base_url, ps_discovery_env = discovery_env, ps_keyless_ok = False\<rparr>"

definition preset_of :: "string \<Rightarrow> preset option" where
  "preset_of name =
     map_of
       [(''openai'', \<lparr>ps_kind = OpenAi, ps_base_url = Some ''https://api.openai.com/v1'',
           ps_discovery_env = Some ''OPENAI_API_KEY'', ps_keyless_ok = False\<rparr>),
        (''anthropic'', \<lparr>ps_kind = Anthropic, ps_base_url = Some ''https://api.anthropic.com'',
           ps_discovery_env = Some ''ANTHROPIC_API_KEY'', ps_keyless_ok = False\<rparr>),
        (''gemini'', \<lparr>ps_kind = Gemini, ps_base_url = Some ''https://generativelanguage.googleapis.com'',
           ps_discovery_env = Some ''GEMINI_API_KEY'', ps_keyless_ok = False\<rparr>),
        (''azure'', \<lparr>ps_kind = Azure, ps_base_url = None, ps_discovery_env = None, ps_keyless_ok = False\<rparr>),
        (''bedrock'', \<lparr>ps_kind = Bedrock, ps_base_url = None, ps_discovery_env = None, ps_keyless_ok = False\<rparr>),
        (''vertex'', \<lparr>ps_kind = Vertex, ps_base_url = None, ps_discovery_env = None, ps_keyless_ok = False\<rparr>),
        (''databricks'', \<lparr>ps_kind = OpenAiCompat, ps_base_url = None, ps_discovery_env = None, ps_keyless_ok = False\<rparr>),
        (''groq'', openai_compat ''https://api.groq.com/openai/v1'' (Some ''GROQ_API_KEY'')),
        (''mistral'', openai_compat ''https://api.mistral.ai/v1'' (Some ''MISTRAL_API_KEY'')),
        (''cerebras'', openai_compat ''https://api.cerebras.ai/v1'' (Some ''CEREBRAS_API_KEY'')),
        (''openrouter'', openai_compat ''https://openrouter.ai/api/v1'' (Some ''OPENROUTER_API_KEY'')),
        (''ollama'', \<lparr>ps_kind = OpenAiCompat, ps_base_url = Some ''http://localhost:11434/v1'',
           ps_discovery_env = None, ps_keyless_ok = True\<rparr>),
        (''vllm'', \<lparr>ps_kind = OpenAiCompat, ps_base_url = Some ''http://localhost:8000/v1'',
           ps_discovery_env = None, ps_keyless_ok = True\<rparr>)] name"

definition DISCOVERY_ORDER :: "string list" where
  "DISCOVERY_ORDER = [''openai'', ''anthropic'', ''gemini'', ''groq'', ''mistral'', ''cerebras'', ''openrouter'']"

definition ALL_PRESETS :: "string list" where
  "ALL_PRESETS = [''openai'', ''anthropic'', ''gemini'', ''azure'', ''bedrock'', ''vertex'', ''databricks'',
     ''groq'', ''mistral'', ''cerebras'', ''openrouter'', ''ollama'', ''vllm'']"

datatype model_format = ChatCompletions | Responses | Messages | GenerateContent | Embeddings

fun mf_as_str :: "model_format \<Rightarrow> string" where
  "mf_as_str ChatCompletions = ''chat_completions''"
| "mf_as_str Responses = ''responses''"
| "mf_as_str Messages = ''messages''"
| "mf_as_str GenerateContent = ''generate_content''"
| "mf_as_str Embeddings = ''embeddings''"

definition mf_parse :: "string \<Rightarrow> model_format option" where
  "mf_parse value =
     (if value = ''chat_completions'' then Some ChatCompletions
      else if value = ''responses'' then Some Responses
      else if value = ''messages'' then Some Messages
      else if value = ''generate_content'' then Some GenerateContent
      else if value = ''embeddings'' then Some Embeddings
      else None)"

fun mf_default_for :: "provider_kind \<Rightarrow> model_format" where
  "mf_default_for Anthropic = Messages"
| "mf_default_for ClaudeSubscription = Messages"
| "mf_default_for Gemini = GenerateContent"
| "mf_default_for Vertex = GenerateContent"
| "mf_default_for CodexSubscription = Responses"
| "mf_default_for _ = ChatCompletions"

text \<open>The models a provider is seeded with.\<close>

type_synonym catalog_model = "string \<times> model_format"

definition ANTHROPIC_MODELS :: "catalog_model list" where
  "ANTHROPIC_MODELS = map (\<lambda>m. (m, Messages))
     [''claude-fable-5'', ''claude-opus-5'', ''claude-opus-4-8'', ''claude-opus-4-7'', ''claude-opus-4-6'',
      ''claude-opus-4-5'', ''claude-sonnet-5'', ''claude-sonnet-4-6'', ''claude-sonnet-4-5'', ''claude-haiku-4-5'']"

definition CODEX_MODELS :: "catalog_model list" where
  "CODEX_MODELS = [(''gpt-5.5'', Responses), (''gpt-5.5-codex'', Responses)]"

definition catalog :: "string \<Rightarrow> catalog_model list" where
  "catalog name =
     (if name = ''openai''
      then map (\<lambda>m. (m, ChatCompletions)) [''gpt-4o'', ''gpt-4o-mini'', ''gpt-4.1'', ''gpt-4.1-mini'', ''gpt-4.1-nano'']
        @ map (\<lambda>m. (m, Responses)) [''o3'', ''o4-mini'', ''gpt-5.5'']
      else if name = ''anthropic'' \<or> name = ''claude_subscription'' then ANTHROPIC_MODELS
      else if name = ''codex_subscription'' then CODEX_MODELS
      else if name = ''gemini'' \<or> name = ''vertex''
      then map (\<lambda>m. (m, GenerateContent)) [''gemini-flash-latest'', ''gemini-pro-latest'', ''gemini-2.5-flash'']
      else if name = ''groq'' then [(''llama-3.3-70b-versatile'', ChatCompletions), (''llama-3.1-8b-instant'', ChatCompletions)]
      else if name = ''mistral'' then [(''mistral-large-latest'', ChatCompletions), (''mistral-small-latest'', ChatCompletions)]
      else if name = ''cerebras'' then [(''llama-3.3-70b'', ChatCompletions)]
      else if name = ''openrouter''
      then [(''openai/gpt-4o'', ChatCompletions), (''anthropic/claude-sonnet-4-5'', ChatCompletions)]
      else [])"

definition catalog_for_provider :: "string \<Rightarrow> provider_kind \<Rightarrow> catalog_model list" where
  "catalog_for_provider name kind =
     (let named = catalog name in
      if named \<noteq> [] then named
      else case kind of
        Anthropic \<Rightarrow> ANTHROPIC_MODELS
      | ClaudeSubscription \<Rightarrow> ANTHROPIC_MODELS
      | CodexSubscription \<Rightarrow> CODEX_MODELS
      | _ \<Rightarrow> [])"

record reasoning_profile =
  rp_default :: "string option"
  rp_levels :: "string list"

definition rp_supports :: "reasoning_profile \<Rightarrow> string \<Rightarrow> bool" where
  "rp_supports p effort \<longleftrightarrow> effort \<in> set (rp_levels p)"

definition reasoning_profile_of :: "string \<Rightarrow> reasoning_profile" where
  "reasoning_profile_of model =
     (let model = last (split_on CHR ''/'' model);
          profile = (\<lambda>d ls. \<lparr>rp_default = Some d, rp_levels = ls\<rparr>)
      in if model = ''gpt-5.6-sol'' then profile ''low'' [''low'', ''medium'', ''high'', ''xhigh'', ''max'', ''ultra'']
         else if model = ''gpt-5.6-terra'' then profile ''medium'' [''low'', ''medium'', ''high'', ''xhigh'', ''max'', ''ultra'']
         else if model = ''gpt-5.6-luna'' then profile ''medium'' [''low'', ''medium'', ''high'', ''max'']
         else if model \<in> {''gpt-5.5'', ''gpt-5.5-codex'', ''gpt-5.4'', ''gpt-5.4-mini''}
         then profile ''medium'' [''low'', ''medium'', ''high'', ''xhigh'']
         else if model \<in> {''claude-fable-5'', ''claude-opus-5'', ''claude-opus-4-8'', ''claude-opus-4-7'', ''claude-sonnet-5''}
         then profile ''high'' [''low'', ''medium'', ''high'', ''xhigh'', ''max'']
         else if model \<in> {''claude-opus-4-6'', ''claude-sonnet-4-6''} then profile ''high'' [''low'', ''medium'', ''high'', ''max'']
         else if model = ''claude-opus-4-5'' then profile ''high'' [''low'', ''medium'', ''high'']
         else \<lparr>rp_default = None, rp_levels = []\<rparr>)"

lemma mf_parse_as_str [simp]: "mf_parse (mf_as_str f) = Some f"
  by (cases f) (simp_all add: mf_parse_def)

text \<open>Every provider the console offers is well known; the discoverable ones name their variable.\<close>

lemma all_presets_known: "list_all (\<lambda>name. preset_of name \<noteq> None) ALL_PRESETS"
  by (simp add: ALL_PRESETS_def preset_of_def)

lemma discovery_has_env:
  "list_all (\<lambda>name. \<exists>p. preset_of name = Some p \<and> ps_discovery_env p \<noteq> None) DISCOVERY_ORDER"
  by (simp add: DISCOVERY_ORDER_def preset_of_def openai_compat_def)

lemma preset_url: "preset_of name = Some p \<Longrightarrow> ps_base_url p = Some url \<Longrightarrow>
    starts_with ''http://'' url \<or> starts_with ''https://'' url"
  by (auto simp: preset_of_def openai_compat_def starts_with_def split: if_splits)

lemma preset_without_url: "preset_of name = Some p \<Longrightarrow> ps_base_url p = None \<Longrightarrow>
    ps_kind p \<in> {Azure, Bedrock, Vertex, OpenAiCompat}"
  by (auto simp: preset_of_def openai_compat_def split: if_splits)

end
