(* ===== verification/Config_Checks.thy ===== *)
theory Config_Checks
  imports Config_Raw
begin

text \<open>
  The validators of \<open>crates/router-core/src/config/validate.rs\<close> for everything but providers and routing.
  A validator returns its value with the errors it pushes, in order; the callers append them. The
  environment and the file system are parameters.
\<close>

type_synonym 'a checked = "'a \<times> config_error list"

type_synonym env = "string \<Rightarrow> string option"

text \<open>\<open>std::fs::read_to_string\<close>: the printed error, or the contents.\<close>

type_synonym file_system = "string \<Rightarrow> string + string"

definition ce_new :: "string \<Rightarrow> string \<Rightarrow> config_error" where
  "ce_new path message = \<lparr>ce_path = path, ce_message = message\<rparr>"

definition fail_if :: "bool \<Rightarrow> string \<Rightarrow> string \<Rightarrow> config_error list" where
  "fail_if bad path message = (if bad then [ce_new path message] else [])"

definition at_index :: "nat \<Rightarrow> string" where
  "at_index i = ''['' @ decimal i @ '']''"

definition tick :: "string \<Rightarrow> string" where
  "tick s = ''`'' @ s @ ''`''"

section \<open>Loops that collect\<close>

primrec check_each :: "(nat \<Rightarrow> 'a \<Rightarrow> 'b list checked) \<Rightarrow> nat \<Rightarrow> 'a list \<Rightarrow> 'b list checked" where
  "check_each f i [] = ([], [])"
| "check_each f i (x # xs) =
     (let (r, e) = f i x; (rs, es) = check_each f (Suc i) xs in (r @ rs, e @ es))"

text \<open>The same with a state the turns hand on.\<close>

primrec check_fold ::
    "(nat \<Rightarrow> 's \<Rightarrow> 'a \<Rightarrow> 's \<times> 'b list checked) \<Rightarrow> nat \<Rightarrow> 's \<Rightarrow> 'a list \<Rightarrow> 'b list checked" where
  "check_fold f i s [] = ([], [])"
| "check_fold f i s (x # xs) =
     (let (s, r, e) = f i s x; (rs, es) = check_fold f (Suc i) s xs in (r @ rs, e @ es))"

lemma fail_if_Nil [simp]: "fail_if bad path message = [] \<longleftrightarrow> \<not> bad"
  by (simp add: fail_if_def)

lemma check_each_Cons [simp]:
  "fst (check_each f i (x # xs)) = fst (f i x) @ fst (check_each f (Suc i) xs)"
  "snd (check_each f i (x # xs)) = snd (f i x) @ snd (check_each f (Suc i) xs)"
  by (simp_all split: prod.split)

lemma check_fold_Cons [simp]:
  "fst (check_fold f i s (x # xs)) = fst (snd (f i s x)) @ fst (check_fold f (Suc i) (fst (f i s x)) xs)"
  "snd (check_fold f i s (x # xs)) = snd (snd (f i s x)) @ snd (check_fold f (Suc i) (fst (f i s x)) xs)"
  by (simp_all split: prod.split)

declare check_each.simps(2) [simp del] check_fold.simps(2) [simp del]

lemma check_each_ok:
  "snd (check_each f i xs) = [] \<Longrightarrow> x \<in> set xs \<Longrightarrow> \<exists>j. snd (f j x) = []"
  by (induction xs arbitrary: i) auto

lemma check_each_ok_value:
  "snd (check_each f i xs) = [] \<Longrightarrow> y \<in> set (fst (check_each f i xs)) \<Longrightarrow>
     \<exists>j. \<exists>x \<in> set xs. snd (f j x) = [] \<and> y \<in> set (fst (f j x))"
proof (induction xs arbitrary: i)
  case (Cons x xs)
  then consider "y \<in> set (fst (f i x))" "snd (f i x) = []"
    | "snd (check_each f (Suc i) xs) = []" "y \<in> set (fst (check_each f (Suc i) xs))" by auto
  then show ?case
  proof cases
    case 1
    then show ?thesis by auto
  next
    case 2
    from Cons.IH [OF this] show ?thesis by auto
  qed
qed simp

text \<open>A loop that yields one value a turn yields one for every element.\<close>

lemma check_each_map:
  "(\<And>j x. x \<in> set xs \<Longrightarrow> snd (f j x) = [] \<Longrightarrow> \<exists>y. fst (f j x) = [y] \<and> g y = h x) \<Longrightarrow> snd (check_each f i xs) = [] \<Longrightarrow>
     map g (fst (check_each f i xs)) = map h xs"
proof (induction xs arbitrary: i)
  case (Cons x xs)
  then have "\<exists>y. fst (f i x) = [y] \<and> g y = h x" by simp
  moreover have "map g (fst (check_each f (Suc i) xs)) = map h xs"
    by (rule Cons.IH) (use Cons.prems in auto)
  ultimately show ?case by auto
qed simp

section \<open>Secrets\<close>

text \<open>\<open>resolve_secret\<close>: a file, an environment variable, a stored secret or the literal value.\<close>

definition resolve_secret :: "file_system \<Rightarrow> env \<Rightarrow> string \<Rightarrow> string + string" where
  "resolve_secret files env value =
     (case strip_prefix ''file:'' value of
        Some path \<Rightarrow>
          if path = [] then Inl ''empty path after `file:`''
          else (case files path of
            Inr contents \<Rightarrow>
              if trim contents \<noteq> [] then Inr (trim contents)
              else Inl (''credential file '' @ tick path @ '' is empty'')
          | Inl e \<Rightarrow> Inl (''cannot read credential file '' @ tick path @ '': '' @ e))
      | None \<Rightarrow>
     (case strip_prefix ''env.'' value of
        Some var \<Rightarrow>
          if var = [] then Inl ''empty environment variable name after `env.`''
          else (case env var of
            Some v \<Rightarrow>
              if v \<noteq> [] then Inr v else Inl (''environment variable '' @ tick var @ '' is set but empty'')
          | None \<Rightarrow> Inl (''environment variable '' @ tick var @ '' is not set''))
      | None \<Rightarrow>
     (case strip_prefix ''store.'' value of
        Some name \<Rightarrow>
          if name = [] then Inl ''empty secret name after `store.`''
          else (case env value of
            Some v \<Rightarrow>
              if v \<noteq> [] then Inr v
              else Inl (''store secret '' @ tick name @ '' is not set (managed mode: `rapid-router secret set '' @ name @ ''`)'')
          | None \<Rightarrow> Inl (''store secret '' @ tick name @ '' is not set (managed mode: `rapid-router secret set '' @ name @ ''`)''))
      | None \<Rightarrow> if value = [] then Inl ''must not be empty'' else Inr value)))"

lemma resolve_secret_nonempty: "resolve_secret files env value = Inr secret \<Longrightarrow> secret \<noteq> []"
  by (auto simp: resolve_secret_def split: option.splits if_splits sum.splits)

section \<open>Services\<close>

definition validate_tenants :: "raw_config \<Rightarrow> string list checked" where
  "validate_tenants raw =
     check_fold (\<lambda>i seen name.
       if trim name = []
       then (seen, [], [ce_new (''tenants'' @ at_index i) ''a service name must not be empty''])
       else if name \<in> set seen
       then (seen, [], [ce_new (''tenants'' @ at_index i) (''duplicate service '' @ tick name)])
       else (name # seen, [name], [])) 0 [] (rg_tenants raw)"

definition no_such_service :: "string \<Rightarrow> string" where
  "no_such_service tenant =
     ''no service named '' @ tick tenant @ '' is declared (add it to the top-level `tenants` list)''"

definition check_tenant :: "string list \<Rightarrow> string \<Rightarrow> string option \<Rightarrow> config_error list" where
  "check_tenant tenants path tenant =
     (case tenant of
        None \<Rightarrow> []
      | Some t \<Rightarrow> fail_if (t \<notin> set tenants) path (no_such_service t))"

definition validate_account_tenants :: "raw_config \<Rightarrow> string list \<Rightarrow> config_error list" where
  "validate_account_tenants raw tenants =
     concat (map (\<lambda>(provider, rp).
       snd (check_each (\<lambda>i key. ([] :: unit list,
              check_tenant tenants (''providers.'' @ provider @ ''.keys'' @ at_index i @ ''.tenant'') (rk_tenant key)))
            0 (rw_keys rp))) (rg_providers raw))"

section \<open>Server\<close>

definition validate_auth_key ::
    "file_system \<Rightarrow> env \<Rightarrow> string list \<Rightarrow> nat \<Rightarrow> raw_auth_key \<Rightarrow> static_key list checked" where
  "validate_auth_key files env tenants i entry =
     (let e = check_tenant tenants (''server.auth_keys'' @ at_index i @ ''.tenant'') (rak_tenant entry)
      in case resolve_secret files env (rak_value entry) of
           Inr secret \<Rightarrow> ([\<lparr>sk_secret = secret, sk_tenant = rak_tenant entry\<rparr>], e)
         | Inl msg \<Rightarrow> ([], e @ [ce_new (''server.auth_keys'' @ at_index i) msg]))"

definition validate_server :: "file_system \<Rightarrow> env \<Rightarrow> raw_config \<Rightarrow> string list \<Rightarrow> server_config checked" where
  "validate_server files env raw tenants =
     (let s = rg_server raw;
          size = fail_if (rs_max_body_size_mb s = 0 \<or> 1024 < rs_max_body_size_mb s)
                   ''server.max_body_size_mb'' ''must be between 1 and 1024'';
          (auth_keys, es) = check_each (validate_auth_key files env tenants) 0 (rs_auth_keys s)
      in (\<lparr>sv_host = rs_host s, sv_port = rs_port s, sv_max_body_size = rs_max_body_size_mb s * 1024 * 1024,
           sv_auth_keys = auth_keys, sv_require_auth = rs_require_auth s,
           sv_drain_timeout_secs = rs_drain_timeout_secs s\<rparr>, size @ es))"

section \<open>Virtual keys\<close>

definition valid_key_id :: "string \<Rightarrow> bool" where
  "valid_key_id s \<longleftrightarrow> length s = 6 \<and> list_all is_hexdigit s"

definition valid_secret_hash :: "string \<Rightarrow> bool" where
  "valid_secret_hash h \<longleftrightarrow>
     (let hex = (case strip_prefix ''blake3:'' h of None \<Rightarrow> [] | Some hex \<Rightarrow> hex)
      in length hex = 64 \<and> list_all is_hexdigit hex)"

definition check_scope ::
    "(string \<times> provider) list \<Rightarrow> (string \<times> target_model) list \<Rightarrow> (string \<times> routing_group) list \<Rightarrow>
       string \<Rightarrow> string \<Rightarrow> config_error list" where
  "check_scope providers aliases groups path scope =
     (if scope = [] then [ce_new path ''must not be empty'']
      else case split_once CHR ''/'' scope of
        Some (provider, _) \<Rightarrow>
          fail_if (map_of providers provider = None) path (''unknown provider '' @ tick provider)
      | None \<Rightarrow>
          fail_if (map_of aliases scope = None \<and> map_of groups scope = None) path
            (tick scope @ '' is not a configured routing group or alias (use `provider/model` to scope to a model)''))"

definition validate_budget :: "string \<Rightarrow> raw_budget option \<Rightarrow> budget option checked" where
  "validate_budget path b =
     (case b of
        None \<Rightarrow> (None, [])
      | Some b \<Rightarrow>
          (let period = (if rb_period b = ''daily'' then Some Daily
             else if rb_period b = ''weekly'' then Some Weekly
             else if rb_period b = ''monthly'' then Some Monthly else None)
           in case period of
             None \<Rightarrow> (None, [ce_new (path @ ''.budget.period'')
               (''unknown period '' @ tick (rb_period b) @ '' (expected daily, weekly, or monthly)'')])
           | Some period \<Rightarrow>
               if \<not> (f64_is_finite (rb_usd b) \<and> f64_pos (rb_usd b))
               then (None, [ce_new (path @ ''.budget.usd'') ''must be a positive number''])
               else (Some \<lparr>bu_usd = rb_usd b, bu_period = period\<rparr>, [])))"

definition validate_rate :: "string \<Rightarrow> raw_rate_limit option \<Rightarrow> rate_limit option checked" where
  "validate_rate path r =
     (case r of
        None \<Rightarrow> (None, [])
      | Some r \<Rightarrow>
          (Some \<lparr>rl_rpm = rr_rpm r, rl_tpm = rr_tpm r\<rparr>,
           fail_if (rr_rpm r = Some 0) (path @ ''.rate_limit.rpm'') ''must be > 0''
           @ fail_if (rr_tpm r = Some 0) (path @ ''.rate_limit.tpm'') ''must be > 0''
           @ fail_if (rr_rpm r = None \<and> rr_tpm r = None) (path @ ''.rate_limit'') ''must set rpm and/or tpm''))"

definition validate_expires :: "string \<Rightarrow> string option \<Rightarrow> u64 option checked" where
  "validate_expires path expires =
     (case expires of
        None \<Rightarrow> (None, [])
      | Some s \<Rightarrow>
          (let parsed = parse_rfc3339_utc_ms s
           in (parsed, fail_if (parsed = None) (path @ ''.expires'')
                 ''must be RFC 3339 UTC, e.g. `2027-01-01T00:00:00Z`'')))"

definition validate_virtual_key ::
    "(string \<times> provider) list \<Rightarrow> (string \<times> target_model) list \<Rightarrow> (string \<times> routing_group) list \<Rightarrow>
       string list \<Rightarrow> nat \<Rightarrow> string list \<Rightarrow> raw_virtual_key \<Rightarrow> string list \<times> virtual_key_def list checked" where
  "validate_virtual_key providers aliases groups tenants i seen rk =
     (let path = ''virtual_keys'' @ at_index i;
          name_e = fail_if (rv_name rk = []) (path @ ''.name'') ''must not be empty'';
          valid_id = valid_key_id (rv_id rk);
          id_e =
            (if \<not> valid_id
             then [ce_new (path @ ''.id'')
                     (''must be 6 hex characters (the id segment of `ck-<id>-'' @ ellipsis @ ''`)'')]
             else fail_if (rv_id rk \<in> set seen) (path @ ''.id'') (''duplicate key id '' @ tick (rv_id rk)));
          hash_e = fail_if (\<not> valid_secret_hash (rv_secret_hash rk)) (path @ ''.secret_hash'')
            ''must be `blake3:` followed by 64 hex characters (create one with `rapid-router key hash`)'';
          scope_e = snd (check_each (\<lambda>j scope. ([] :: unit list,
            check_scope providers aliases groups (path @ ''.models'' @ at_index j) scope)) 0 (rv_models rk));
          tenant_e = check_tenant tenants (path @ ''.tenant'') (rv_tenant rk);
          (budget, budget_e) = validate_budget path (rv_budget rk);
          (rate, rate_e) = validate_rate path (rv_rate_limit rk);
          (expires_ms, expires_e) = validate_expires path (rv_expires rk);
          es = name_e @ id_e @ hash_e @ scope_e @ tenant_e @ budget_e @ rate_e @ expires_e
      in (if valid_id \<and> rv_id rk \<notin> set seen then rv_id rk # seen else seen,
          if es = [] then
            [\<lparr>vd_id = rv_id rk, vd_name = rv_name rk, vd_secret_hash = rv_secret_hash rk, vd_prev_secret = None,
              vd_models = rv_models rk, vd_tenant = rv_tenant rk, vd_budget = budget, vd_rate = rate,
              vd_expires_ms = expires_ms, vd_tags = rv_tags rk, vd_enabled = rv_enabled rk, vd_created_ms = 0\<rparr>]
          else [], es))"

definition validate_virtual_keys ::
    "raw_config \<Rightarrow> (string \<times> provider) list \<Rightarrow> (string \<times> target_model) list \<Rightarrow>
       (string \<times> routing_group) list \<Rightarrow> string list \<Rightarrow> virtual_key_def list checked" where
  "validate_virtual_keys raw providers aliases groups tenants =
     check_fold (validate_virtual_key providers aliases groups tenants) 0 [] (rg_virtual_keys raw)"

section \<open>Console, store, usage, prices, reliability\<close>

definition validate_console :: "file_system \<Rightarrow> env \<Rightarrow> raw_config \<Rightarrow> console_config checked" where
  "validate_console files env raw =
     (let c = rg_console raw;
          (admin_keys, es) = check_each (\<lambda>i v.
            (case resolve_secret files env v of
               Inr secret \<Rightarrow> ([secret], [])
             | Inl msg \<Rightarrow> ([], [ce_new (''console.admin_keys'' @ at_index i) msg]))) 0 (rc_admin_keys c)
      in (\<lparr>cn_admin_keys = admin_keys, cn_session_ttl_secs = rc_session_ttl_secs c\<rparr>,
          es @ fail_if (\<not> (60 \<le> rc_session_ttl_secs c \<and> rc_session_ttl_secs c \<le> 604800))
            ''console.session_ttl_secs'' ''must be between 60 (1 minute) and 604800 (7 days)''))"

definition validate_store :: "raw_config \<Rightarrow> store_config checked" where
  "validate_store raw =
     (let s = rg_store raw;
          backend_e =
            (if rt_backend s = ''file'' \<or> rt_backend s = ''memory'' then []
             else if rt_backend s = ''s3''
             then fail_if (rt_bucket s = None \<or> rt_bucket s = Some []) ''store.bucket''
               ''required when `store.backend` is `s3`''
             else if rt_backend s = ''dynamodb''
             then fail_if (rt_table s = None \<or> rt_table s = Some []) ''store.table''
               ''required when `store.backend` is `dynamodb`''
             else [ce_new ''store.backend'' (''unknown backend '' @ tick (rt_backend s) @ '' '' @ em_dash
               @ '' expected `file`, `s3`, or `dynamodb`'')]);
          liveness_e = fail_if (rt_liveness_window_secs s \<le> rt_heartbeat_interval_secs s) ''store.liveness_window_secs''
            (''must be greater than store.heartbeat_interval_secs ('' @ decimal (unat (rt_heartbeat_interval_secs s))
             @ ''s), or nodes age out between their own heartbeats'');
          interval_e = fail_if (rt_refresh_interval_secs s = 0 \<or> rt_heartbeat_interval_secs s = 0)
            ''store.refresh_interval_secs'' ''intervals must be at least 1 second''
      in (\<lparr>sc_backend = rt_backend s, sc_bucket = rt_bucket s, sc_prefix = rt_prefix s, sc_table = rt_table s,
           sc_region = rt_region s, sc_endpoint = rt_endpoint s,
           sc_refresh_interval_secs = rt_refresh_interval_secs s,
           sc_heartbeat_interval_secs = rt_heartbeat_interval_secs s,
           sc_liveness_window_secs = rt_liveness_window_secs s\<rparr>, backend_e @ liveness_e @ interval_e))"

definition validate_usage :: "raw_config \<Rightarrow> usage_config checked" where
  "validate_usage raw =
     (let u = rg_usage raw; capture = capture_parse (ru_capture_bodies u)
      in (\<lparr>uc_retention_days = ru_retention_days u, uc_flush_interval_secs = ru_flush_interval_secs u,
           uc_per_key_metrics = ru_per_key_metrics u,
           uc_capture_bodies = (case capture of Some c \<Rightarrow> c | None \<Rightarrow> CaptureOff),
           uc_body_limit_bytes = ru_body_limit_bytes u, uc_body_retention_days = ru_body_retention_days u\<rparr>,
          fail_if (\<not> (1 \<le> ru_retention_days u \<and> ru_retention_days u \<le> 3650)) ''usage.retention_days''
            ''must be between 1 and 3650''
          @ fail_if (\<not> (1 \<le> ru_flush_interval_secs u \<and> ru_flush_interval_secs u \<le> 300)) ''usage.flush_interval_secs''
            ''must be between 1 and 300''
          @ fail_if (capture = None) ''usage.capture_bodies'' ''must be `off`, `errors` or `all`''
          @ fail_if (4 * 1048576 < ru_body_limit_bytes u) ''usage.body_limit_bytes'' ''must be 4 MiB or less per body''
          @ fail_if (\<not> (1 \<le> ru_body_retention_days u \<and> ru_body_retention_days u \<le> 3650)) ''usage.body_retention_days''
            ''must be between 1 and 3650''))"

definition validate_price :: "string \<times> raw_price \<Rightarrow> (string \<times> price) list checked" where
  "validate_price entry =
     (let (model, p) = entry;
          ok = f64_is_finite (rp_input_per_mtok p) \<and> f64_nonneg (rp_input_per_mtok p)
               \<and> f64_is_finite (rp_output_per_mtok p) \<and> f64_nonneg (rp_output_per_mtok p)
      in if \<not> ok
         then ([], [ce_new (''pricing.'' @ model) ''prices must be non-negative numbers (USD per million tokens)''])
         else ([(model, \<lparr>pc_input_per_mtok = rp_input_per_mtok p, pc_output_per_mtok = rp_output_per_mtok p\<rparr>)], []))"

definition validate_pricing :: "raw_config \<Rightarrow> (string \<times> price) list checked" where
  "validate_pricing raw = check_each (\<lambda>_. validate_price) 0 (rg_pricing raw)"

definition validate_reliability :: "raw_config \<Rightarrow> reliability checked" where
  "validate_reliability raw =
     (let b = rl_raw_breaker (rg_reliability raw); r = rl_raw_retries (rg_reliability raw);
          threshold_e = fail_if (rb_failure_threshold b = 0) ''reliability.breaker.failure_threshold'' ''must be > 0'';
          (on, on_e) = check_each (\<lambda>i s.
            (if s = ''connect_error'' then ([ConnectError], [])
             else if s = ''429'' then ([Status429], [])
             else if s = ''5xx'' then ([Status5xx], [])
             else ([], [ce_new (''reliability.retries.on'' @ at_index i)
                   (''unknown retry condition '' @ tick s @ '' (expected connect_error, 429, 5xx)'')]))) 0 (rr_on r)
      in (\<lparr>rl_breaker = \<lparr>bs_failure_threshold = rb_failure_threshold b, bs_window_ms = rb_window_secs b * 1000,
             bs_cooldown_ms = rb_cooldown_secs b * 1000\<rparr>,
           rl_retries = \<lparr>re_max_attempts = rr_max_attempts r, re_on = on\<rparr>\<rparr>, threshold_e @ on_e))"

end
