(* ===== verification/Config_Providers.thy ===== *)
theory Config_Providers
  imports Config_Checks
begin

text \<open>
  The provider section of \<open>crates/router-core/src/config/validate.rs\<close>: the adapter kind, keys and their
  ceilings, the settings of the single kinds, the base URL. A provider with any error is not built.
\<close>

section \<open>Settings of single kinds\<close>

definition EFFORTS :: "string list" where
  "EFFORTS = [''none'', ''minimal'', ''low'', ''medium'', ''high'', ''xhigh'', ''max'']"

definition VERBOSITIES :: "string list" where
  "VERBOSITIES = [''low'', ''medium'', ''high'']"

definition quoted :: "string \<Rightarrow> string" where
  "quoted s = [CHR 0x22] @ s @ [CHR 0x22]"

text \<open>The closure \<open>choice\<close>: no answer keeps the default, an empty string clears it.\<close>

definition codex_choice :: "string \<Rightarrow> string option \<Rightarrow> string list \<Rightarrow> string \<Rightarrow> string option option checked" where
  "codex_choice path value allowed field =
     (case value of
        None \<Rightarrow> (None, [])
      | Some v \<Rightarrow>
          if v = [] then (Some None, [])
          else if v \<notin> set allowed
          then (None, [ce_new (path @ ''.codex.'' @ field)
                 (''must be one of ['' @ join '', '' (map quoted allowed) @ ''], or '' @ quoted [] @ '' for the provider default'')])
          else (Some (Some v), []))"

definition validate_codex :: "provider_kind \<Rightarrow> raw_provider \<Rightarrow> string \<Rightarrow> codex_settings option checked" where
  "validate_codex kind rp path =
     (if kind \<noteq> CodexSubscription
      then (None, fail_if (rw_codex rp \<noteq> None) (path @ ''.codex'')
              (''only valid for `type = '' @ quoted ''codex_subscription'' @ ''` providers''))
      else
        let raw = rw_codex rp;
            version = Option.bind raw rx_version;
            (effort, effort_e) = codex_choice path (Option.bind raw rx_reasoning_effort) EFFORTS ''reasoning_effort'';
            (verbosity, verbosity_e) = codex_choice path (Option.bind raw rx_verbosity) VERBOSITIES ''verbosity'';
            dpi = Option.bind raw rx_pdf_dpi;
            dpi_bad = (case dpi of None \<Rightarrow> False | Some d \<Rightarrow> \<not> (36 \<le> d \<and> d \<le> 600));
            pages = Option.bind raw rx_pdf_max_pages;
            d = codex_default
        in (Some \<lparr>cx_version = (case version of Some v \<Rightarrow> if v = [] then cx_version d else v | None \<Rightarrow> cx_version d),
                 cx_reasoning_effort = (case effort of Some e \<Rightarrow> e | None \<Rightarrow> cx_reasoning_effort d),
                 cx_verbosity = (case verbosity of Some v \<Rightarrow> v | None \<Rightarrow> cx_verbosity d),
                 cx_pdf_dpi = (case dpi of Some n \<Rightarrow> if dpi_bad then cx_pdf_dpi d else n | None \<Rightarrow> cx_pdf_dpi d),
                 cx_pdf_max_pages = (case pages of Some n \<Rightarrow> if n = 0 then cx_pdf_max_pages d else n
                   | None \<Rightarrow> cx_pdf_max_pages d)\<rparr>,
            fail_if (version = Some []) (path @ ''.codex.version'')
              (''must not be empty '' @ em_dash @ '' the backend gates models on this value'')
            @ effort_e @ verbosity_e
            @ fail_if dpi_bad (path @ ''.codex.pdf_dpi'') ''must be between 36 and 600''
            @ fail_if (pages = Some 0) (path @ ''.codex.pdf_max_pages'') ''must be at least 1''))"

definition is_http :: "string \<Rightarrow> bool" where
  "is_http url \<longleftrightarrow> starts_with ''http://'' url \<or> starts_with ''https://'' url"

definition validate_azure :: "provider_kind \<Rightarrow> raw_provider \<Rightarrow> string \<Rightarrow> azure_settings option checked" where
  "validate_azure kind rp path =
     (if kind \<noteq> Azure then (None, [])
      else
        let (endpoint, endpoint_e) =
              (case rw_endpoint rp of
                 Some e \<Rightarrow> if is_http e then (Some e, [])
                   else (None, [ce_new (path @ ''.endpoint'') ''must start with http:// or https://''])
               | None \<Rightarrow> (None, [ce_new (path @ ''.endpoint'') ''required for azure'']));
            (api_version, version_e) =
              (case rw_api_version rp of
                 Some v \<Rightarrow> (Some v, [])
               | None \<Rightarrow> (None, [ce_new (path @ ''.api_version'') ''required for azure'']))
        in (Option.bind endpoint (\<lambda>e. map_option (\<lambda>v.
              \<lparr>az_endpoint = e, az_api_version = v, az_deployments = rw_deployments rp\<rparr>) api_version),
            endpoint_e @ version_e))"

definition validate_bedrock ::
    "file_system \<Rightarrow> env \<Rightarrow> provider_kind \<Rightarrow> raw_provider \<Rightarrow> string \<Rightarrow> bedrock_settings option checked" where
  "validate_bedrock files env kind rp path =
     (if kind \<noteq> Bedrock then (None, [])
      else
        let required = (None, [ce_new (path @ ''.region'') ''required for bedrock'']);
            (region, region_e) =
              (case rw_region rp of Some r \<Rightarrow> if r \<noteq> [] then (Some r, []) else required | None \<Rightarrow> required);
            (access_key_id, access_e) =
              (case rw_access_key_id rp of
                 Some reference \<Rightarrow>
                   (case resolve_secret files env reference of
                      Inr secret \<Rightarrow> (Some secret, [])
                    | Inl msg \<Rightarrow> (None, [ce_new (path @ ''.access_key_id'') msg]))
               | None \<Rightarrow> (None, [ce_new (path @ ''.access_key_id'')
                   ''required for bedrock (the key's `value` is the secret access key)'']))
        in (Option.bind region (\<lambda>r. map_option (\<lambda>a. \<lparr>bk_region = r, bk_access_key_id = a\<rparr>) access_key_id),
            region_e @ access_e))"

definition validate_vertex :: "provider_kind \<Rightarrow> raw_provider \<Rightarrow> string \<Rightarrow> vertex_settings option checked" where
  "validate_vertex kind rp path =
     (if kind \<noteq> Vertex then (None, [])
      else
        let required = (None, [ce_new (path @ ''.project'') ''required for vertex'']);
            (project, project_e) =
              (case rw_project rp of Some p \<Rightarrow> if p \<noteq> [] then (Some p, []) else required | None \<Rightarrow> required)
        in (map_option (\<lambda>p. \<lparr>vx_project = p,
              vx_location = (case rw_location rp of Some l \<Rightarrow> l | None \<Rightarrow> ''us-central1'')\<rparr>) project,
            project_e))"

section \<open>The adapter kind\<close>

text \<open>\<open>None\<close> is the early return without a provider.\<close>

definition provider_kind_of :: "string \<Rightarrow> raw_provider \<Rightarrow> string \<Rightarrow> provider_kind option checked" where
  "provider_kind_of name rp path =
     (case (preset_of name, rw_type rp) of
        (Some p, None) \<Rightarrow> (Some (ps_kind p), [])
      | (known, Some t) \<Rightarrow>
          if known = None \<and> t = ''openai_compat'' then (Some OpenAiCompat, [])
          else if t = ''claude_subscription'' then (Some ClaudeSubscription, [])
          else if t = ''codex_subscription'' then (Some CodexSubscription, [])
          else (case known of
            None \<Rightarrow> (None, [ce_new (path @ ''.type'') (''unknown provider type '' @ tick t
                @ '' (expected `openai_compat`, `claude_subscription`, or `codex_subscription`)'')])
          | Some p \<Rightarrow> (Some (ps_kind p),
              fail_if (\<not> (ps_kind p = OpenAiCompat \<and> t = ''openai_compat'')) (path @ ''.type'')
                (tick name @ '' is well-known; `type` must be omitted'')))
      | (None, None) \<Rightarrow> (None, [ce_new path (tick name @ '' is not a well-known provider; set `type = ''
            @ quoted ''openai_compat'' @ ''` and a `base_url`'')]))"

section \<open>Keys\<close>

definition ceiling_errors :: "string \<Rightarrow> string \<Rightarrow> u64 option \<Rightarrow> u64 option \<Rightarrow> u32 option \<Rightarrow> config_error list" where
  "ceiling_errors path message rpm tpm max_concurrency =
     fail_if (rpm = Some 0) (path @ ''.rpm'') message
     @ fail_if (tpm = Some 0) (path @ ''.tpm'') message
     @ fail_if (max_concurrency = Some 0) (path @ ''.max_concurrency'') message"

definition or_else :: "'a option \<Rightarrow> 'a option \<Rightarrow> 'a option" where
  "or_else a b = (case a of None \<Rightarrow> b | Some _ \<Rightarrow> a)"

lemma or_else_None [simp]: "or_else a b = None \<longleftrightarrow> a = None \<and> b = None"
  by (auto simp: or_else_def split: option.splits)

text \<open>One key; the state is the names seen so far.\<close>

definition validate_key ::
    "file_system \<Rightarrow> env \<Rightarrow> string \<Rightarrow> raw_key_limits option \<Rightarrow> nat \<Rightarrow> string list \<Rightarrow> raw_key \<Rightarrow>
       string list \<times> api_key list checked" where
  "validate_key files env path defaults i seen rk =
     (let kpath = path @ ''.keys'' @ at_index i;
          (seen, name_e) =
            (if rk_name rk = [] then (seen, [ce_new (kpath @ ''.name'') ''must not be empty''])
             else if rk_name rk \<in> set seen
             then (seen, [ce_new (kpath @ ''.name'') (''duplicate key name '' @ tick (rk_name rk))])
             else (rk_name rk # seen, []));
          weight_e = fail_if (\<not> (f64_is_finite (rk_weight rk) \<and> f64_pos (rk_weight rk))) (kpath @ ''.weight'') ''must be > 0'';
          ceiling_e = ceiling_errors kpath (''must be > 0 '' @ em_dash @ '' omit the field to leave this key unlimited'')
            (rk_rpm rk) (rk_tpm rk) (rk_max_concurrency rk);
          (keys, value_e) =
            (case resolve_secret files env (rk_value rk) of
               Inr secret \<Rightarrow>
                 ([\<lparr>ak_name = rk_name rk, ak_secret = secret, ak_weight = rk_weight rk, ak_models = rk_models rk,
                    ak_tenant = rk_tenant rk,
                    ak_rpm = or_else (rk_rpm rk) (Option.bind defaults kl_rpm),
                    ak_tpm = or_else (rk_tpm rk) (Option.bind defaults kl_tpm),
                    ak_max_concurrency = or_else (rk_max_concurrency rk) (Option.bind defaults kl_max_concurrency),
                    ak_source_path = Option.bind (strip_prefix ''file:'' (rk_value rk))
                      (\<lambda>p. if p = [] then None else Some p)\<rparr>], [])
             | Inl msg \<Rightarrow> ([], [ce_new (kpath @ ''.value'') msg]))
      in (seen, keys, name_e @ weight_e @ ceiling_e @ value_e))"

section \<open>One provider\<close>

definition provider_auth :: "preset option \<Rightarrow> raw_provider \<Rightarrow> string \<Rightarrow> auth_mode checked" where
  "provider_auth known rp path =
     (case rw_auth rp of
        None \<Rightarrow>
          (if (case known of None \<Rightarrow> False | Some p \<Rightarrow> ps_keyless_ok p) \<and> rw_keys rp = [] then AuthNone else AuthKey, [])
      | Some auth \<Rightarrow>
          if auth = ''none'' then (AuthNone, [])
          else if auth = ''bearer'' \<or> auth = ''key'' then (AuthKey, [])
          else (AuthKey, [ce_new (path @ ''.auth'')
                 (''unknown auth mode '' @ tick auth @ '' (expected `bearer` or `none`)'')]))"

definition only_for :: "bool \<Rightarrow> bool \<Rightarrow> string \<Rightarrow> string \<Rightarrow> string \<Rightarrow> config_error list" where
  "only_for is_set is_kind path field kind_name =
     fail_if (is_set \<and> \<not> is_kind) (path @ ''.'' @ field) (''only valid for the '' @ kind_name @ '' provider'')"

definition final_base_url ::
    "provider_kind \<Rightarrow> string option \<Rightarrow> azure_settings option \<Rightarrow> bedrock_settings option \<Rightarrow> vertex_settings option \<Rightarrow>
       string option" where
  "final_base_url kind base_url azure bedrock vertex =
     (case (kind, azure, bedrock, vertex) of
        (Azure, Some a, _, _) \<Rightarrow> Some (az_endpoint a)
      | (Bedrock, _, Some b, _) \<Rightarrow>
          or_else base_url (Some (''https://bedrock-runtime.'' @ bk_region b @ ''.amazonaws.com''))
      | (Vertex, _, _, Some v) \<Rightarrow>
          or_else base_url (Some
            (if vx_location v = ''global'' then ''https://aiplatform.googleapis.com''
             else ''https://'' @ vx_location v @ ''-aiplatform.googleapis.com''))
      | (ClaudeSubscription, _) \<Rightarrow> or_else base_url (Some ''https://api.anthropic.com'')
      | (CodexSubscription, _) \<Rightarrow> or_else base_url (Some ''https://chatgpt.com'')
      | _ \<Rightarrow> base_url)"

text \<open>The provider of a kind, with every error found.\<close>

definition provider_of_kind ::
    "file_system \<Rightarrow> env \<Rightarrow> preset option \<Rightarrow> provider_kind \<Rightarrow> raw_provider \<Rightarrow> string \<Rightarrow> provider checked" where
  "provider_of_kind files env known kind rp path =
     (let base_url = or_else (rw_base_url rp) (Option.bind known ps_base_url);
          url_e = fail_if (kind = OpenAiCompat \<and> base_url = None) (path @ ''.base_url'') ''required for openai_compat providers''
            @ fail_if (case base_url of None \<Rightarrow> False | Some url \<Rightarrow> \<not> is_http url) (path @ ''.base_url'')
                ''must start with http:// or https://'';
          (auth, auth_e) = provider_auth known rp path;
          keys_e = fail_if (auth = AuthKey \<and> rw_keys rp = []) (path @ ''.keys'')
            (''at least one key is required (or set `auth = '' @ quoted ''none'' @ ''` for keyless servers)'');
          defaults = rw_key_limits rp;
          limits_e = (case defaults of None \<Rightarrow> []
            | Some limits \<Rightarrow> ceiling_errors (path @ ''.key_limits'')
                (''must be > 0 '' @ em_dash @ '' omit the field to leave keys unlimited'')
                (kl_rpm limits) (kl_tpm limits) (kl_max_concurrency limits));
          (keys, key_e) = check_fold (validate_key files env path defaults) 0 [] (rw_keys rp);
          bounds_e = fail_if (rw_max_concurrency rp = 0) (path @ ''.max_concurrency'') ''must be > 0''
            @ fail_if (rw_timeout_secs rp = 0) (path @ ''.timeout_secs'') ''must be > 0'';
          (azure, azure_e) = validate_azure kind rp path;
          azure_only_e = only_for (rw_endpoint rp \<noteq> None) (kind = Azure) path ''endpoint'' ''azure''
            @ only_for (rw_api_version rp \<noteq> None) (kind = Azure) path ''api_version'' ''azure''
            @ only_for (rw_deployments rp \<noteq> []) (kind = Azure) path ''deployments'' ''azure'';
          (bedrock, bedrock_e) = validate_bedrock files env kind rp path;
          (vertex, vertex_e) = validate_vertex kind rp path;
          other_only_e = only_for (rw_project rp \<noteq> None) (kind = Vertex) path ''project'' ''vertex''
            @ only_for (rw_location rp \<noteq> None) (kind = Vertex) path ''location'' ''vertex''
            @ only_for (rw_region rp \<noteq> None) (kind = Bedrock) path ''region'' ''bedrock''
            @ only_for (rw_access_key_id rp \<noteq> None) (kind = Bedrock) path ''access_key_id'' ''bedrock'';
          (codex, codex_e) = validate_codex kind rp path
      in (\<lparr>pv_kind = kind, pv_base_url = final_base_url kind base_url azure bedrock vertex, pv_auth = auth,
           pv_keys = keys, pv_max_concurrency = rw_max_concurrency rp, pv_timeout_secs = rw_timeout_secs rp,
           pv_azure = azure, pv_bedrock = bedrock, pv_vertex = vertex, pv_codex = codex\<rparr>,
          url_e @ auth_e @ keys_e @ limits_e @ key_e @ bounds_e @ azure_e @ azure_only_e
          @ bedrock_e @ vertex_e @ other_only_e @ codex_e))"

definition validate_provider :: "file_system \<Rightarrow> env \<Rightarrow> string \<Rightarrow> raw_provider \<Rightarrow> string \<Rightarrow> provider option checked" where
  "validate_provider files env name rp path =
     (case provider_kind_of name rp path of
        (None, kind_e) \<Rightarrow> (None, kind_e)
      | (Some kind, kind_e) \<Rightarrow>
          (let (p, es) = provider_of_kind files env (preset_of name) kind rp path; es = kind_e @ es
           in (if es = [] then Some p else None, es)))"

definition validate_providers :: "file_system \<Rightarrow> env \<Rightarrow> raw_config \<Rightarrow> (string \<times> provider) list checked" where
  "validate_providers files env raw =
     check_each (\<lambda>_ (name, rp).
       (let (p, es) = validate_provider files env name rp (''providers.'' @ name)
        in (case p of None \<Rightarrow> [] | Some p \<Rightarrow> [(name, p)], es))) 0 (rg_providers raw)"

end
