(* ===== verification/Config_Routing.thy ===== *)
theory Config_Routing
  imports Config_Providers
begin

text \<open>
  The routing sections of \<open>crates/router-core/src/config/validate.rs\<close>: alias chains and their cycle
  check, fallback chains, routing groups.
\<close>

section \<open>Aliases\<close>

text \<open>
  \<open>resolve_alias\<close>; the outer \<open>None\<close> is the panic of \<open>expect\<close> on a name that is no alias. The set of
  seen names only grows, within the names of the table.
\<close>

function resolve_alias :: "(string \<times> string) list \<Rightarrow> string \<Rightarrow> string set \<Rightarrow> (string + string) option" where
  "resolve_alias aliases name seen =
     (if name \<in> seen then Some (Inl (''alias cycle involving '' @ tick name))
      else case map_of aliases name of
        None \<Rightarrow> None
      | Some target \<Rightarrow>
          if map_of aliases target \<noteq> None then resolve_alias aliases target (insert name seen)
          else Some (Inr target))"
  by pat_completeness auto

text \<open>Every turn uses up one name of the table.\<close>

termination resolve_alias
proof (relation "measure (\<lambda>(aliases, name, seen). card (fst ` set aliases - seen))")
  fix aliases :: "(string \<times> string) list" and name seen target
  assume "name \<notin> seen" "map_of aliases name = Some target"
  then have "fst ` set aliases - insert name seen \<subset> fst ` set aliases - seen"
    by (force dest: map_of_SomeD)
  then have "card (fst ` set aliases - insert name seen) < card (fst ` set aliases - seen)"
    by (intro psubset_card_mono) simp_all
  then show "((aliases, target, insert name seen), (aliases, name, seen))
      \<in> measure (\<lambda>(aliases, name, seen). card (fst ` set aliases - seen))"
    by (simp only: in_measure prod.case)
qed simp

declare resolve_alias.simps [simp del]

definition validate_alias ::
    "raw_config \<Rightarrow> (string \<times> provider) list \<Rightarrow> string \<Rightarrow> (string \<times> target_model) list checked" where
  "validate_alias raw providers name =
     (let path = ''aliases.'' @ name in
      if map_of (rg_providers raw) name \<noteq> None
      then ([], [ce_new path ''alias name collides with a provider name''])
      else case resolve_alias (rg_aliases raw) name {} of
        Some (Inr target_str) \<Rightarrow>
          (case tg_parse target_str of
             Some target \<Rightarrow>
               if map_of providers (tg_provider target) \<noteq> None \<or> map_of (rg_providers raw) (tg_provider target) \<noteq> None
               then ([(name, target)], [])
               else ([], [ce_new path (''unknown provider '' @ tick (tg_provider target) @ '' in target '' @ tick target_str)])
           | None \<Rightarrow> ([], [ce_new path (''target '' @ tick target_str @ '' is not `provider/model` or another alias'')]))
      | Some (Inl msg) \<Rightarrow> ([], [ce_new path msg])
      | None \<Rightarrow> ([], []))"

definition validate_aliases :: "raw_config \<Rightarrow> (string \<times> provider) list \<Rightarrow> (string \<times> target_model) list checked" where
  "validate_aliases raw providers =
     check_each (\<lambda>_ entry. validate_alias raw providers (fst entry)) 0 (rg_aliases raw)"

section \<open>References to targets\<close>

definition resolve_target_ref ::
    "raw_config \<Rightarrow> (string \<times> provider) list \<Rightarrow> (string \<times> target_model) list \<Rightarrow> string \<Rightarrow> string \<Rightarrow>
       target_model option checked" where
  "resolve_target_ref raw providers aliases s path =
     (case map_of aliases s of
        Some target \<Rightarrow> (Some target, [])
      | None \<Rightarrow>
          (case tg_parse s of
             Some t \<Rightarrow>
               if map_of providers (tg_provider t) \<noteq> None \<or> map_of (rg_providers raw) (tg_provider t) \<noteq> None
               then (Some t, [])
               else (None, [ce_new path (''unknown provider '' @ tick (tg_provider t))])
           | None \<Rightarrow> (None, [ce_new path (tick s @ '' is not `provider/model` or a defined alias'')])))"

section \<open>Fallback chains\<close>

definition validate_fallback ::
    "raw_config \<Rightarrow> (string \<times> provider) list \<Rightarrow> (string \<times> target_model) list \<Rightarrow> string \<times> string list \<Rightarrow>
       (target_model \<times> target_model list) list checked" where
  "validate_fallback raw providers aliases entry =
     (let (src, chain) = entry; path = ''fallbacks.'' @ src;
          (resolved, src_e) = resolve_target_ref raw providers aliases src path
      in case resolved of
           None \<Rightarrow> ([], src_e)
         | Some src_target \<Rightarrow>
             if chain = [] then ([], src_e @ [ce_new path ''fallback chain must not be empty''])
             else
               let (targets, es) = check_each (\<lambda>i e.
                     let epath = path @ at_index i; (t, e_e) = resolve_target_ref raw providers aliases e epath
                     in case t of
                          None \<Rightarrow> ([], e_e)
                        | Some t \<Rightarrow> if t = src_target
                            then ([], e_e @ [ce_new epath ''fallback target equals its own source''])
                            else ([t], e_e)) 0 chain
               in ([(src_target, targets)], src_e @ es))"

text \<open>\<open>BTreeMap::insert\<close>: a later entry for the same source replaces the earlier one.\<close>

definition insert_all :: "('k \<times> 'v) list \<Rightarrow> 'k \<rightharpoonup> 'v" where
  "insert_all kvs = foldl (\<lambda>m (k, v). m(k \<mapsto> v)) Map.empty kvs"

definition validate_fallbacks ::
    "raw_config \<Rightarrow> (string \<times> provider) list \<Rightarrow> (string \<times> target_model) list \<Rightarrow>
       (target_model \<rightharpoonup> target_model list) checked" where
  "validate_fallbacks raw providers aliases =
     (let (kvs, es) = check_each (\<lambda>_. validate_fallback raw providers aliases) 0 (rg_fallbacks raw)
      in (insert_all kvs, es))"

section \<open>Routing groups\<close>

text \<open>One entry of a pool; the state is the pool so far.\<close>

definition validate_group_target ::
    "raw_config \<Rightarrow> (string \<times> provider) list \<Rightarrow> (string \<times> target_model) list \<Rightarrow> string \<Rightarrow> string \<Rightarrow>
       nat \<Rightarrow> weighted_target list \<Rightarrow> raw_group_target \<Rightarrow> weighted_target list \<times> weighted_target list checked" where
  "validate_group_target raw providers aliases path label i pool entry =
     (let epath = path @ ''.'' @ label @ at_index i in
      if \<not> (f64_is_finite (gt_weight entry) \<and> f64_pos (gt_weight entry))
      then (pool, [], [ce_new (epath @ ''.weight'') ''must be a finite number > 0''])
      else if map_of (rg_groups raw) (gt_target entry) \<noteq> None
      then (pool, [], [ce_new (epath @ ''.target'')
             (tick (gt_target entry) @ '' is a routing group; a group's targets must be models'')])
      else
        let (t, es) = resolve_target_ref raw providers aliases (gt_target entry) (epath @ ''.target'')
        in case t of
             None \<Rightarrow> (pool, [], es)
           | Some t \<Rightarrow>
               if list_ex (\<lambda>w. wt_target w = t) pool
               then (pool, [], es @ [ce_new (epath @ ''.target'')
                      (tick (tg_display t) @ '' is already in this group's '' @ label @ '' pool'')])
               else let w = \<lparr>wt_target = t, wt_weight = gt_weight entry\<rparr> in (pool @ [w], [w], es))"

definition validate_pool ::
    "raw_config \<Rightarrow> (string \<times> provider) list \<Rightarrow> (string \<times> target_model) list \<Rightarrow> string \<Rightarrow> string \<Rightarrow>
       raw_group_target list \<Rightarrow> weighted_target list checked" where
  "validate_pool raw providers aliases path label entries =
     check_fold (validate_group_target raw providers aliases path label) 0 [] entries"

definition validate_group ::
    "raw_config \<Rightarrow> (string \<times> provider) list \<Rightarrow> (string \<times> target_model) list \<Rightarrow> string \<times> raw_group \<Rightarrow>
       (string \<times> routing_group) list checked" where
  "validate_group raw providers aliases entry =
     (let (name, group) = entry; path = ''groups.'' @ name in
      if name = [] then ([], [ce_new path ''group name must not be empty''])
      else if map_of (rg_providers raw) name \<noteq> None
      then ([], [ce_new path ''group name collides with a provider name''])
      else if map_of aliases name \<noteq> None
      then ([], [ce_new path ''group name collides with an alias; delete the alias or rename the group''])
      else if gp_primary group = []
      then ([], [ce_new (path @ ''.primary'') ''a group needs at least one primary model''])
      else
        let (primary, primary_e) = validate_pool raw providers aliases path ''primary'' (gp_primary group);
            (fallback, fallback_e) = validate_pool raw providers aliases path ''fallback'' (gp_fallback group)
        in (if primary = [] then [] else [(name, \<lparr>rg_primary = primary, rg_fallback = fallback\<rparr>)],
            primary_e @ fallback_e))"

definition validate_groups ::
    "raw_config \<Rightarrow> (string \<times> provider) list \<Rightarrow> (string \<times> target_model) list \<Rightarrow> (string \<times> routing_group) list checked" where
  "validate_groups raw providers aliases =
     check_each (\<lambda>_. validate_group raw providers aliases) 0 (rg_groups raw)"

section \<open>The document\<close>

definition validate_config :: "file_system \<Rightarrow> env \<Rightarrow> raw_config \<Rightarrow> config_error list + config" where
  "validate_config files env raw =
     (let (tenants, tenants_e) = validate_tenants raw;
          (server, server_e) = validate_server files env raw tenants;
          (providers, providers_e) = validate_providers files env raw;
          (aliases, aliases_e) = validate_aliases raw providers;
          (fallbacks, fallbacks_e) = validate_fallbacks raw providers aliases;
          (groups, groups_e) = validate_groups raw providers aliases;
          (reliability, reliability_e) = validate_reliability raw;
          account_e = validate_account_tenants raw tenants;
          (virtual_keys, keys_e) = validate_virtual_keys raw providers aliases groups tenants;
          (console, console_e) = validate_console files env raw;
          (store, store_e) = validate_store raw;
          (usage, usage_e) = validate_usage raw;
          (pricing, pricing_e) = validate_pricing raw;
          errors = tenants_e @ server_e @ providers_e @ aliases_e @ fallbacks_e @ groups_e @ reliability_e
            @ account_e @ keys_e @ console_e @ store_e @ usage_e @ pricing_e
      in if errors = []
         then Inr \<lparr>cf_server = server, cf_providers = providers, cf_aliases = map_of aliases,
           cf_fallbacks = fallbacks, cf_groups = map_of groups, cf_reliability = reliability,
           cf_tenants = set tenants, cf_virtual_keys = virtual_keys, cf_console = console,
           cf_store = store, cf_usage = usage, cf_pricing = map_of pricing\<rparr>
         else Inl errors)"

section \<open>Loading\<close>

text \<open>\<open>Config::from_str_with_env\<close>; the TOML and JSON parsers are parameters.\<close>

datatype load_error = Parse string | Invalid "config_error list"

definition format_errors :: "config_error list \<Rightarrow> string" where
  "format_errors errors = join [LF] (map (\<lambda>e. ''  - '' @ ce_path e @ '': '' @ ce_message e) errors)"

definition from_str_with_env ::
    "(string \<Rightarrow> string + raw_config) \<Rightarrow> file_system \<Rightarrow> env \<Rightarrow> string \<Rightarrow> load_error + config" where
  "from_str_with_env parse files env text =
     (case parse text of
        Inl e \<Rightarrow> Inl (Parse e)
      | Inr raw \<Rightarrow> (case validate_config files env raw of Inl es \<Rightarrow> Inl (Invalid es) | Inr cfg \<Rightarrow> Inr cfg))"

definition discovery_section :: "string \<Rightarrow> string \<Rightarrow> string" where
  "discovery_section name var =
     ''[providers.'' @ name @ '']'' @ [LF] @ ''keys = [{ name = '' @ quoted ''default'' @ '', value = ''
     @ quoted (''env.'' @ var) @ '' }]'' @ [LF, LF]"

text \<open>The document of zero-config startup.\<close>

definition discovery_doc :: "env \<Rightarrow> string" where
  "discovery_doc env =
     concat (map (\<lambda>name.
       (case Option.bind (preset_of name) ps_discovery_env of
          None \<Rightarrow> []
        | Some var \<Rightarrow>
            (case env var of
               Some v \<Rightarrow> if v \<noteq> [] then discovery_section name var else []
             | None \<Rightarrow> []))) DISCOVERY_ORDER)
     @ (case (env ''DATABRICKS_HOST'', env ''DATABRICKS_TOKEN'') of
          (Some host, Some _) \<Rightarrow>
            ''[providers.databricks]'' @ [LF] @ ''base_url = ''
            @ quoted (rev (dropWhile (\<lambda>c. c = CHR ''/'') (rev host)) @ ''/serving-endpoints'') @ [LF]
            @ ''keys = [{ name = '' @ quoted ''default'' @ '', value = '' @ quoted ''env.DATABRICKS_TOKEN'' @ '' }]'' @ [LF, LF]
        | _ \<Rightarrow> [])"

text \<open>\<open>discover_from_env\<close>; \<open>Some (Inl e)\<close> is the panic of \<open>expect\<close>.\<close>

definition discover_from_env ::
    "(string \<Rightarrow> string + raw_config) \<Rightarrow> file_system \<Rightarrow> env \<Rightarrow> (load_error + config) option" where
  "discover_from_env parse files env =
     (let doc = discovery_doc env in if doc = [] then None else Some (from_str_with_env parse files env doc))"

section \<open>The alias chase\<close>

text \<open>The names an alias leads through, \<open>n\<close> links on.\<close>

primrec alias_link :: "(string \<times> string) list \<Rightarrow> nat \<Rightarrow> string \<Rightarrow> string option" where
  "alias_link aliases 0 name = Some name"
| "alias_link aliases (Suc n) name = Option.bind (map_of aliases name) (alias_link aliases n)"

lemma resolve_alias_total:
  "map_of aliases name \<noteq> None \<Longrightarrow> resolve_alias aliases name seen \<noteq> None"
  by (induction aliases name seen rule: resolve_alias.induct)
    (subst resolve_alias.simps, auto split: option.splits)

lemma resolve_alias_Inr:
  "resolve_alias aliases name seen = Some (Inr t) \<Longrightarrow>
     \<exists>n>0. alias_link aliases n name = Some t \<and> map_of aliases t = None"
proof (induction aliases name seen rule: resolve_alias.induct)
  case (1 aliases name seen)
  from 1(2) obtain target where new: "name \<notin> seen" and target: "map_of aliases name = Some target"
    by (subst (asm) resolve_alias.simps) (auto split: if_splits option.splits)
  show ?case
  proof (cases "map_of aliases target")
    case None
    with 1(2) new target have "t = target" by (subst (asm) resolve_alias.simps) simp
    with None target show ?thesis by (intro exI [of _ "Suc 0"]) simp
  next
    case (Some u)
    with 1(2) new target have "resolve_alias aliases target (insert name seen) = Some (Inr t)"
      by (subst (asm) resolve_alias.simps) simp
    with 1(1) [OF new target] Some obtain n where "alias_link aliases n target = Some t" "map_of aliases t = None"
      by auto
    with target show ?thesis by (intro exI [of _ "Suc n"]) simp
  qed
qed

text \<open>Within a set of names that the links do not leave, the chain never ends.\<close>

lemma alias_link_closed:
  assumes "\<forall>s \<in> S. \<exists>t \<in> S. map_of aliases s = Some t" "name \<in> S"
  shows "alias_link aliases n name \<noteq> None"
  using assms(2)
proof (induction n arbitrary: name)
  case (Suc n)
  with assms(1) show ?case by fastforce
qed simp

lemma resolve_alias_Inl:
  assumes "resolve_alias aliases name seen = Some (Inl e)"
    and "\<forall>s \<in> seen. \<exists>t \<in> insert name seen. map_of aliases s = Some t"
  shows "\<exists>S. insert name seen \<subseteq> S \<and> (\<forall>s \<in> S. \<exists>t \<in> S. map_of aliases s = Some t)"
  using assms
proof (induction aliases name seen rule: resolve_alias.induct)
  case (1 aliases name seen)
  show ?case
  proof (cases "name \<in> seen")
    case True
    with 1(3) show ?thesis by (intro exI [of _ seen]) (auto simp: insert_absorb)
  next
    case False
    with 1(2) obtain target where target: "map_of aliases name = Some target" "map_of aliases target \<noteq> None"
      and rest: "resolve_alias aliases target (insert name seen) = Some (Inl e)"
      by (subst (asm) resolve_alias.simps) (auto split: if_splits option.splits)
    have "\<forall>s \<in> insert name seen. \<exists>t \<in> insert target (insert name seen). map_of aliases s = Some t"
      using 1(3) target(1) by blast
    from 1(1) [OF False target(1) target(2) rest this] show ?thesis by auto
  qed
qed

text \<open>
  Chasing an alias always ends, for any table, however its names refer to each other. It
  answers with the last name of the chain, the first that is no alias, or reports a cycle, and it
  reports one only if the chain never ends.
\<close>

theorem alias_chase_ends:
  assumes "map_of aliases name \<noteq> None"
  shows "\<exists>r. resolve_alias aliases name {} = Some r \<and>
    (case r of
       Inr t \<Rightarrow> \<exists>n>0. alias_link aliases n name = Some t \<and> map_of aliases t = None
     | Inl e \<Rightarrow> \<forall>n. alias_link aliases n name \<noteq> None)"
proof -
  obtain r where r: "resolve_alias aliases name {} = Some r"
    using resolve_alias_total [OF assms] by blast
  show ?thesis
  proof (cases r)
    case (Inl e)
    with resolve_alias_Inl [of aliases name "{}" e] r obtain S where
      "name \<in> S" "\<forall>s \<in> S. \<exists>t \<in> S. map_of aliases s = Some t" by auto
    with alias_link_closed have "\<forall>n. alias_link aliases n name \<noteq> None" by blast
    with r Inl show ?thesis by simp
  next
    case (Inr t)
    with r resolve_alias_Inr [of aliases name "{}" t] show ?thesis by simp
  qed
qed

theorem alias_chase_ends_witness:
  "(\<exists>r. resolve_alias [(''a'', ''b''), (''b'', ''a'')] ''a'' {} = Some r)
     \<and> alias_link [(''a'', ''b''), (''b'', ''a'')] 3 ''a'' = Some ''b''"
  using alias_chase_ends [of "[(''a'', ''b''), (''b'', ''a'')]" "''a''"] by (auto simp: numeral_3_eq_3)

end
