(* ===== verification/Config_Validate.thy ===== *)
theory Config_Validate
  imports Config_Routing
begin

text \<open>
  What a configuration that passed validation promises to the code that runs on it: sound providers,
  no reference to anything unconfigured, no undeclared service, distinct virtual keys.
\<close>

section \<open>The promises\<close>

definition weight_ok :: "f64 \<Rightarrow> bool" where
  "weight_ok w \<longleftrightarrow> f64_is_finite w \<and> f64_pos w"

definition api_key_ok :: "api_key \<Rightarrow> bool" where
  "api_key_ok k \<longleftrightarrow> ak_name k \<noteq> [] \<and> ak_secret k \<noteq> [] \<and> weight_ok (ak_weight k)
     \<and> ak_rpm k \<noteq> Some 0 \<and> ak_tpm k \<noteq> Some 0 \<and> ak_max_concurrency k \<noteq> Some 0"

definition provider_ok :: "provider \<Rightarrow> bool" where
  "provider_ok p \<longleftrightarrow> 0 < pv_max_concurrency p \<and> pv_timeout_secs p \<noteq> 0
     \<and> (case pv_base_url p of None \<Rightarrow> False | Some url \<Rightarrow> is_http url)
     \<and> (pv_auth p = AuthKey \<longrightarrow> pv_keys p \<noteq> [])
     \<and> distinct (map ak_name (pv_keys p)) \<and> (\<forall>k \<in> set (pv_keys p). api_key_ok k)"

definition target_ok :: "(string \<times> provider) list \<Rightarrow> target_model \<Rightarrow> bool" where
  "target_ok providers t \<longleftrightarrow> map_of providers (tg_provider t) \<noteq> None"

definition pool_ok :: "(string \<times> provider) list \<Rightarrow> weighted_target list \<Rightarrow> bool" where
  "pool_ok providers pool \<longleftrightarrow> distinct (map wt_target pool)
     \<and> (\<forall>w \<in> set pool. target_ok providers (wt_target w) \<and> weight_ok (wt_weight w))"

definition tenant_ok :: "string set \<Rightarrow> string option \<Rightarrow> bool" where
  "tenant_ok tenants t \<longleftrightarrow> (case t of None \<Rightarrow> True | Some t \<Rightarrow> t \<in> tenants)"

definition config_ok :: "config \<Rightarrow> bool" where
  "config_ok cfg \<longleftrightarrow>
     (\<forall>(name, p) \<in> set (cf_providers cfg). provider_ok p \<and> (\<forall>k \<in> set (pv_keys p). tenant_ok (cf_tenants cfg) (ak_tenant k)))
   \<and> (\<forall>name t. cf_aliases cfg name = Some t \<longrightarrow> target_ok (cf_providers cfg) t)
   \<and> (\<forall>s ts. cf_fallbacks cfg s = Some ts \<longrightarrow>
        ts \<noteq> [] \<and> s \<notin> set ts \<and> target_ok (cf_providers cfg) s \<and> (\<forall>t \<in> set ts. target_ok (cf_providers cfg) t))
   \<and> (\<forall>name g. cf_groups cfg name = Some g \<longrightarrow>
        rg_primary g \<noteq> [] \<and> pool_ok (cf_providers cfg) (rg_primary g) \<and> pool_ok (cf_providers cfg) (rg_fallback g)
        \<and> cf_aliases cfg name = None \<and> map_of (cf_providers cfg) name = None)
   \<and> (\<forall>k \<in> set (sv_auth_keys (cf_server cfg)). sk_secret k \<noteq> [] \<and> tenant_ok (cf_tenants cfg) (sk_tenant k))
   \<and> distinct (map vd_id (cf_virtual_keys cfg))
   \<and> (\<forall>d \<in> set (cf_virtual_keys cfg). valid_key_id (vd_id d) \<and> valid_secret_hash (vd_secret_hash d)
        \<and> tenant_ok (cf_tenants cfg) (vd_tenant d))"

section \<open>Providers\<close>

lemma ceiling_errors_Nil:
  "ceiling_errors path msg rpm tpm mc = [] \<longleftrightarrow> rpm \<noteq> Some 0 \<and> tpm \<noteq> Some 0 \<and> mc \<noteq> Some 0"
  by (simp add: ceiling_errors_def)

lemma or_else_Some [simp]: "or_else a b = Some z \<longleftrightarrow> a = Some z \<or> a = None \<and> b = Some z"
  by (auto simp: or_else_def split: option.splits)

definition limits_ok :: "raw_key_limits option \<Rightarrow> bool" where
  "limits_ok d \<longleftrightarrow> Option.bind d kl_rpm \<noteq> Some 0 \<and> Option.bind d kl_tpm \<noteq> Some 0
     \<and> Option.bind d kl_max_concurrency \<noteq> Some 0"

lemma validate_key_ok:
  assumes "validate_key files env path d i seen rk = (seen', ks, [])" "limits_ok d"
  shows "\<exists>k. ks = [k] \<and> api_key_ok k \<and> ak_name k = rk_name rk \<and> ak_tenant k = rk_tenant rk
    \<and> rk_name rk \<notin> set seen \<and> seen' = rk_name rk # seen"
proof -
  from assms(1) have
    e: "rk_name rk \<noteq> []" "rk_name rk \<notin> set seen" "seen' = rk_name rk # seen"
      "weight_ok (rk_weight rk)" "rk_rpm rk \<noteq> Some 0" "rk_tpm rk \<noteq> Some 0" "rk_max_concurrency rk \<noteq> Some 0"
    by (auto simp: validate_key_def Let_def ceiling_errors_Nil weight_ok_def split: if_splits sum.splits)
  from assms(1) obtain secret where "resolve_secret files env (rk_value rk) = Inr secret"
    by (auto simp: validate_key_def Let_def split: if_splits sum.splits)
  with e assms resolve_secret_nonempty [OF this] show ?thesis
    by (auto simp: validate_key_def Let_def limits_ok_def api_key_ok_def)
qed

lemma validate_keys_ok:
  assumes "limits_ok d" "snd (check_fold (validate_key files env path d) i seen rks) = []"
  shows "let ks = fst (check_fold (validate_key files env path d) i seen rks) in
    distinct (map rk_name rks) \<and> rk_name ` set rks \<inter> set seen = {} \<and> (\<forall>k \<in> set ks. api_key_ok k)
    \<and> map ak_name ks = map rk_name rks \<and> map ak_tenant ks = map rk_tenant rks"
  using assms(2)
proof (induction rks arbitrary: i seen)
  case (Cons rk rks)
  obtain seen' ks es where step: "validate_key files env path d i seen rk = (seen', ks, es)" by (metis prod_cases3)
  with Cons.prems have "validate_key files env path d i seen rk = (seen', ks, [])" by simp
  from validate_key_ok [OF this assms(1)] obtain k where
    k: "ks = [k]" "api_key_ok k" "ak_name k = rk_name rk" "ak_tenant k = rk_tenant rk" "rk_name rk \<notin> set seen"
      "seen' = rk_name rk # seen" by blast
  from Cons.IH [of "Suc i" seen'] Cons.prems step k show ?case by (auto simp: Let_def)
qed simp

lemma validate_azure_ok:
  "validate_azure Azure rp path = (a, []) \<Longrightarrow> \<exists>s. a = Some s \<and> is_http (az_endpoint s)"
  by (auto simp: validate_azure_def Let_def split: option.splits if_splits)

lemma validate_bedrock_ok: "validate_bedrock files env Bedrock rp path = (b, []) \<Longrightarrow> b \<noteq> None"
  by (auto simp: validate_bedrock_def Let_def split: option.splits if_splits sum.splits)

lemma validate_vertex_ok: "validate_vertex Vertex rp path = (v, []) \<Longrightarrow> v \<noteq> None"
  by (auto simp: validate_vertex_def Let_def split: option.splits if_splits)

lemma is_http_literals:
  "is_http (''https://bedrock-runtime.'' @ s)" "is_http (''https://'' @ s)"
  by (auto simp: is_http_def starts_with_append)

lemma kind_has_url:
  assumes "provider_kind_of name rp path = (Some kind, [])"
    and "kind \<notin> {Azure, Bedrock, Vertex, OpenAiCompat, ClaudeSubscription, CodexSubscription}"
  shows "\<exists>p url. preset_of name = Some p \<and> ps_base_url p = Some url"
  using assms preset_without_url [of name]
  by (cases "preset_of name") (fastforce simp: provider_kind_of_def split: option.splits if_splits)+

lemma provider_of_kind_url:
  assumes kind: "provider_kind_of name rp path = (Some kind, [])"
    and run: "provider_of_kind files env (preset_of name) kind rp path = (p, [])"
  shows "case pv_base_url p of None \<Rightarrow> False | Some url \<Rightarrow> is_http url"
proof -
  define base where "base = or_else (rw_base_url rp) (Option.bind (preset_of name) ps_base_url)"
  obtain azure bedrock vertex where
    a: "validate_azure kind rp path = (azure, [])" and b: "validate_bedrock files env kind rp path = (bedrock, [])"
    and v: "validate_vertex kind rp path = (vertex, [])"
    and url: "pv_base_url p = final_base_url kind base azure bedrock vertex"
    and compat: "kind = OpenAiCompat \<longrightarrow> base \<noteq> None"
    and no_bad: "\<not> (case base of None \<Rightarrow> False | Some url \<Rightarrow> \<not> is_http url)"
    using run by (auto simp: provider_of_kind_def Let_def base_def split: prod.splits)
  have http: "is_http u" if "base = Some u" for u using no_bad that by simp
  have base: "base \<noteq> None" if "kind \<notin> {Azure, Bedrock, Vertex, ClaudeSubscription, CodexSubscription}"
    using compat kind_has_url [OF kind] that by (cases "kind = OpenAiCompat") (auto simp: base_def)
  have or_http: "\<exists>u. or_else base (Some d) = Some u \<and> is_http u" if "is_http d" for d
    using http that by (cases base) auto
  have "\<exists>u. final_base_url kind base azure bedrock vertex = Some u \<and> is_http u"
  proof (cases kind)
    case Azure
    with a validate_azure_ok show ?thesis by (fastforce simp: final_base_url_def)
  next
    case Bedrock
    with b validate_bedrock_ok obtain s where "bedrock = Some s" by blast
    with Bedrock or_http is_http_literals(1) show ?thesis by (auto simp: final_base_url_def)
  next
    case Vertex
    with v validate_vertex_ok obtain s where "vertex = Some s" by blast
    moreover have "is_http ''https://aiplatform.googleapis.com''"
      "is_http (''https://'' @ vx_location s @ ''-aiplatform.googleapis.com'')"
      using is_http_literals(2) [of "''aiplatform.googleapis.com''"] is_http_literals(2) by auto
    ultimately show ?thesis using Vertex or_http by (auto simp: final_base_url_def)
  next
    case ClaudeSubscription
    then show ?thesis using or_http is_http_literals(2) [of "''api.anthropic.com''"] by (simp add: final_base_url_def)
  next
    case CodexSubscription
    then show ?thesis using or_http is_http_literals(2) [of "''chatgpt.com''"] by (simp add: final_base_url_def)
  qed (use base http in \<open>auto simp: final_base_url_def\<close>)
  with url show ?thesis by auto
qed

lemma provider_of_kind_ok:
  assumes run: "provider_of_kind files env known kind rp path = (p, [])"
  shows "0 < pv_max_concurrency p" "pv_timeout_secs p \<noteq> 0" "pv_auth p = AuthKey \<longrightarrow> pv_keys p \<noteq> []"
    "distinct (map ak_name (pv_keys p))" "\<forall>k \<in> set (pv_keys p). api_key_ok k"
    "map ak_tenant (pv_keys p) = map rk_tenant (rw_keys rp)"
proof -
  let ?keys = "check_fold (validate_key files env path (rw_key_limits rp)) 0 [] (rw_keys rp)"
  from run have keys: "pv_keys p = fst ?keys" "snd ?keys = []" and limits: "limits_ok (rw_key_limits rp)"
    and rest: "0 < rw_max_concurrency rp" "rw_timeout_secs rp \<noteq> 0" "pv_max_concurrency p = rw_max_concurrency rp"
      "pv_timeout_secs p = rw_timeout_secs rp" "pv_auth p = AuthKey \<longrightarrow> rw_keys rp \<noteq> []"
    by (auto simp: provider_of_kind_def Let_def limits_ok_def ceiling_errors_Nil split: prod.splits option.splits)
  from validate_keys_ok [OF limits keys(2)] keys(1) have
    ks: "distinct (map ak_name (pv_keys p))" "\<forall>k \<in> set (pv_keys p). api_key_ok k"
      "map ak_name (pv_keys p) = map rk_name (rw_keys rp)" "map ak_tenant (pv_keys p) = map rk_tenant (rw_keys rp)"
    by (simp_all add: Let_def)
  from ks show "distinct (map ak_name (pv_keys p))" "\<forall>k \<in> set (pv_keys p). api_key_ok k"
    "map ak_tenant (pv_keys p) = map rk_tenant (rw_keys rp)" by blast+
  from rest show "0 < pv_max_concurrency p" "pv_timeout_secs p \<noteq> 0" by simp_all
  from ks(3) rest show "pv_auth p = AuthKey \<longrightarrow> pv_keys p \<noteq> []" by auto
qed

lemma validate_provider_ok:
  assumes "validate_provider files env name rp path = (r, [])"
  shows "\<exists>p. r = Some p \<and> provider_ok p \<and> map ak_tenant (pv_keys p) = map rk_tenant (rw_keys rp)"
proof -
  from assms obtain kind where kind: "provider_kind_of name rp path = (Some kind, [])"
    by (auto simp: validate_provider_def provider_kind_of_def Let_def split: prod.splits option.splits if_splits)
  obtain p es where run: "provider_of_kind files env (preset_of name) kind rp path = (p, es)" by fastforce
  with assms kind have "es = []" "r = Some p" by (auto simp: validate_provider_def)
  with run kind provider_of_kind_ok [of files env "preset_of name" kind rp path p] provider_of_kind_url [OF kind]
  show ?thesis by (auto simp: provider_ok_def)
qed


definition providers_sound :: "raw_config \<Rightarrow> (string \<times> provider) list \<Rightarrow> bool" where
  "providers_sound raw providers \<longleftrightarrow> map fst providers = map fst (rg_providers raw)
     \<and> (\<forall>(name, p) \<in> set providers. provider_ok p
          \<and> (\<exists>rp. (name, rp) \<in> set (rg_providers raw) \<and> map ak_tenant (pv_keys p) = map rk_tenant (rw_keys rp)))"

lemma validate_providers_ok:
  assumes "snd (validate_providers files env raw) = []"
  shows "providers_sound raw (fst (validate_providers files env raw))"
proof -
  let ?f = "\<lambda>(_ :: nat) (name, rp).
       (let (p, es) = validate_provider files env name rp (''providers.'' @ name)
        in (case p of None \<Rightarrow> [] | Some p \<Rightarrow> [(name, p)], es))"
  have turn: "\<exists>p. fst (?f j x) = [(fst x, p)] \<and> provider_ok p \<and> map ak_tenant (pv_keys p) = map rk_tenant (rw_keys (snd x))"
    if ok: "snd (?f j x) = []" for j x
  proof -
    obtain r es where run: "validate_provider files env (fst x) (snd x) (''providers.'' @ fst x) = (r, es)" by fastforce
    with ok have "es = []" by (simp add: case_prod_beta)
    with run validate_provider_ok show ?thesis by (fastforce simp: case_prod_beta)
  qed
  have names: "map fst (fst (check_each ?f 0 (rg_providers raw))) = map fst (rg_providers raw)"
    using assms turn by (intro check_each_map) (fastforce simp: validate_providers_def)+
  have "provider_ok p \<and> (\<exists>rp. (name, rp) \<in> set (rg_providers raw) \<and> map ak_tenant (pv_keys p) = map rk_tenant (rw_keys rp))"
    if "(name, p) \<in> set (fst (check_each ?f 0 (rg_providers raw)))" for name p
  proof -
    from check_each_ok_value [OF _ that] assms obtain j x where
      "x \<in> set (rg_providers raw)" "snd (?f j x) = []" "(name, p) \<in> set (fst (?f j x))"
      unfolding validate_providers_def by blast
    with turn [of x] show ?thesis by (cases x) auto
  qed
  with names show ?thesis by (auto simp: providers_sound_def validate_providers_def)
qed

lemma providers_sound_known:
  "providers_sound raw providers \<Longrightarrow> map_of (rg_providers raw) name \<noteq> None \<Longrightarrow> map_of providers name \<noteq> None"
  by (simp add: providers_sound_def map_of_eq_None_iff) (metis image_set)

lemma providers_sound_unknown:
  "providers_sound raw providers \<Longrightarrow> map_of (rg_providers raw) name = None \<Longrightarrow> map_of providers name = None"
  by (simp add: providers_sound_def map_of_eq_None_iff) (metis image_set)

lemma check_tenant_Nil: "check_tenant tenants path t = [] \<longleftrightarrow> tenant_ok (set tenants) t"
  by (auto simp: check_tenant_def tenant_ok_def split: option.splits)

lemma account_tenants_ok:
  assumes "validate_account_tenants raw tenants = []" "(name, rp) \<in> set (rg_providers raw)" "k \<in> set (rw_keys rp)"
  shows "tenant_ok (set tenants) (rk_tenant k)"
proof -
  from assms(1,2) have
    "snd (check_each (\<lambda>i key. ([] :: unit list,
        check_tenant tenants (''providers.'' @ name @ ''.keys'' @ at_index i @ ''.tenant'') (rk_tenant key))) 0 (rw_keys rp)) = []"
    by (auto simp: validate_account_tenants_def)
  from check_each_ok [OF this assms(3)] show ?thesis by (simp add: check_tenant_Nil)
qed

lemma provider_tenants_ok:
  assumes "providers_sound raw providers" "validate_account_tenants raw tenants = []" "(name, p) \<in> set providers"
    "k \<in> set (pv_keys p)"
  shows "tenant_ok (set tenants) (ak_tenant k)"
proof -
  from assms(1,3) obtain rp where rp: "(name, rp) \<in> set (rg_providers raw)"
    "map ak_tenant (pv_keys p) = map rk_tenant (rw_keys rp)" by (auto simp: providers_sound_def)
  from assms(4) have "ak_tenant k \<in> set (map ak_tenant (pv_keys p))" by simp
  with rp(2) obtain rk where "rk \<in> set (rw_keys rp)" "rk_tenant rk = ak_tenant k" by auto
  with account_tenants_ok [OF assms(2) rp(1)] show ?thesis by metis
qed

section \<open>Routing\<close>

lemma validate_aliases_ok:
  assumes "providers_sound raw providers" "snd (validate_aliases raw providers) = []"
    and "(name, t) \<in> set (fst (validate_aliases raw providers))"
  shows "target_ok providers t"
proof -
  from check_each_ok_value [OF assms(2,3) [unfolded validate_aliases_def]] obtain entry where
    "(name, t) \<in> set (fst (validate_alias raw providers (fst entry)))" by auto
  then have "map_of providers (tg_provider t) \<noteq> None \<or> map_of (rg_providers raw) (tg_provider t) \<noteq> None"
    by (auto simp: validate_alias_def Let_def split: if_splits option.splits sum.splits)
  with providers_sound_known [OF assms(1)] show ?thesis by (auto simp: target_ok_def)
qed

text \<open>What the routing sections may refer to.\<close>

definition refs_ok :: "raw_config \<Rightarrow> (string \<times> provider) list \<Rightarrow> (string \<times> target_model) list \<Rightarrow> bool" where
  "refs_ok raw providers aliases \<longleftrightarrow> providers_sound raw providers \<and> (\<forall>(name, t) \<in> set aliases. target_ok providers t)"

lemma resolve_target_ref_ok:
  assumes "refs_ok raw providers aliases" "resolve_target_ref raw providers aliases s path = (r, es)"
  shows "case r of None \<Rightarrow> es \<noteq> [] | Some t \<Rightarrow> es = [] \<and> target_ok providers t"
proof (cases "map_of aliases s")
  case (Some t)
  with assms(1) have "target_ok providers t" by (auto simp: refs_ok_def dest: map_of_SomeD)
  moreover from Some assms(2) have "r = Some t" "es = []" by (simp_all add: resolve_target_ref_def)
  ultimately show ?thesis by simp
next
  case None
  show ?thesis
  proof (cases "tg_parse s")
    case parsed: (Some t)
    with None assms providers_sound_known [of raw providers "tg_provider t"] show ?thesis
      by (cases r) (auto simp: resolve_target_ref_def refs_ok_def target_ok_def split: if_splits)
  qed (use None assms in \<open>auto simp: resolve_target_ref_def\<close>)
qed

lemma validate_group_target_ok:
  assumes "refs_ok raw providers aliases"
    and "validate_group_target raw providers aliases path label i pool e = (pool', ws, [])"
  shows "\<exists>w. ws = [w] \<and> pool' = pool @ [w] \<and> wt_target w \<notin> wt_target ` set pool
    \<and> target_ok providers (wt_target w) \<and> weight_ok (wt_weight w)"
proof -
  let ?path = "path @ ''.'' @ label @ at_index i @ ''.target''"
  obtain r es where ref: "resolve_target_ref raw providers aliases (gt_target e) ?path = (r, es)" by fastforce
  with assms(2) resolve_target_ref_ok [OF assms(1) ref] show ?thesis
    by (cases r) (auto simp: validate_group_target_def Let_def weight_ok_def list_ex_iff split: if_splits)
qed

lemma validate_pool_ok:
  assumes "refs_ok raw providers aliases"
    and "snd (check_fold (validate_group_target raw providers aliases path label) i pool entries) = []"
    and "pool_ok providers pool"
  shows "let ws = fst (check_fold (validate_group_target raw providers aliases path label) i pool entries)
    in pool_ok providers (pool @ ws) \<and> length ws = length entries"
  using assms(2,3)
proof (induction entries arbitrary: i pool)
  case (Cons e entries)
  obtain pool' ws es where step: "validate_group_target raw providers aliases path label i pool e = (pool', ws, es)"
    by (metis prod_cases3)
  with Cons.prems(1) have "validate_group_target raw providers aliases path label i pool e = (pool', ws, [])" by simp
  from validate_group_target_ok [OF assms(1) this] obtain w where
    w: "ws = [w]" "pool' = pool @ [w]" "wt_target w \<notin> wt_target ` set pool" "target_ok providers (wt_target w)"
      "weight_ok (wt_weight w)" by blast
  with Cons.prems(2) have "pool_ok providers pool'" by (auto simp: pool_ok_def)
  with Cons.IH [of "Suc i" pool'] Cons.prems(1) step w show ?case by (auto simp: Let_def)
qed (simp add: pool_ok_def)

lemma pool_valid:
  assumes "refs_ok raw providers aliases" "snd (validate_pool raw providers aliases path label entries) = []"
  shows "pool_ok providers (fst (validate_pool raw providers aliases path label entries))"
  using validate_pool_ok [OF assms(1), of path label 0 "[]" entries] assms(2)
  by (simp add: validate_pool_def pool_ok_def Let_def)

lemma validate_groups_ok:
  assumes "refs_ok raw providers aliases" "snd (validate_groups raw providers aliases) = []"
    and "(name, g) \<in> set (fst (validate_groups raw providers aliases))"
  shows "rg_primary g \<noteq> [] \<and> pool_ok providers (rg_primary g) \<and> pool_ok providers (rg_fallback g)
    \<and> map_of aliases name = None \<and> map_of providers name = None"
proof -
  from check_each_ok_value [OF assms(2,3) [unfolded validate_groups_def]] obtain entry where
    e: "snd (validate_group raw providers aliases entry) = []"
      "(name, g) \<in> set (fst (validate_group raw providers aliases entry))" by blast
  let ?pool = "validate_pool raw providers aliases (''groups.'' @ fst entry)"
  from e have g: "map_of aliases name = None" "map_of (rg_providers raw) name = None" "rg_primary g \<noteq> []"
    "fst (?pool ''primary'' (gp_primary (snd entry))) = rg_primary g" "snd (?pool ''primary'' (gp_primary (snd entry))) = []"
    "fst (?pool ''fallback'' (gp_fallback (snd entry))) = rg_fallback g" "snd (?pool ''fallback'' (gp_fallback (snd entry))) = []"
    by (auto simp: validate_group_def Let_def case_prod_beta split: if_splits)
  from pool_valid [OF assms(1) g(5)] pool_valid [OF assms(1) g(7)] g(4,6)
  have "pool_ok providers (rg_primary g)" "pool_ok providers (rg_fallback g)" by simp_all
  with g(1-3) have "map_of aliases name = None" "map_of (rg_providers raw) name = None" "rg_primary g \<noteq> []"
    "pool_ok providers (rg_primary g)" "pool_ok providers (rg_fallback g)" by simp_all
  then show ?thesis
    using assms(1) providers_sound_unknown by (auto simp: refs_ok_def)
qed


lemma check_each_nonempty:
  "snd (check_each f i xs) = [] \<Longrightarrow> xs \<noteq> [] \<Longrightarrow> (\<And>j x. snd (f j x) = [] \<Longrightarrow> fst (f j x) \<noteq> []) \<Longrightarrow>
     fst (check_each f i xs) \<noteq> []"
  by (cases xs) auto

lemma insert_all_Some: "insert_all kvs k = Some v \<Longrightarrow> (k, v) \<in> set kvs"
proof (induction kvs rule: rev_induct)
  case (snoc kv kvs)
  then show ?case by (cases kv) (auto simp: insert_all_def split: if_splits)
qed (simp add: insert_all_def)

lemma validate_fallback_ok:
  assumes "refs_ok raw providers aliases" "snd (validate_fallback raw providers aliases entry) = []"
    and "(s, ts) \<in> set (fst (validate_fallback raw providers aliases entry))"
  shows "ts \<noteq> [] \<and> s \<notin> set ts \<and> target_ok providers s \<and> (\<forall>t \<in> set ts. target_ok providers t)"
proof -
  let ?path = "''fallbacks.'' @ fst entry"
  define turn where "turn = (\<lambda>i e. let epath = ?path @ at_index i; (t, e_e) = resolve_target_ref raw providers aliases e epath
                     in case t of
                          None \<Rightarrow> ([], e_e)
                        | Some t \<Rightarrow> if t = s
                            then ([], e_e @ [ce_new epath ''fallback target equals its own source''])
                            else ([t], e_e))"
  obtain r es where src: "resolve_target_ref raw providers aliases (fst entry) ?path = (r, es)" by fastforce
  from assms(2,3) src have chain: "r = Some s" "snd entry \<noteq> []" "es = []" "ts = fst (check_each turn 0 (snd entry))"
    "snd (check_each turn 0 (snd entry)) = []"
    by (auto simp: validate_fallback_def Let_def turn_def case_prod_beta split: option.splits if_splits)
  have one: "\<exists>t. fst (turn i e) = [t] \<and> t \<noteq> s \<and> target_ok providers t" if "snd (turn i e) = []" for i e
  proof -
    obtain r es where ref: "resolve_target_ref raw providers aliases e (?path @ at_index i) = (r, es)" by fastforce
    with that resolve_target_ref_ok [OF assms(1) ref] show ?thesis
      by (cases r) (auto simp: turn_def Let_def split: if_splits)
  qed
  have "ts \<noteq> []"
    using check_each_nonempty [OF chain(5,2)] one chain(4) by fastforce
  moreover have "t \<noteq> s \<and> target_ok providers t" if "t \<in> set ts" for t
  proof -
    from that chain(4) have "t \<in> set (fst (check_each turn 0 (snd entry)))" by simp
    from check_each_ok_value [OF chain(5) this] obtain j e where
      "snd (turn j e) = []" "t \<in> set (fst (turn j e))" by blast
    with one [of j e] show ?thesis by auto
  qed
  moreover have "target_ok providers s" using resolve_target_ref_ok [OF assms(1) src] chain(1) by simp
  ultimately show ?thesis by blast
qed

lemma validate_fallbacks_ok:
  assumes "refs_ok raw providers aliases" "snd (validate_fallbacks raw providers aliases) = []"
    and "fst (validate_fallbacks raw providers aliases) s = Some ts"
  shows "ts \<noteq> [] \<and> s \<notin> set ts \<and> target_ok providers s \<and> (\<forall>t \<in> set ts. target_ok providers t)"
proof -
  let ?all = "check_each (\<lambda>_. validate_fallback raw providers aliases) 0 (rg_fallbacks raw)"
  from assms(2,3) have "snd ?all = []" "insert_all (fst ?all) s = Some ts"
    by (simp_all add: validate_fallbacks_def case_prod_beta)
  with check_each_ok_value [OF this(1) insert_all_Some [OF this(2)]] validate_fallback_ok [OF assms(1)]
  show ?thesis by auto
qed

section \<open>Static and virtual keys\<close>

lemma validate_auth_keys_ok:
  assumes "snd (check_each (validate_auth_key files env tenants) 0 entries) = []"
    and "k \<in> set (fst (check_each (validate_auth_key files env tenants) 0 entries))"
  shows "sk_secret k \<noteq> [] \<and> tenant_ok (set tenants) (sk_tenant k)"
proof -
  from check_each_ok_value [OF assms] obtain j e where
    "snd (validate_auth_key files env tenants j e) = []" "k \<in> set (fst (validate_auth_key files env tenants j e))"
    by auto
  then show ?thesis
    by (auto simp: validate_auth_key_def Let_def check_tenant_Nil resolve_secret_nonempty split: sum.splits)
qed

lemma validate_virtual_keys_ok:
  assumes "snd (check_fold (validate_virtual_key providers aliases groups tenants) i seen rks) = []"
  shows "let ds = fst (check_fold (validate_virtual_key providers aliases groups tenants) i seen rks) in
    map vd_id ds = map rv_id rks \<and> distinct (map rv_id rks) \<and> rv_id ` set rks \<inter> set seen = {}
    \<and> (\<forall>d \<in> set ds. valid_key_id (vd_id d) \<and> valid_secret_hash (vd_secret_hash d) \<and> tenant_ok (set tenants) (vd_tenant d))"
  using assms
proof (induction rks arbitrary: i seen)
  case (Cons rk rks)
  obtain seen' ds es where step: "validate_virtual_key providers aliases groups tenants i seen rk = (seen', ds, es)"
    by (metis prod_cases3)
  with Cons.prems have "es = []" by simp
  with step have k: "seen' = rv_id rk # seen" "rv_id rk \<notin> set seen" "valid_key_id (rv_id rk)"
      "valid_secret_hash (rv_secret_hash rk)" "tenant_ok (set tenants) (rv_tenant rk)"
      "\<exists>d. ds = [d] \<and> vd_id d = rv_id rk \<and> vd_secret_hash d = rv_secret_hash rk \<and> vd_tenant d = rv_tenant rk"
    by (auto simp: validate_virtual_key_def Let_def check_tenant_Nil case_prod_beta split: if_splits)
  from Cons.IH [of "Suc i" seen'] Cons.prems step k show ?case by (auto simp: Let_def)
qed simp

section \<open>The whole document\<close>

lemma validate_config_Inr:
  assumes "validate_config files env raw = Inr cfg"
  obtains tenants providers aliases groups where
    "providers = fst (validate_providers files env raw)" "snd (validate_providers files env raw) = []"
    "aliases = fst (validate_aliases raw providers)" "snd (validate_aliases raw providers) = []"
    "groups = fst (validate_groups raw providers aliases)" "snd (validate_groups raw providers aliases) = []"
    "snd (validate_fallbacks raw providers aliases) = []" "validate_account_tenants raw tenants = []"
    "snd (check_each (validate_auth_key files env tenants) 0 (rs_auth_keys (rg_server raw))) = []"
    "snd (validate_virtual_keys raw providers aliases groups tenants) = []"
    "cf_providers cfg = providers" "cf_aliases cfg = map_of aliases" "cf_groups cfg = map_of groups"
    "cf_fallbacks cfg = fst (validate_fallbacks raw providers aliases)" "cf_tenants cfg = set tenants"
    "sv_auth_keys (cf_server cfg) = fst (check_each (validate_auth_key files env tenants) 0 (rs_auth_keys (rg_server raw)))"
    "cf_virtual_keys cfg = fst (validate_virtual_keys raw providers aliases groups tenants)"
  using assms
  by (auto simp: validate_config_def validate_server_def Let_def case_prod_beta split: if_splits)

lemma validated_config_ok:
  assumes "validate_config files env raw = Inr cfg"
  shows "config_ok cfg"
  using assms
proof (rule validate_config_Inr)
  fix tenants providers aliases groups
  assume p: "providers = fst (validate_providers files env raw)" "snd (validate_providers files env raw) = []"
    and a: "aliases = fst (validate_aliases raw providers)" "snd (validate_aliases raw providers) = []"
    and g: "groups = fst (validate_groups raw providers aliases)" "snd (validate_groups raw providers aliases) = []"
    and f: "snd (validate_fallbacks raw providers aliases) = []"
    and t: "validate_account_tenants raw tenants = []"
    and k: "snd (check_each (validate_auth_key files env tenants) 0 (rs_auth_keys (rg_server raw))) = []"
    and v: "snd (validate_virtual_keys raw providers aliases groups tenants) = []"
    and cfg: "cf_providers cfg = providers" "cf_aliases cfg = map_of aliases" "cf_groups cfg = map_of groups"
    "cf_fallbacks cfg = fst (validate_fallbacks raw providers aliases)" "cf_tenants cfg = set tenants"
    "sv_auth_keys (cf_server cfg) = fst (check_each (validate_auth_key files env tenants) 0 (rs_auth_keys (rg_server raw)))"
    "cf_virtual_keys cfg = fst (validate_virtual_keys raw providers aliases groups tenants)"
  have sound: "providers_sound raw providers" using validate_providers_ok p by blast
  have targets: "target_ok providers tg" if "(name, tg) \<in> set aliases" for name tg
    using validate_aliases_ok [OF sound a(2)] a(1) that by blast
  with sound have refs: "refs_ok raw providers aliases" by (auto simp: refs_ok_def)
  have 1: "\<forall>(name, p) \<in> set providers. provider_ok p \<and> (\<forall>k \<in> set (pv_keys p). tenant_ok (set tenants) (ak_tenant k))"
    using sound provider_tenants_ok [OF sound t] by (auto simp: providers_sound_def)
  have 2: "\<forall>name tg. map_of aliases name = Some tg \<longrightarrow> target_ok providers tg"
    using targets map_of_SomeD by metis
  have 3: "\<forall>name gr. map_of groups name = Some gr \<longrightarrow> rg_primary gr \<noteq> [] \<and> pool_ok providers (rg_primary gr)
      \<and> pool_ok providers (rg_fallback gr) \<and> map_of aliases name = None \<and> map_of providers name = None"
    using validate_groups_ok [OF refs g(2)] g(1) map_of_SomeD by metis
  note 4 = validate_fallbacks_ok [OF refs f]
  note 5 = validate_auth_keys_ok [OF k]
  note 6 = validate_virtual_keys_ok [OF v [unfolded validate_virtual_keys_def], folded validate_virtual_keys_def,
      unfolded Let_def]
  show ?thesis
    unfolding config_ok_def cfg using 1 2 3 4 5 6 by simp
qed

end
