(* ===== verification/Key_Pool.thy ===== *)
theory Key_Pool
  imports Config_Model Circuit_Breaker
begin

text \<open>
  The credentials of one provider and their selection: \<open>KeyRuntime\<close>, \<open>ProviderRuntime\<close> and the picks of
  \<open>crates/router-core/src/router.rs\<close>. A reference to a key is its index in the provider's list. A
  semaphore is an address in a store of free permits, since reloads share semaphores between tables.
  The random generator (crate \<open>fastrand\<close>) and the score hash (crate \<open>blake3\<close>) are parameters; weights
  are the finite positive numbers that validation admits. The credential itself, the observed quota
  and the last check are carried along and never consulted by selection; they are not modelled.
\<close>

section \<open>Keys\<close>

record key_runtime =
  kr_name :: string
  kr_weight :: f64
  kr_models :: "string set option"
  kr_tenant :: "string option"
  kr_breaker :: breaker
  kr_source_path :: "string option"
  kr_rpm :: "token_bucket option"
  kr_tpm :: "token_bucket option"
  kr_max_concurrency :: "u32 option"
  kr_inflight :: "nat option"
  kr_leases :: u64

type_synonym slots = "nat list"

definition kr_take_lease :: "key_runtime \<Rightarrow> key_runtime" where
  "kr_take_lease k = k\<lparr>kr_leases := kr_leases k + 1\<rparr>"

definition kr_try_admit_request :: "key_runtime \<Rightarrow> u64 \<Rightarrow> key_runtime \<times> bool" where
  "kr_try_admit_request k now_ms =
     (let (tpm, drained) =
        (case kr_tpm k of
           None \<Rightarrow> (None, False)
         | Some b \<Rightarrow> (let b = fst (tb_try_consume b 0 now_ms) in (Some b, tb_available_tokens b = 0)));
          k = k\<lparr>kr_tpm := tpm\<rparr>
      in if drained then (k, False)
         else case kr_rpm k of
           None \<Rightarrow> (k, True)
         | Some b \<Rightarrow> (let (b, ok) = tb_try_consume b 1 now_ms in (k\<lparr>kr_rpm := Some b\<rparr>, ok)))"

text \<open>\<open>try_reserve_slot\<close>: the slots afterwards, and the permit: the address it came from, if any.\<close>

definition kr_try_reserve_slot :: "key_runtime \<Rightarrow> slots \<Rightarrow> slots \<times> nat option option" where
  "kr_try_reserve_slot k slots =
     (case kr_inflight k of
        None \<Rightarrow> (slots, Some None)
      | Some a \<Rightarrow> if slots ! a > 0 then (slots[a := slots ! a - 1], Some (Some a)) else (slots, None))"

text \<open>Dropping a permit.\<close>

definition release_slot :: "slots \<Rightarrow> nat option \<Rightarrow> slots" where
  "release_slot slots permit = (case permit of None \<Rightarrow> slots | Some a \<Rightarrow> slots[a := slots ! a + 1])"

definition kr_admit_now :: "key_runtime \<Rightarrow> slots \<Rightarrow> u64 \<Rightarrow> key_runtime \<times> slots \<times> nat option option" where
  "kr_admit_now k slots now_ms =
     (case kr_try_reserve_slot k slots of
        (slots', None) \<Rightarrow> (k, slots', None)
      | (slots', Some permit) \<Rightarrow>
          (case kr_try_admit_request k now_ms of
             (k', False) \<Rightarrow> (k', release_slot slots' permit, None)
           | (k', True) \<Rightarrow> (k', slots', Some permit)))"

definition kr_in_flight :: "key_runtime \<Rightarrow> slots \<Rightarrow> (u32 \<times> u32) option" where
  "kr_in_flight k slots =
     map_option (\<lambda>limit.
       let free = (case kr_inflight k of Some a \<Rightarrow> word_of_nat (slots ! a) | None \<Rightarrow> limit)
       in (if limit < free then 0 else limit - free, limit)) (kr_max_concurrency k)"

text \<open>\<open>has_headroom\<close> credits elapsed time to both buckets and spends nothing.\<close>

definition kr_has_headroom :: "key_runtime \<Rightarrow> slots \<Rightarrow> u64 \<Rightarrow> key_runtime \<times> bool" where
  "kr_has_headroom k slots now_ms =
     (let slot_free = (case kr_inflight k of None \<Rightarrow> True | Some a \<Rightarrow> slots ! a > 0);
          rpm = map_option (\<lambda>b. fst (tb_try_consume b 0 now_ms)) (kr_rpm k);
          tpm = map_option (\<lambda>b. fst (tb_try_consume b 0 now_ms)) (kr_tpm k);
          left = (\<lambda>b. case b of None \<Rightarrow> True | Some b \<Rightarrow> tb_available_tokens b > 0)
      in (k\<lparr>kr_rpm := rpm, kr_tpm := tpm\<rparr>, slot_free \<and> left rpm \<and> left tpm))"

definition kr_debit_tokens :: "key_runtime \<Rightarrow> u64 \<Rightarrow> u64 \<Rightarrow> key_runtime" where
  "kr_debit_tokens k tokens now_ms =
     k\<lparr>kr_tpm := map_option (\<lambda>b. tb_debit_saturating b tokens now_ms) (kr_tpm k)\<rparr>"

definition kr_rate_headroom :: "key_runtime \<Rightarrow> u64 option \<times> u64 option" where
  "kr_rate_headroom k =
     (map_option tb_available_tokens (kr_rpm k), map_option tb_available_tokens (kr_tpm k))"

section \<open>Providers\<close>

record provider_runtime =
  pr_name :: string
  pr_kind :: provider_kind
  pr_base_url :: "string option"
  pr_auth :: auth_mode
  pr_keys :: "key_runtime list"
  pr_timeout_secs :: u64
  pr_semaphore :: nat
  pr_breaker :: breaker
  pr_azure :: "azure_settings option"
  pr_bedrock :: "bedrock_settings option"
  pr_vertex :: "vertex_settings option"
  pr_codex :: "codex_settings option"
  pr_managed :: bool

record key_choice =
  kc_key :: "nat option"
  kc_admission :: admission
  kc_permit :: "nat option"

record holding =
  ho_owned :: nat
  ho_usable :: nat

definition pr_serves :: "key_runtime \<Rightarrow> string option \<Rightarrow> bool" where
  "pr_serves k model =
     (case model of
        None \<Rightarrow> True
      | Some model \<Rightarrow> (case kr_models k of None \<Rightarrow> True | Some ms \<Rightarrow> model \<in> ms))"

definition pr_eligible :: "provider_runtime \<Rightarrow> string option \<Rightarrow> nat list" where
  "pr_eligible p model = filter (\<lambda>i. pr_serves (pr_keys p ! i) model) [0..<length (pr_keys p)]"

definition pr_owned_by :: "provider_runtime \<Rightarrow> key_runtime \<Rightarrow> string option \<Rightarrow> bool" where
  "pr_owned_by p k tenant =
     (if \<not> pr_managed p then True
      else case (kr_tenant k, tenant) of
        (Some owner, Some caller) \<Rightarrow> owner = caller
      | _ \<Rightarrow> False)"

text \<open>The accounts a caller may be given, in the order of the configuration.\<close>

definition pr_mine :: "provider_runtime \<Rightarrow> string option \<Rightarrow> string option \<Rightarrow> nat list" where
  "pr_mine p model tenant = filter (\<lambda>i. pr_owned_by p (pr_keys p ! i) tenant) (pr_eligible p model)"

definition pr_holding :: "provider_runtime \<Rightarrow> string \<Rightarrow> string option \<Rightarrow> u64 \<Rightarrow> holding" where
  "pr_holding p model tenant now_ms =
     (let mine = pr_mine p (Some model) tenant in
      \<lparr>ho_owned = length mine,
       ho_usable = length (filter (\<lambda>i. br_looks_healthy (kr_breaker (pr_keys p ! i)) now_ms) mine)\<rparr>)"

definition pr_healthy_key_count :: "provider_runtime \<Rightarrow> string \<Rightarrow> string option \<Rightarrow> u64 \<Rightarrow> nat" where
  "pr_healthy_key_count p model tenant now_ms =
     (if pr_keys p = [] then 1 else max (ho_usable (pr_holding p model tenant now_ms)) 1)"

definition pr_all_keys_benched :: "provider_runtime \<Rightarrow> string \<Rightarrow> string option \<Rightarrow> u64 \<Rightarrow> bool" where
  "pr_all_keys_benched p model tenant now_ms \<longleftrightarrow>
     (let mine = pr_mine p (Some model) tenant in
      mine \<noteq> [] \<and> list_all (\<lambda>i. br_is_benched (kr_breaker (pr_keys p ! i)) now_ms) mine)"

definition pr_all_keys_at_ceiling :: "provider_runtime \<Rightarrow> slots \<Rightarrow> string \<Rightarrow> string option \<Rightarrow> u64 \<Rightarrow> bool" where
  "pr_all_keys_at_ceiling p slots model tenant now_ms \<longleftrightarrow>
     (let healthy = filter (\<lambda>i. br_looks_healthy (kr_breaker (pr_keys p ! i)) now_ms)
                      (pr_mine p (Some model) tenant) in
      healthy \<noteq> [] \<and> list_all (\<lambda>i. \<not> snd (kr_has_headroom (pr_keys p ! i) slots now_ms)) healthy)"

section \<open>Picks\<close>

definition kr_share :: "key_runtime \<Rightarrow> rat" where
  "kr_share k = of_nat (unat (kr_leases k)) / f64_val (kr_weight k)"

text \<open>\<open>max_by_key\<close> keeps the last of equal maxima.\<close>

definition pinned_step :: "(nat \<Rightarrow> u64) \<Rightarrow> nat option \<Rightarrow> nat \<Rightarrow> nat option" where
  "pinned_step score best i =
     (case best of None \<Rightarrow> Some i | Some j \<Rightarrow> if score j \<le> score i then Some i else Some j)"

definition rendezvous_score :: "(string \<Rightarrow> string) \<Rightarrow> string \<Rightarrow> string \<Rightarrow> u64" where
  "rendezvous_score digest session seat =
     (let d = digest (session @ [CHR 0x00] @ seat) in
      word_of_nat (foldr (\<lambda>c n. n * 256 + byte c) (take 8 d) 0))"

definition pinned_seat :: "(string \<Rightarrow> string) \<Rightarrow> provider_runtime \<Rightarrow> nat list \<Rightarrow> string \<Rightarrow> nat option" where
  "pinned_seat digest p cands session =
     foldl (pinned_step (\<lambda>i. rendezvous_score digest session (kr_name (pr_keys p ! i)))) None cands"

text \<open>One turn of the loop of \<open>balanced_pick\<close>; the state is the best key and the size of the tie.\<close>

definition balanced_step ::
    "(nat \<Rightarrow> nat \<Rightarrow> nat) \<Rightarrow> provider_runtime \<Rightarrow> nat \<times> nat \<Rightarrow> nat \<Rightarrow> nat \<times> nat" where
  "balanced_step draw p st i =
     (let (best, tied) = st; s = kr_share (pr_keys p ! i); best_share = kr_share (pr_keys p ! best) in
      if s < best_share then (i, 1)
      else if s = best_share then (if draw i (tied + 1) = 0 then i else best, tied + 1)
      else (best, tied))"

definition balanced_pick :: "(nat \<Rightarrow> nat \<Rightarrow> nat) \<Rightarrow> provider_runtime \<Rightarrow> nat list \<Rightarrow> nat" where
  "balanced_pick draw p cands =
     (case cands of
        [i] \<Rightarrow> i
      | i # rest \<Rightarrow> fst (foldl (balanced_step draw p) (i, 1) rest)
      | [] \<Rightarrow> 0)"

section \<open>Admission\<close>

definition pr_set :: "provider_runtime \<Rightarrow> nat \<Rightarrow> key_runtime \<Rightarrow> provider_runtime" where
  "pr_set p i k = p\<lparr>pr_keys := (pr_keys p)[i := k]\<rparr>"

text \<open>Try one healthy candidate: admit it now and charge its balance.\<close>

definition pr_try ::
    "provider_runtime \<Rightarrow> slots \<Rightarrow> u64 \<Rightarrow> nat \<Rightarrow> provider_runtime \<times> slots \<times> key_choice option" where
  "pr_try p slots now_ms i =
     (case kr_admit_now (pr_keys p ! i) slots now_ms of
        (k, slots, None) \<Rightarrow> (pr_set p i k, slots, None)
      | (k, slots, Some permit) \<Rightarrow>
          (pr_set p i (kr_take_lease k), slots,
           Some \<lparr>kc_key = Some i, kc_admission = Yes, kc_permit = permit\<rparr>))"

text \<open>The levelled pick: \<open>draw n\<close> is the generator when \<open>n\<close> candidates are left.\<close>

fun pr_try_levelled ::
    "(nat \<Rightarrow> nat \<Rightarrow> nat \<Rightarrow> nat) \<Rightarrow> nat \<Rightarrow> provider_runtime \<Rightarrow> slots \<Rightarrow> u64 \<Rightarrow> nat list \<Rightarrow>
       provider_runtime \<times> slots \<times> key_choice option" where
  "pr_try_levelled draw 0 p slots now_ms cands = (p, slots, None)"
| "pr_try_levelled draw (Suc n) p slots now_ms cands =
     (if cands = [] then (p, slots, None)
      else
        let picked = balanced_pick (draw (Suc n)) p cands in
        (case pr_try p slots now_ms picked of
           (p, slots, Some choice) \<Rightarrow> (p, slots, Some choice)
         | (p, slots, None) \<Rightarrow>
             pr_try_levelled draw n p slots now_ms (filter (\<lambda>i. i \<noteq> picked) cands)))"

text \<open>The recovering keys in turn: the breaker decides, then the ceilings.\<close>

fun pr_try_recovering ::
    "provider_runtime \<Rightarrow> slots \<Rightarrow> u64 \<Rightarrow> nat list \<Rightarrow> provider_runtime \<times> slots \<times> key_choice option" where
  "pr_try_recovering p slots now_ms [] = (p, slots, None)"
| "pr_try_recovering p slots now_ms (i # rest) =
     (let k = pr_keys p ! i; (b, admission) = br_admit (kr_breaker k) now_ms; k = k\<lparr>kr_breaker := b\<rparr> in
      if admission = No then pr_try_recovering (pr_set p i k) slots now_ms rest
      else
        let (k, slots, permit) =
          (if admission = Yes then kr_admit_now k slots now_ms
           else let (slots, permit) = kr_try_reserve_slot k slots in (k, slots, permit))
        in (case permit of
              None \<Rightarrow> pr_try_recovering (pr_set p i k) slots now_ms rest
            | Some permit \<Rightarrow>
                (pr_set p i (kr_take_lease k), slots,
                 Some \<lparr>kc_key = Some i, kc_admission = admission, kc_permit = permit\<rparr>)))"

definition pr_admit_for ::
    "(nat \<Rightarrow> nat \<Rightarrow> nat \<Rightarrow> nat) \<Rightarrow> (string \<Rightarrow> string) \<Rightarrow> provider_runtime \<Rightarrow> slots \<Rightarrow>
       string option \<Rightarrow> string option \<Rightarrow> string option \<Rightarrow> u64 \<Rightarrow>
       provider_runtime \<times> slots \<times> key_choice option" where
  "pr_admit_for draw digest p slots model tenant affinity now_ms =
     (if pr_keys p = [] then
        (let (b, admission) = br_admit (pr_breaker p) now_ms in
         (p\<lparr>pr_breaker := b\<rparr>, slots,
          if admission = No then None
          else Some \<lparr>kc_key = None, kc_admission = admission, kc_permit = None\<rparr>))
      else
        let eligible = pr_mine p model tenant in
        if eligible = [] then (p, slots, None)
        else
          let healthy = filter (\<lambda>i. br_looks_healthy (kr_breaker (pr_keys p ! i)) now_ms) eligible;
              pinned = (case affinity of None \<Rightarrow> None | Some session \<Rightarrow> pinned_seat digest p healthy session);
              (p, slots, choice) =
                (case pinned of None \<Rightarrow> (p, slots, None) | Some i \<Rightarrow> pr_try p slots now_ms i)
          in if choice \<noteq> None then (p, slots, choice)
             else
               let cands = filter (\<lambda>i. Some i \<noteq> pinned) healthy;
                   (p, slots, choice) = pr_try_levelled draw (length cands) p slots now_ms cands
               in if choice \<noteq> None then (p, slots, choice)
                  else pr_try_recovering p slots now_ms
                    (sort_key (\<lambda>i. kr_share (pr_keys p ! i)) eligible))"

definition pr_admit_key where
  "pr_admit_key draw digest p slots model tenant affinity now_ms =
     pr_admit_for draw digest p slots (Some model) tenant affinity now_ms"

definition pr_admit_any where
  "pr_admit_any draw digest p slots tenant affinity now_ms =
     pr_admit_for draw digest p slots None tenant affinity now_ms"

section \<open>What admission may change\<close>

text \<open>The part of a key that no admission touches.\<close>

definition kr_fixed :: "key_runtime \<Rightarrow> string \<times> f64 \<times> string set option \<times> string option \<times> nat option \<times> u32 option" where
  "kr_fixed k = (kr_name k, kr_weight k, kr_models k, kr_tenant k, kr_inflight k, kr_max_concurrency k)"

lemma kr_take_lease_simps [simp]:
  "kr_fixed (kr_take_lease k) = kr_fixed k" "kr_breaker (kr_take_lease k) = kr_breaker k"
  "kr_rpm (kr_take_lease k) = kr_rpm k" "kr_tpm (kr_take_lease k) = kr_tpm k"
  "kr_leases (kr_take_lease k) = kr_leases k + 1"
  by (simp_all add: kr_take_lease_def kr_fixed_def)

lemma kr_try_admit_frame:
  "kr_try_admit_request k now = (k', ok) \<Longrightarrow>
     kr_fixed k' = kr_fixed k \<and> kr_breaker k' = kr_breaker k \<and> kr_leases k' = kr_leases k"
  by (auto simp: kr_try_admit_request_def kr_fixed_def Let_def split: option.splits prod.splits if_splits)

lemma kr_admit_now_frame:
  "kr_admit_now k slots now = (k', slots', r) \<Longrightarrow>
     kr_fixed k' = kr_fixed k \<and> kr_breaker k' = kr_breaker k \<and> kr_leases k' = kr_leases k"
  by (auto simp: kr_admit_now_def dest: kr_try_admit_frame split: prod.splits option.splits bool.splits)

definition slot_free :: "key_runtime \<Rightarrow> slots \<Rightarrow> bool" where
  "slot_free k slots \<longleftrightarrow> (case kr_inflight k of None \<Rightarrow> True | Some a \<Rightarrow> slots ! a > 0)"

text \<open>Whether the key can take a request now: a slot, and a request left in the minute.\<close>

definition kr_ready :: "key_runtime \<Rightarrow> slots \<Rightarrow> u64 \<Rightarrow> bool" where
  "kr_ready k slots now \<longleftrightarrow> slot_free k slots \<and> snd (kr_try_admit_request k now)"

definition take_permit :: "slots \<Rightarrow> nat option \<Rightarrow> slots" where
  "take_permit slots permit = (case permit of None \<Rightarrow> slots | Some a \<Rightarrow> slots[a := slots ! a - 1])"

lemma release_taken [simp]: "slots ! a > 0 \<Longrightarrow> release_slot (slots[a := slots ! a - 1]) (Some a) = slots"
  by (cases "a < length slots") (simp_all add: release_slot_def list_update_beyond)

lemma kr_try_reserve_slot_eq:
  "kr_try_reserve_slot k slots =
     (if slot_free k slots then (take_permit slots (kr_inflight k), Some (kr_inflight k)) else (slots, None))"
  by (auto simp: kr_try_reserve_slot_def slot_free_def take_permit_def split: option.splits)

lemma release_take [simp]: "slot_free k slots \<Longrightarrow> release_slot (take_permit slots (kr_inflight k)) (kr_inflight k) = slots"
  by (cases "kr_inflight k")
    (simp_all add: slot_free_def take_permit_def release_slot_def [of _ None] del: One_nat_def)

lemma kr_admit_now_eq:
  "kr_admit_now k slots now =
     (if kr_ready k slots now
      then (fst (kr_try_admit_request k now), take_permit slots (kr_inflight k), Some (kr_inflight k))
      else (if slot_free k slots then fst (kr_try_admit_request k now) else k, slots, None))"
  by (auto simp: kr_admit_now_def kr_try_reserve_slot_eq kr_ready_def split: prod.splits bool.splits)

lemma kr_ready_slot: "kr_ready k slots now \<Longrightarrow> slot_free k slots"
  by (simp add: kr_ready_def)

lemma pr_try_eq:
  "pr_try p slots now i =
     (let k = pr_keys p ! i in
      if kr_ready k slots now
      then (pr_set p i (kr_take_lease (fst (kr_try_admit_request k now))), take_permit slots (kr_inflight k),
            Some \<lparr>kc_key = Some i, kc_admission = Yes, kc_permit = kr_inflight k\<rparr>)
      else (pr_set p i (if slot_free k slots then fst (kr_try_admit_request k now) else k), slots, None))"
  by (simp add: pr_try_def kr_admit_now_eq Let_def)

lemma pr_set_nth [simp]: "i \<noteq> j \<Longrightarrow> pr_keys (pr_set p j k) ! i = pr_keys p ! i"
  by (simp add: pr_set_def)

lemma pr_set_simps [simp]: "length (pr_keys (pr_set p j k)) = length (pr_keys p)"
  "pr_managed (pr_set p j k) = pr_managed p"
  by (simp_all add: pr_set_def)

section \<open>The picks pick candidates\<close>

lemma balanced_fold_in:
  "fst (foldl (balanced_step draw p) (best, tied) cands) \<in> insert best (set cands)"
proof (induction cands arbitrary: best tied)
  case Nil
  then show ?case by simp
next
  case (Cons i cands)
  obtain best' tied' where step: "balanced_step draw p (best, tied) i = (best', tied')" by fastforce
  then have "best' = best \<or> best' = i" by (auto simp: balanced_step_def Let_def split: if_splits)
  with Cons.IH [of best' tied'] step show ?case by auto
qed

lemma balanced_pick_in: "cands \<noteq> [] \<Longrightarrow> balanced_pick draw p cands \<in> set cands"
  using balanced_fold_in [of draw p "hd cands" 1 "tl cands"]
  by (cases cands; cases "tl cands") (auto simp: balanced_pick_def)

text \<open>No candidate is further behind its share than the one picked.\<close>

lemma balanced_fold_least:
  "kr_share (pr_keys p ! fst (foldl (balanced_step draw p) (best, tied) cands)) \<le> kr_share (pr_keys p ! best)
   \<and> (\<forall>i \<in> set cands. kr_share (pr_keys p ! fst (foldl (balanced_step draw p) (best, tied) cands))
        \<le> kr_share (pr_keys p ! i))"
proof (induction cands arbitrary: best tied)
  case Nil
  then show ?case by simp
next
  case (Cons i cands)
  obtain best' tied' where step: "balanced_step draw p (best, tied) i = (best', tied')" by fastforce
  then have "kr_share (pr_keys p ! best') \<le> kr_share (pr_keys p ! best)"
    "kr_share (pr_keys p ! best') \<le> kr_share (pr_keys p ! i)"
    by (auto simp: balanced_step_def Let_def split: if_splits)
  with Cons.IH [of best' tied'] step show ?case by (auto intro: order_trans)
qed

lemma balanced_pick_least:
  assumes "i \<in> set cands"
  shows "kr_share (pr_keys p ! balanced_pick draw p cands) \<le> kr_share (pr_keys p ! i)"
proof (cases cands)
  case Nil
  with assms show ?thesis by simp
next
  case (Cons j rest)
  then show ?thesis
    using assms balanced_fold_least [of p draw j 1 rest]
    by (cases rest) (auto simp: balanced_pick_def)
qed

section \<open>The levelled phase\<close>

text \<open>
  With as many turns as candidates the phase admits some ready candidate, or finds that none is
  ready and gives every slot back.
\<close>

lemma pr_try_levelled_cases:
  assumes "pr_try_levelled draw n p slots now cands = (p', slots', r)" "length cands \<le> n"
  shows "case r of
      None \<Rightarrow> slots' = slots \<and> (\<forall>i \<in> set cands. \<not> kr_ready (pr_keys p ! i) slots now)
        \<and> (\<forall>i. i \<notin> set cands \<longrightarrow> pr_keys p' ! i = pr_keys p ! i)
        \<and> length (pr_keys p') = length (pr_keys p)
    | Some c \<Rightarrow> (\<exists>i \<in> set cands. c = \<lparr>kc_key = Some i, kc_admission = Yes, kc_permit = kr_inflight (pr_keys p ! i)\<rparr>
        \<and> kr_ready (pr_keys p ! i) slots now \<and> slots' = take_permit slots (kr_inflight (pr_keys p ! i)))"
  using assms
proof (induction n arbitrary: p cands)
  case 0
  then show ?case by auto
next
  case (Suc n)
  show ?case
  proof (cases "cands = []")
    case True
    with Suc.prems show ?thesis by auto
  next
    case False
    let ?i = "balanced_pick (draw (Suc n)) p cands"
    have i: "?i \<in> set cands" by (rule balanced_pick_in [OF False])
    show ?thesis
    proof (cases "kr_ready (pr_keys p ! ?i) slots now")
      case True
      with Suc.prems(1) False i show ?thesis by (auto simp: Let_def pr_try_eq)
    next
      case not_ready: False
      let ?rest = "filter (\<lambda>j. j \<noteq> ?i) cands"
      obtain p1 where p1: "pr_try p slots now ?i = (p1, slots, None)"
        and same: "\<And>j. j \<noteq> ?i \<Longrightarrow> pr_keys p1 ! j = pr_keys p ! j"
        and len: "length (pr_keys p1) = length (pr_keys p)"
        using not_ready by (auto simp: pr_try_eq Let_def)
      have run: "pr_try_levelled draw n p1 slots now ?rest = (p', slots', r)"
        using Suc.prems(1) False p1 by (simp add: Let_def)
      have "length ?rest < length cands" using i by (intro length_filter_less) auto
      with Suc.prems(2) have "length ?rest \<le> n" by simp
      note IH = Suc.IH [OF run this]
      show ?thesis
      proof (cases r)
        case None
        have "pr_keys p1 ! j = pr_keys p ! j" if "j \<notin> set cands" for j
          by (rule same) (use that i in auto)
        with None IH same len not_ready show ?thesis by auto
      next
        case (Some c)
        with IH same show ?thesis by auto
      qed
    qed
  qed
qed

section \<open>The recovering phase\<close>

text \<open>Why a key that does not look healthy was passed over.\<close>

definition kr_refuses :: "key_runtime \<Rightarrow> slots \<Rightarrow> u64 \<Rightarrow> bool" where
  "kr_refuses k slots now \<longleftrightarrow>
     (case br_admit (kr_breaker k) now of
        (b, No) \<Rightarrow> True
      | (b, Probe) \<Rightarrow> \<not> slot_free k slots
      | (b, Yes) \<Rightarrow> \<not> kr_ready k slots now)"

lemma kr_ready_breaker [simp]: "kr_ready (k\<lparr>kr_breaker := b\<rparr>) slots now = kr_ready k slots now"
  "slot_free (k\<lparr>kr_breaker := b\<rparr>) slots = slot_free k slots"
  by (auto simp: kr_ready_def slot_free_def kr_try_admit_request_def Let_def split: option.splits prod.splits)

lemma pr_try_recovering_cases:
  assumes "pr_try_recovering p slots now ks = (p', slots', r)" "distinct ks"
  shows "case r of
      None \<Rightarrow> slots' = slots \<and> (\<forall>i \<in> set ks. kr_refuses (pr_keys p ! i) slots now)
    | Some c \<Rightarrow> (\<exists>i \<in> set ks. kc_key c = Some i \<and> kc_admission c \<noteq> No
        \<and> kc_admission c = snd (br_admit (kr_breaker (pr_keys p ! i)) now)
        \<and> kc_permit c = kr_inflight (pr_keys p ! i)
        \<and> slot_free (pr_keys p ! i) slots \<and> slots' = take_permit slots (kr_inflight (pr_keys p ! i)))"
  using assms
proof (induction ks arbitrary: p)
  case Nil
  then show ?case by auto
next
  case (Cons i ks)
  let ?k = "pr_keys p ! i"
  obtain b a where ba: "br_admit (kr_breaker ?k) now = (b, a)" by fastforce
  have skip: ?case if passed: "\<exists>k. pr_try_recovering (pr_set p i k) slots now ks = (p', slots', r)"
    and refuses: "kr_refuses ?k slots now"
  proof -
    from passed obtain k where run: "pr_try_recovering (pr_set p i k) slots now ks = (p', slots', r)" ..
    have "pr_keys (pr_set p i k) ! j = pr_keys p ! j" if "j \<in> set ks" for j
      by (rule pr_set_nth) (use that Cons.prems(2) in auto)
    with Cons.IH [OF run] Cons.prems(2) refuses show ?thesis by (auto split: option.splits)
  qed
  show ?case
  proof (cases a)
    case No
    with Cons.prems(1) ba show ?thesis by (intro skip) (auto simp: kr_refuses_def Let_def)
  next
    case Yes
    show ?thesis
    proof (cases "kr_ready ?k slots now")
      case True
      with Cons.prems(1) ba Yes show ?thesis by (auto simp: kr_admit_now_eq Let_def dest: kr_ready_slot)
    next
      case False
      with Cons.prems(1) ba Yes show ?thesis
        by (intro skip) (auto simp: kr_admit_now_eq Let_def kr_refuses_def)
    qed
  next
    case Probe
    show ?thesis
    proof (cases "slot_free ?k slots")
      case True
      with Cons.prems(1) ba Probe show ?thesis by (auto simp: kr_try_reserve_slot_eq Let_def)
    next
      case False
      with Cons.prems(1) ba Probe show ?thesis
        by (intro skip) (auto simp: kr_try_reserve_slot_eq Let_def kr_refuses_def)
    qed
  qed
qed

end
