(* ===== verification/Key_Selection.thy ===== *)
theory Key_Selection
  imports Key_Pool
begin

text \<open>
  What the selection of \<open>Key_Pool\<close> guarantees: only accounts of the caller are spent, the slot taken is
  the one the permit gives back, a refusal means that every account of the caller refuses, the
  levelling splits the dispatches in proportion to the weights, and a session keeps its seat when
  other seats leave the pool.
\<close>

section \<open>The pinned seat\<close>

lemma pinned_fold_inv:
  "foldl (pinned_step sc) best cands = Some i \<Longrightarrow>
     (Some i = best \<and> (\<forall>y \<in> set cands. sc y < sc i))
   \<or> (\<exists>xs ys. cands = xs @ i # ys \<and> (\<forall>x \<in> set xs. sc x \<le> sc i) \<and> (\<forall>y \<in> set ys. sc y < sc i)
        \<and> (\<forall>b. best = Some b \<longrightarrow> sc b \<le> sc i))"
proof (induction cands arbitrary: best)
  case Nil
  then show ?case by simp
next
  case (Cons c cands)
  have "\<exists>b'. pinned_step sc best c = Some b'
      \<and> (b' = c \<and> (\<forall>b. best = Some b \<longrightarrow> sc b \<le> sc c) \<or> best = Some b' \<and> sc c < sc b')"
    by (cases best) (auto simp: pinned_step_def)
  then obtain b' where step: "pinned_step sc best c = Some b'"
    and b': "b' = c \<and> (\<forall>b. best = Some b \<longrightarrow> sc b \<le> sc c) \<or> best = Some b' \<and> sc c < sc b'" by blast
  from Cons.IH [of "Some b'"] Cons.prems step
  consider "b' = i" "\<forall>y \<in> set cands. sc y < sc i"
    | xs ys where "cands = xs @ i # ys" "\<forall>x \<in> set xs. sc x \<le> sc i" "\<forall>y \<in> set ys. sc y < sc i" "sc b' \<le> sc i"
    by auto
  then show ?case
  proof cases
    case 1
    show ?thesis
    proof (cases "best = Some b' \<and> sc c < sc b'")
      case True
      with 1 b' show ?thesis by auto
    next
      case False
      with 1 b' have "c # cands = [] @ i # cands \<and> (\<forall>x \<in> set []. sc x \<le> sc i)
          \<and> (\<forall>y \<in> set cands. sc y < sc i) \<and> (\<forall>b. best = Some b \<longrightarrow> sc b \<le> sc i)" by auto
      then show ?thesis by blast
    qed
  next
    case 2
    from b' \<open>sc b' \<le> sc i\<close> have "sc c \<le> sc i" "\<forall>b. best = Some b \<longrightarrow> sc b \<le> sc i" by auto
    with 2 have "c # cands = (c # xs) @ i # ys \<and> (\<forall>x \<in> set (c # xs). sc x \<le> sc i)
        \<and> (\<forall>y \<in> set ys. sc y < sc i) \<and> (\<forall>b. best = Some b \<longrightarrow> sc b \<le> sc i)" by simp
    then show ?thesis by blast
  qed
qed

lemma pinned_fold_keep:
  "\<forall>y \<in> set ys. sc y < sc i \<Longrightarrow> foldl (pinned_step sc) (Some i) ys = Some i"
  by (induction ys) (auto simp: pinned_step_def)

lemma pinned_fold_reach:
  "\<forall>x \<in> set xs. sc x \<le> sc i \<Longrightarrow> (\<forall>b. best = Some b \<longrightarrow> sc b \<le> sc i) \<Longrightarrow>
     foldl (pinned_step sc) best (xs @ i # ys) = foldl (pinned_step sc) (Some i) ys"
proof (induction xs arbitrary: best)
  case Nil
  then show ?case by (cases best) (auto simp: pinned_step_def)
next
  case (Cons x xs)
  then have "\<forall>b. pinned_step sc best x = Some b \<longrightarrow> sc b \<le> sc i"
    by (auto simp: pinned_step_def split: option.splits)
  with Cons show ?case by simp
qed

text \<open>The pinned seat is the last of the candidates with the highest score.\<close>

lemma pinned_fold_iff:
  "foldl (pinned_step sc) None cands = Some i \<longleftrightarrow>
     (\<exists>xs ys. cands = xs @ i # ys \<and> (\<forall>x \<in> set xs. sc x \<le> sc i) \<and> (\<forall>y \<in> set ys. sc y < sc i))"
  using pinned_fold_inv [of sc None cands i]
  by (auto simp: pinned_fold_reach pinned_fold_keep simp del: foldl_append)

lemma pinned_seat_in: "pinned_seat digest p cands s = Some i \<Longrightarrow> i \<in> set cands"
  by (auto simp: pinned_seat_def pinned_fold_iff)

lemma pinned_fold_filter:
  assumes "foldl (pinned_step sc) None cands = Some i" "P i"
  shows "foldl (pinned_step sc) None (filter P cands) = Some i"
proof -
  from assms(1) obtain xs ys where "cands = xs @ i # ys"
    "\<forall>x \<in> set xs. sc x \<le> sc i" "\<forall>y \<in> set ys. sc y < sc i"
    by (auto simp: pinned_fold_iff)
  with assms(2) have "filter P cands = filter P xs @ i # filter P ys
      \<and> (\<forall>x \<in> set (filter P xs). sc x \<le> sc i) \<and> (\<forall>y \<in> set (filter P ys). sc y < sc i)" by simp
  then show ?thesis unfolding pinned_fold_iff by blast
qed

section \<open>Which keys an admission changes\<close>

text \<open>The pool kept everything but balances, buckets and breakers.\<close>

definition pr_like :: "provider_runtime \<Rightarrow> provider_runtime \<Rightarrow> bool" where
  "pr_like p q \<longleftrightarrow> length (pr_keys q) = length (pr_keys p)
     \<and> (\<forall>i. kr_fixed (pr_keys q ! i) = kr_fixed (pr_keys p ! i))"

lemma pr_like_refl [simp]: "pr_like p p"
  and pr_like_trans: "pr_like p q \<Longrightarrow> pr_like q r \<Longrightarrow> pr_like p r"
  by (auto simp: pr_like_def)

lemma pr_like_set: "kr_fixed k = kr_fixed (pr_keys p ! i) \<Longrightarrow> pr_like p (pr_set p i k)"
  by (auto simp: pr_like_def pr_set_def nth_list_update list_update_beyond not_less)
    (metis list_update_beyond not_less nth_list_update_eq nth_list_update_neq)

lemma pr_like_inflight: "pr_like p q \<Longrightarrow> kr_inflight (pr_keys q ! i) = kr_inflight (pr_keys p ! i)"
  by (auto simp: pr_like_def kr_fixed_def)

lemma pr_like_slot_free: "pr_like p q \<Longrightarrow> slot_free (pr_keys q ! i) slots = slot_free (pr_keys p ! i) slots"
  by (simp add: slot_free_def pr_like_inflight)

lemma kr_fixed_admitted: "kr_fixed (fst (kr_try_admit_request k now)) = kr_fixed k"
  using kr_try_admit_frame [of k now] by (cases "kr_try_admit_request k now") auto

lemma pr_try_like: "pr_try p slots now i = (p', r) \<Longrightarrow> pr_like p p'"
  by (auto simp: pr_try_eq Let_def kr_fixed_admitted intro!: pr_like_set split: if_splits)

lemma pr_try_levelled_like:
  "pr_try_levelled draw n p slots now cands = (p', r) \<Longrightarrow> pr_like p p'"
proof (induction n arbitrary: p slots cands)
  case 0
  then show ?case by simp
next
  case (Suc n)
  obtain p1 slots1 c where tried: "pr_try p slots now (balanced_pick (draw (Suc n)) p cands) = (p1, slots1, c)"
    by (metis prod_cases3)
  from pr_try_like [OF this] have "pr_like p p1" .
  with Suc tried show ?case
    by (auto simp: Let_def intro: pr_like_trans split: if_splits option.splits)
qed

lemma pr_try_recovering_like:
  "pr_try_recovering p slots now ks = (p', r) \<Longrightarrow> pr_like p p'"
proof (induction ks arbitrary: p slots)
  case Nil
  then show ?case by simp
next
  case (Cons i ks)
  let ?k = "pr_keys p ! i"
  have step: "pr_like p (pr_set p i k)" if "kr_fixed k = kr_fixed ?k" for k
    using that by (rule pr_like_set)
  have touched: "kr_fixed (?k\<lparr>kr_breaker := b\<rparr>) = kr_fixed ?k" for b by (simp add: kr_fixed_def)
  have admitted: "kr_fixed k = kr_fixed ?k" if "kr_admit_now (?k\<lparr>kr_breaker := b\<rparr>) slots now = (k, s)" for b k s
    using kr_admit_now_frame [of "?k\<lparr>kr_breaker := b\<rparr>" slots now k "fst s" "snd s"] that touched by simp
  have passed: "pr_like p p'" if "pr_try_recovering (pr_set p i k) s now ks = (p', r)" "kr_fixed k = kr_fixed ?k" for k s
    by (rule pr_like_trans [OF step [OF that(2)] Cons.IH [OF that(1)]])
  show ?case
    using Cons.prems
    by (auto simp: Let_def touched admitted intro!: step intro: passed
        split: prod.splits if_splits option.splits)
qed

lemma pr_admit_for_like:
  assumes "pr_admit_for draw digest p slots model tenant affinity now = (p', r)"
  shows "pr_like p p'"
proof -
  have "pr_like p (p\<lparr>pr_breaker := b\<rparr>)" for b by (simp add: pr_like_def)
  with assms show ?thesis
    unfolding pr_admit_for_def Let_def
    by (auto intro: pr_try_levelled_like pr_try_like pr_try_recovering_like
        pr_like_trans [OF pr_try_like pr_try_levelled_like]
        pr_like_trans [OF pr_try_levelled_like pr_try_recovering_like]
        pr_like_trans [OF pr_try_like pr_like_trans [OF pr_try_levelled_like pr_try_recovering_like]]
        split: if_splits prod.splits option.splits)
qed

section \<open>The outcome of an admission\<close>

lemma pr_mine_iff:
  "i \<in> set (pr_mine p model tenant) \<longleftrightarrow>
     i < length (pr_keys p) \<and> pr_serves (pr_keys p ! i) model \<and> pr_owned_by p (pr_keys p ! i) tenant"
  by (auto simp: pr_mine_def pr_eligible_def)

lemma pr_mine_distinct [simp]: "distinct (pr_mine p model tenant)"
  by (simp add: pr_mine_def pr_eligible_def)

text \<open>Why an account of the caller is not given out now.\<close>

definition kr_unavailable :: "key_runtime \<Rightarrow> slots \<Rightarrow> u64 \<Rightarrow> bool" where
  "kr_unavailable k slots now \<longleftrightarrow>
     (if br_looks_healthy (kr_breaker k) now then \<not> kr_ready k slots now else kr_refuses k slots now)"

definition chosen_ok :: "provider_runtime \<Rightarrow> slots \<Rightarrow> nat list \<Rightarrow> slots \<Rightarrow> key_choice \<Rightarrow> bool" where
  "chosen_ok p slots mine slots' c \<longleftrightarrow>
     (\<exists>i \<in> set mine. kc_key c = Some i \<and> kc_admission c \<noteq> No \<and> kc_permit c = kr_inflight (pr_keys p ! i)
        \<and> slot_free (pr_keys p ! i) slots \<and> slots' = take_permit slots (kr_inflight (pr_keys p ! i)))"

lemma chosen_ok_like: "pr_like p q \<Longrightarrow> chosen_ok q slots mine slots' c = chosen_ok p slots mine slots' c"
  by (simp add: chosen_ok_def pr_like_inflight pr_like_slot_free)

text \<open>The pinned seat, then the levelled pick over the other healthy seats.\<close>

lemma pr_healthy_phase:
  assumes pin: "(case pinned of None \<Rightarrow> (p, slots, None) | Some i \<Rightarrow> pr_try p slots now i) = (p1, slots1, c1)"
    and pinned: "\<And>i. pinned = Some i \<Longrightarrow> i \<in> set healthy"
    and lev: "c1 = None \<Longrightarrow> pr_try_levelled draw (length cands) p1 slots1 now cands = (p2, slots2, c2)"
    and cands: "cands = filter (\<lambda>i. Some i \<noteq> pinned) healthy"
  shows "pr_like p p1"
    and "c1 = Some c \<Longrightarrow> chosen_ok p slots healthy slots1 c"
    and "c1 = None \<Longrightarrow> pr_like p p2"
    and "c1 = None \<Longrightarrow> c2 = Some c \<Longrightarrow> chosen_ok p slots healthy slots2 c"
    and "c1 = None \<Longrightarrow> c2 = None \<Longrightarrow> slots2 = slots \<and> (\<forall>i \<in> set healthy. \<not> kr_ready (pr_keys p ! i) slots now)
           \<and> (\<forall>i. i \<notin> set healthy \<longrightarrow> pr_keys p2 ! i = pr_keys p ! i)"
proof -
  show like1: "pr_like p p1"
    using pin by (auto dest: pr_try_like split: option.splits)
  show "c1 = Some c \<Longrightarrow> chosen_ok p slots healthy slots1 c"
    using pin pinned
    by (auto simp: pr_try_eq Let_def chosen_ok_def dest: kr_ready_slot split: option.splits if_splits)
  assume none: "c1 = None"
  have slots1: "slots1 = slots"
    using pin none by (auto simp: pr_try_eq Let_def split: option.splits if_splits)
  have same: "pr_keys p1 ! j = pr_keys p ! j" if "Some j \<noteq> pinned" for j
    using pin none that by (auto simp: pr_try_eq Let_def split: option.splits if_splits)
  have not_ready: "\<not> kr_ready (pr_keys p ! j) slots now" if "Some j = pinned" for j
    using pin none that by (auto simp: pr_try_eq Let_def split: option.splits if_splits)
  note run = lev [OF none]
  show "pr_like p p2"
    using pr_like_trans [OF like1 pr_try_levelled_like [OF run]] .
  note cases = pr_try_levelled_cases [OF run order_refl]
  show "chosen_ok p slots healthy slots2 c" if "c2 = Some c"
    using cases that slots1 pr_like_inflight [OF like1] pr_like_slot_free [OF like1]
    by (auto simp: chosen_ok_def cands dest: kr_ready_slot)
  show "slots2 = slots \<and> (\<forall>i \<in> set healthy. \<not> kr_ready (pr_keys p ! i) slots now)
      \<and> (\<forall>i. i \<notin> set healthy \<longrightarrow> pr_keys p2 ! i = pr_keys p ! i)" if "c2 = None"
  proof (intro conjI ballI allI impI)
    show "slots2 = slots" using cases that slots1 by simp
    fix i
    show "\<not> kr_ready (pr_keys p ! i) slots now" if "i \<in> set healthy"
      using cases \<open>c2 = None\<close> slots1 same not_ready that by (cases "Some i = pinned") (auto simp: cands)
    show "pr_keys p2 ! i = pr_keys p ! i" if "i \<notin> set healthy"
    proof -
      have "Some i \<noteq> pinned" using pinned that by auto
      with cases \<open>c2 = None\<close> same that show ?thesis by (auto simp: cands)
    qed
  qed
qed

lemma pr_admit_for_outcome:
  assumes "pr_admit_for draw digest p slots model tenant affinity now = (p', slots', r)" "pr_keys p \<noteq> []"
  shows "case r of
      None \<Rightarrow> slots' = slots \<and> (\<forall>i \<in> set (pr_mine p model tenant). kr_unavailable (pr_keys p ! i) slots now)
    | Some c \<Rightarrow> chosen_ok p slots (pr_mine p model tenant) slots' c"
proof (cases "pr_mine p model tenant = []")
  case True
  with assms show ?thesis by (auto simp: pr_admit_for_def)
next
  case False
  let ?mine = "pr_mine p model tenant"
  define healthy where "healthy = filter (\<lambda>i. br_looks_healthy (kr_breaker (pr_keys p ! i)) now) ?mine"
  define pinned where
    "pinned = (case affinity of None \<Rightarrow> None | Some session \<Rightarrow> pinned_seat digest p healthy session)"
  define cands where "cands = filter (\<lambda>i. Some i \<noteq> pinned) healthy"
  have pinned: "i \<in> set healthy" if "pinned = Some i" for i
    using that by (auto simp: pinned_def dest: pinned_seat_in split: option.splits)
  obtain p1 slots1 c1 where pin:
    "(case pinned of None \<Rightarrow> (p, slots, None) | Some i \<Rightarrow> pr_try p slots now i) = (p1, slots1, c1)"
    by (metis prod_cases3)
  obtain p2 slots2 c2 where lev:
    "pr_try_levelled draw (length cands) p1 slots1 now cands = (p2, slots2, c2)"
    by (metis prod_cases3)
  note phase = pr_healthy_phase [OF pin pinned lev cands_def]
  have mono: "chosen_ok p slots ?mine s c" if "chosen_ok p slots healthy s c" for s c
    using that by (auto simp: chosen_ok_def healthy_def)
  have run: "(if c1 \<noteq> None then (p1, slots1, c1) else if c2 \<noteq> None then (p2, slots2, c2)
      else pr_try_recovering p2 slots2 now (sort_key (\<lambda>i. kr_share (pr_keys p2 ! i)) ?mine)) = (p', slots', r)"
    using assms False pin lev unfolding pr_admit_for_def Let_def cands_def pinned_def healthy_def
    by (cases c1; cases c2) auto
  show ?thesis
  proof (cases "c1 = None \<and> c2 = None")
    case False
    with run phase(2,4) mono show ?thesis by (cases r) (auto split: if_splits)
  next
    case True
    with run have rec: "pr_try_recovering p2 slots2 now (sort_key (\<lambda>i. kr_share (pr_keys p2 ! i)) ?mine) = (p', slots', r)"
      by simp
    from True phase(3,5) have like: "pr_like p p2" and slots2: "slots2 = slots"
      and ready: "\<forall>i \<in> set healthy. \<not> kr_ready (pr_keys p ! i) slots now"
      and same: "\<forall>i. i \<notin> set healthy \<longrightarrow> pr_keys p2 ! i = pr_keys p ! i" by auto
    note cases = pr_try_recovering_cases [OF rec, simplified slots2, simplified]
    show ?thesis
    proof (cases r)
      case None
      with cases have "slots' = slots" and refuses: "\<forall>i \<in> set ?mine. kr_refuses (pr_keys p2 ! i) slots now" by auto
      have "kr_unavailable (pr_keys p ! i) slots now" if "i \<in> set ?mine" for i
        using that ready same refuses by (cases "i \<in> set healthy") (auto simp: kr_unavailable_def healthy_def)
      with None \<open>slots' = slots\<close> show ?thesis by simp
    next
      case (Some c)
      with cases have "chosen_ok p2 slots ?mine slots' c" by (auto simp: chosen_ok_def)
      with Some like show ?thesis by (simp add: chosen_ok_like)
    qed
  qed
qed

section \<open>Levelling\<close>

text \<open>A pool whose keys have no ceiling and all serve this caller.\<close>

definition pool_open :: "provider_runtime \<Rightarrow> string option \<Rightarrow> string option \<Rightarrow> bool" where
  "pool_open p model tenant \<longleftrightarrow> pr_keys p \<noteq> [] \<and>
     (\<forall>k \<in> set (pr_keys p). kr_rpm k = None \<and> kr_tpm k = None \<and> kr_inflight k = None
        \<and> pr_serves k model \<and> pr_owned_by p k tenant \<and> 0 < f64_val (kr_weight k))"

definition pool_healthy :: "provider_runtime \<Rightarrow> u64 \<Rightarrow> bool" where
  "pool_healthy p now \<longleftrightarrow> (\<forall>k \<in> set (pr_keys p). br_looks_healthy (kr_breaker k) now)"

text \<open>Dispatches one after the other: the \<open>n\<close>th at time \<open>nows n\<close>, drawing from \<open>draws n\<close>.\<close>

primrec dispatch_many ::
    "(nat \<Rightarrow> nat \<Rightarrow> nat \<Rightarrow> nat \<Rightarrow> nat) \<Rightarrow> (string \<Rightarrow> string) \<Rightarrow> (nat \<Rightarrow> u64) \<Rightarrow> string option \<Rightarrow> string option \<Rightarrow>
       provider_runtime \<times> slots \<Rightarrow> nat \<Rightarrow> provider_runtime \<times> slots" where
  "dispatch_many draws digest nows model tenant st 0 = st"
| "dispatch_many draws digest nows model tenant st (Suc n) =
     (let (p, slots) = dispatch_many draws digest nows model tenant st n;
          (p, slots, choice) = pr_admit_for (draws n) digest p slots model tenant None (nows n)
      in (p, slots))"

definition key_load :: "provider_runtime \<Rightarrow> nat \<Rightarrow> nat" where
  "key_load p i = unat (kr_leases (pr_keys p ! i))"

definition key_weight :: "provider_runtime \<Rightarrow> nat \<Rightarrow> rat" where
  "key_weight p i = f64_val (kr_weight (pr_keys p ! i))"

text \<open>Before its latest dispatch no key was ahead of another.\<close>

definition pool_level :: "provider_runtime \<Rightarrow> bool" where
  "pool_level p \<longleftrightarrow> (\<forall>i < length (pr_keys p). \<forall>j < length (pr_keys p).
     (of_nat (key_load p i) - 1) / key_weight p i \<le> of_nat (key_load p j) / key_weight p j)"

definition total_load :: "provider_runtime \<Rightarrow> nat" where
  "total_load p = (\<Sum>i < length (pr_keys p). key_load p i)"

lemma kr_share_eq: "kr_share (pr_keys p ! i) = of_nat (key_load p i) / key_weight p i"
  by (simp add: kr_share_def key_load_def key_weight_def)

lemma take_lease_serves [simp]:
  "pr_serves (kr_take_lease k) model = pr_serves k model"
  "kr_inflight (kr_take_lease k) = kr_inflight k" "kr_weight (kr_take_lease k) = kr_weight k"
  "kr_tenant (kr_take_lease k) = kr_tenant k"
  by (simp_all add: pr_serves_def kr_take_lease_def cong: option.case_cong)

lemma pr_owned_by_cong:
  "pr_managed q = pr_managed p \<Longrightarrow> kr_tenant k = kr_tenant k' \<Longrightarrow> pr_owned_by q k tenant = pr_owned_by p k' tenant"
  by (simp add: pr_owned_by_def)

lemma kr_try_admit_unlimited:
  "kr_rpm k = None \<Longrightarrow> kr_tpm k = None \<Longrightarrow> kr_try_admit_request k now = (k, True)"
  by (cases k) (simp add: kr_try_admit_request_def)

lemma pool_open_admit:
  fixes draw :: "nat \<Rightarrow> nat \<Rightarrow> nat \<Rightarrow> nat"
  assumes "pool_open p model tenant" "pool_healthy p now"
  defines "i \<equiv> balanced_pick (draw (length (pr_keys p))) p [0..<length (pr_keys p)]"
  shows "\<exists>c. pr_admit_for draw digest p slots model tenant None now
           = (pr_set p i (kr_take_lease (pr_keys p ! i)), slots, Some c)"
    and "i < length (pr_keys p)"
    and "j < length (pr_keys p) \<Longrightarrow> kr_share (pr_keys p ! i) \<le> kr_share (pr_keys p ! j)"
proof -
  let ?n = "length (pr_keys p)"
  have n: "[0..<?n] \<noteq> []" using assms(1) by (simp add: pool_open_def)
  show i: "i < ?n" using balanced_pick_in [OF n] by (simp add: i_def)
  show "j < ?n \<Longrightarrow> kr_share (pr_keys p ! i) \<le> kr_share (pr_keys p ! j)"
    unfolding i_def by (rule balanced_pick_least) simp
  have mine: "pr_mine p model tenant = [0..<?n]"
    using assms(1) by (auto simp: pr_mine_def pr_eligible_def pool_open_def intro!: filter_True)
  have healthy: "filter (\<lambda>i. br_looks_healthy (kr_breaker (pr_keys p ! i)) now) [0..<?n] = [0..<?n]"
    using assms(2) by (auto simp: pool_healthy_def intro!: filter_True)
  have attempt: "pr_try p slots now i = (pr_set p i (kr_take_lease (pr_keys p ! i)), slots,
      Some \<lparr>kc_key = Some i, kc_admission = Yes, kc_permit = None\<rparr>)"
    using assms(1) i
    by (simp add: pr_try_eq Let_def kr_ready_def slot_free_def take_permit_def pool_open_def kr_try_admit_unlimited)
  obtain m where m: "?n = Suc m" using n by (cases ?n) auto
  have "pr_try_levelled draw ?n p slots now [0..<?n] = (pr_set p i (kr_take_lease (pr_keys p ! i)), slots,
      Some \<lparr>kc_key = Some i, kc_admission = Yes, kc_permit = None\<rparr>)"
    using attempt n unfolding i_def m pr_try_levelled.simps Let_def by simp
  then show "\<exists>c. pr_admit_for draw digest p slots model tenant None now
      = (pr_set p i (kr_take_lease (pr_keys p ! i)), slots, Some c)"
    using n mine healthy by (simp add: pr_admit_for_def Let_def)
qed

lemma pool_set_lease:
  assumes "i < length (pr_keys p)" "unat (kr_leases (pr_keys p ! i)) + 1 < 2 ^ 64"
  defines "q \<equiv> pr_set p i (kr_take_lease (pr_keys p ! i))"
  shows "key_load q j = (if j = i then key_load p i + 1 else key_load p j)"
    and "key_weight q j = key_weight p j"
    and "total_load q = total_load p + 1"
    and "pool_open p model tenant \<Longrightarrow> pool_open q model tenant"
    and "pool_healthy p now \<Longrightarrow> pool_healthy q now"
    and "length (pr_keys q) = length (pr_keys p)"
proof -
  have "unat (kr_leases (pr_keys p ! i) + 1) = unat (kr_leases (pr_keys p ! i)) + 1"
    using assms(2) by (simp add: unat_word_ariths)
  with assms(1) show load: "key_load q j = (if j = i then key_load p i + 1 else key_load p j)" for j
    by (simp add: q_def key_load_def pr_set_def)
  show "key_weight q j = key_weight p j" for j
    using assms(1) by (cases "j = i") (simp_all add: q_def key_weight_def pr_set_def kr_take_lease_def)
  show len: "length (pr_keys q) = length (pr_keys p)" by (simp add: q_def)
  have "(\<Sum>j < length (pr_keys p). ((key_load p)(i := key_load p i + 1)) j) = total_load p + 1"
    using sum_fun_upd [of "{..<length (pr_keys p)}" i "\<lambda>x. x" "key_load p" "key_load p i + 1"] assms(1)
    by (simp add: total_load_def)
  moreover have "total_load q = (\<Sum>j < length (pr_keys p). ((key_load p)(i := key_load p i + 1)) j)"
    unfolding total_load_def len by (rule sum.cong) (auto simp: load)
  ultimately show "total_load q = total_load p + 1" by simp
  have keys: "pr_keys q = (pr_keys p)[i := kr_take_lease (pr_keys p ! i)]" by (simp add: q_def pr_set_def)
  have mem: "pr_keys p ! i \<in> set (pr_keys p)" using assms(1) by simp
  have managed: "pr_managed q = pr_managed p" by (simp add: q_def)
  show "pool_open p model tenant \<Longrightarrow> pool_open q model tenant"
    using mem pr_owned_by_cong [OF managed, of "kr_take_lease (pr_keys p ! i)" "pr_keys p ! i" tenant]
      pr_owned_by_cong [OF managed refl]
    by (auto simp: pool_open_def keys dest!: subsetD [OF set_update_subset_insert])
  show "pool_healthy p now \<Longrightarrow> pool_healthy q now"
    using mem by (auto simp: pool_healthy_def keys dest!: subsetD [OF set_update_subset_insert])
qed


lemma pool_level_step:
  assumes level: "pool_level p"
    and i: "i < length (pr_keys p)"
    and least: "\<And>j. j < length (pr_keys p) \<Longrightarrow> kr_share (pr_keys p ! i) \<le> kr_share (pr_keys p ! j)"
    and weights: "\<And>j. j < length (pr_keys p) \<Longrightarrow> 0 < key_weight p j"
    and load: "\<And>j. key_load q j = (if j = i then key_load p i + 1 else key_load p j)"
    and same: "\<And>j. key_weight q j = key_weight p j" "length (pr_keys q) = length (pr_keys p)"
  shows "pool_level q"
  unfolding pool_level_def
proof (intro allI impI)
  fix x y assume "x < length (pr_keys q)" "y < length (pr_keys q)"
  then have x: "x < length (pr_keys p)" and y: "y < length (pr_keys p)" by (simp_all add: same)
  have grow: "of_nat (key_load p y) / key_weight p y \<le> of_nat (key_load q y) / key_weight p y"
    using weights [OF y] by (auto simp: load divide_right_mono)
  have "(of_nat (key_load q x) - 1) / key_weight p x \<le> of_nat (key_load p y) / key_weight p y"
  proof (cases "x = i")
    case True
    then show ?thesis using least [OF y] by (simp add: load kr_share_eq)
  next
    case False
    then show ?thesis using level x y by (simp add: load pool_level_def)
  qed
  with grow show "(of_nat (key_load q x) - 1) / key_weight q x \<le> of_nat (key_load q y) / key_weight q y"
    by (simp add: same)
qed

lemma dispatch_many_inv:
  assumes "pool_open p model tenant" "\<And>m. m < n \<Longrightarrow> pool_healthy p (nows m)"
    and "pool_level p" "total_load p + n < 2 ^ 64"
    and "dispatch_many draws digest nows model tenant (p, slots) n = (q, slots')"
  shows "pool_open q model tenant \<and> (\<forall>now. pool_healthy p now \<longrightarrow> pool_healthy q now) \<and> pool_level q
    \<and> total_load q = total_load p + n \<and> length (pr_keys q) = length (pr_keys p)
    \<and> (\<forall>i. key_weight q i = key_weight p i)"
  using assms(2,4,5)
proof (induction n arbitrary: q slots')
  case 0
  with assms(1,3) show ?case by simp
next
  case (Suc n)
  obtain r slots1 where run: "dispatch_many draws digest nows model tenant (p, slots) n = (r, slots1)"
    by fastforce
  have IH: "pool_open r model tenant" "\<And>now. pool_healthy p now \<Longrightarrow> pool_healthy r now" "pool_level r"
    "total_load r = total_load p + n" "length (pr_keys r) = length (pr_keys p)"
    "\<And>i. key_weight r i = key_weight p i"
    using Suc.IH [OF _ _ run] Suc.prems(1,2) by auto
  have healthy: "pool_healthy r (nows n)" using IH(2) Suc.prems(1) by simp
  define i where "i = balanced_pick (draws n (length (pr_keys r))) r [0..<length (pr_keys r)]"
  note admit = pool_open_admit [OF IH(1) healthy, where draw = "draws n", folded i_def]
  have q: "q = pr_set r i (kr_take_lease (pr_keys r ! i))"
    using Suc.prems(3) run admit(1) [of digest slots1] by auto
  have "key_load r i \<le> total_load r"
    unfolding total_load_def using admit(2) by (intro member_le_sum) auto
  then have "unat (kr_leases (pr_keys r ! i)) + 1 < 2 ^ 64"
    using Suc.prems(2) IH(4) by (simp add: key_load_def)
  note step = pool_set_lease [OF admit(2) this, folded q]
  have "0 < key_weight r j" if "j < length (pr_keys r)" for j
    using IH(1) that by (simp add: pool_open_def key_weight_def)
  then have "pool_level q"
    using pool_level_step [OF IH(3) admit(2,3) _ step(1,2,6)] by blast
  with IH step show ?case by simp
qed


section \<open>A pool to evaluate on\<close>

definition sample_key_runtime :: "string \<Rightarrow> rat \<Rightarrow> string option \<Rightarrow> nat option \<Rightarrow> key_runtime" where
  "sample_key_runtime name weight tenant inflight =
     \<lparr>kr_name = name, kr_weight = Finite weight, kr_models = None, kr_tenant = tenant,
      kr_breaker = br_new \<lparr>failure_threshold = 5, window_ms = 60000, cooldown_ms = 30000\<rparr>,
      kr_source_path = None, kr_rpm = None, kr_tpm = None, kr_max_concurrency = map_option (\<lambda>_. 1) inflight,
      kr_inflight = inflight, kr_leases = 0\<rparr>"

definition sample_pool :: "bool \<Rightarrow> key_runtime list \<Rightarrow> provider_runtime" where
  "sample_pool managed keys =
     \<lparr>pr_name = ''openai'', pr_kind = OpenAi, pr_base_url = None, pr_auth = AuthKey, pr_keys = keys,
      pr_timeout_secs = 60, pr_semaphore = 1,
      pr_breaker = br_new \<lparr>failure_threshold = 5, window_ms = 60000, cooldown_ms = 30000\<rparr>,
      pr_azure = None, pr_bedrock = None, pr_vertex = None, pr_codex = None, pr_managed = managed\<rparr>"

text \<open>Two services share the pool; the second has one slot.\<close>

definition divided_pool :: provider_runtime where
  "divided_pool = sample_pool True
     [sample_key_runtime ''a'' 1 (Some ''search'') None, sample_key_runtime ''b'' 2 (Some ''chat'') (Some 0)]"

lemma divided_pool_admits:
  "snd (pr_admit_for (\<lambda>_ _ _. 0) (\<lambda>s. s) divided_pool [1] (Some ''m'') (Some ''chat'') None 5) =
     ([0], Some \<lparr>kc_key = Some 1, kc_admission = Yes, kc_permit = Some 0\<rparr>)"
  by code_simp

lemma divided_pool_refuses:
  "snd (pr_admit_for (\<lambda>_ _ _. 0) (\<lambda>s. s) divided_pool [0] (Some ''m'') (Some ''chat'') None 5) = ([0], None)"
  by code_simp


section \<open>Properties\<close>

text \<open>
  Property C6. The account a request is given serves the requested model, and in a pool divided
  between services it carries the label of the service the caller's key names: no caller spends
  another service's account, through the pinned seat, the levelled pick or a probe.
\<close>

theorem only_own_accounts_are_spent:
  assumes "pr_admit_for draw digest p slots model tenant affinity now = (p', slots', Some c)"
    and "pr_keys p \<noteq> []"
  shows "\<exists>i < length (pr_keys p). kc_key c = Some i \<and> pr_serves (pr_keys p ! i) model
    \<and> (pr_managed p \<longrightarrow> tenant \<noteq> None \<and> kr_tenant (pr_keys p ! i) = tenant)"
  using pr_admit_for_outcome [OF assms]
  by (auto simp: chosen_ok_def pr_mine_iff pr_owned_by_def split: option.splits if_splits)

theorem only_own_accounts_are_spent_witness:
  "\<exists>p' slots' c. pr_admit_for (\<lambda>_ _ _. 0) (\<lambda>s. s) divided_pool [1] (Some ''m'') (Some ''chat'') None 5
       = (p', slots', Some c)
     \<and> (\<exists>i < length (pr_keys divided_pool). kc_key c = Some i \<and> pr_serves (pr_keys divided_pool ! i) (Some ''m'')
          \<and> (pr_managed divided_pool \<longrightarrow> Some ''chat'' \<noteq> None \<and> kr_tenant (pr_keys divided_pool ! i) = Some ''chat''))"
proof -
  obtain p' where run: "pr_admit_for (\<lambda>_ _ _. 0) (\<lambda>s. s) divided_pool [1] (Some ''m'') (Some ''chat'') None 5
      = (p', [0], Some \<lparr>kc_key = Some 1, kc_admission = Yes, kc_permit = Some 0\<rparr>)"
    using divided_pool_admits by (metis prod.collapse)
  have "pr_keys divided_pool \<noteq> []" by (simp add: divided_pool_def sample_pool_def)
  from only_own_accounts_are_spent [OF run this] run show ?thesis by blast
qed

text \<open>
  An admission takes one in-flight slot of the account it gives out, and only if one was
  free; returning the permit restores every semaphore. A refusal leaves every semaphore as it was,
  also where a slot was reserved and the rate limit then refused.
\<close>

theorem a_permit_is_one_slot:
  assumes "pr_admit_for draw digest p slots model tenant affinity now = (p', slots', r)"
    and "pr_keys p \<noteq> []"
  shows "case r of
      None \<Rightarrow> slots' = slots
    | Some c \<Rightarrow> release_slot slots' (kc_permit c) = slots
        \<and> (\<exists>i. kc_key c = Some i \<and> kc_permit c = kr_inflight (pr_keys p ! i)
             \<and> (\<forall>a. kr_inflight (pr_keys p ! i) = Some a \<longrightarrow> 0 < slots ! a \<and> slots' = slots[a := slots ! a - 1]))"
  using pr_admit_for_outcome [OF assms]
  by (cases r) (auto simp: chosen_ok_def, auto simp: slot_free_def take_permit_def)

theorem a_permit_is_one_slot_witness:
  "\<exists>p'. pr_admit_for (\<lambda>_ _ _. 0) (\<lambda>s. s) divided_pool [1] (Some ''m'') (Some ''chat'') None 5
       = (p', [0], Some \<lparr>kc_key = Some 1, kc_admission = Yes, kc_permit = Some 0\<rparr>)
     \<and> release_slot [0] (Some 0) = [1]"
proof -
  obtain p' where run: "pr_admit_for (\<lambda>_ _ _. 0) (\<lambda>s. s) divided_pool [1] (Some ''m'') (Some ''chat'') None 5
      = (p', [0], Some \<lparr>kc_key = Some 1, kc_admission = Yes, kc_permit = Some 0\<rparr>)"
    using divided_pool_admits by (metis prod.collapse)
  have "pr_keys divided_pool \<noteq> []" by (simp add: divided_pool_def sample_pool_def)
  from a_permit_is_one_slot [OF run this] run show ?thesis by auto
qed

text \<open>
  A request is refused only when every account that serves the model and belongs to the
  caller is unavailable: one that looks healthy has no slot or no request or token left in its
  minute, and one that does not is refused by its breaker, or by a ceiling when its breaker admits.
\<close>

theorem refused_only_when_every_account_is:
  assumes "pr_admit_for draw digest p slots model tenant affinity now = (p', slots', None)"
    and "pr_keys p \<noteq> []" and "i < length (pr_keys p)"
    and "pr_serves (pr_keys p ! i) model" and "pr_owned_by p (pr_keys p ! i) tenant"
  shows "kr_unavailable (pr_keys p ! i) slots now"
  using pr_admit_for_outcome [OF assms(1,2)] assms(3-5) by (simp add: pr_mine_iff)

theorem refused_only_when_every_account_is_witness:
  "(\<exists>p'. pr_admit_for (\<lambda>_ _ _. 0) (\<lambda>s. s) divided_pool [0] (Some ''m'') (Some ''chat'') None 5 = (p', [0], None))
     \<and> kr_unavailable (pr_keys divided_pool ! 1) [0] 5"
proof -
  obtain p' where run: "pr_admit_for (\<lambda>_ _ _. 0) (\<lambda>s. s) divided_pool [0] (Some ''m'') (Some ''chat'') None 5
      = (p', [0], None)"
    using divided_pool_refuses by (metis prod.collapse)
  have pool: "pr_keys divided_pool \<noteq> []" "1 < length (pr_keys divided_pool)"
    "pr_serves (pr_keys divided_pool ! 1) (Some ''m'')"
    "pr_owned_by divided_pool (pr_keys divided_pool ! 1) (Some ''chat'')"
    by code_simp+
  from refused_only_when_every_account_is [OF run pool] run show ?thesis by blast
qed

text \<open>
  Property C21. Levelling splits the dispatches in proportion to the weights: after any number of
  dispatches over healthy accounts without ceilings, however ties are drawn, all of them are counted
  and no account is more than one dispatch ahead of any other's share, so equal weights give counts
  that differ by at most one.
\<close>

theorem levelling_splits_by_weight:
  assumes "pool_open p model tenant" "\<And>m. m < n \<Longrightarrow> pool_healthy p (nows m)"
    and "\<And>k. k \<in> set (pr_keys p) \<Longrightarrow> kr_leases k = 0" "n < 2 ^ 64"
    and "dispatch_many draws digest nows model tenant (p, slots) n = (q, slots')"
  shows "(\<Sum>i < length (pr_keys p). key_load q i) = n
    \<and> (\<forall>i < length (pr_keys p). \<forall>j < length (pr_keys p).
         (of_nat (key_load q i) - 1) / key_weight p i \<le> of_nat (key_load q j) / key_weight p j)"
proof -
  have zero: "key_load p i = 0" if "i < length (pr_keys p)" for i
    using assms(3) that by (simp add: key_load_def)
  have "0 < key_weight p i" if "i < length (pr_keys p)" for i
    using assms(1) that by (simp add: pool_open_def key_weight_def)
  then have "pool_level p" by (auto simp: pool_level_def zero intro: less_imp_le)
  moreover have "total_load p = 0" by (simp add: total_load_def zero)
  ultimately show ?thesis
    using dispatch_many_inv [OF assms(1,2) _ _ assms(5)] assms(4)
    unfolding pool_level_def total_load_def by auto
qed


text \<open>Three dispatches over two accounts without ceilings, the second of twice the weight.\<close>

definition open_pool :: provider_runtime where
  "open_pool = sample_pool False
     [sample_key_runtime ''a'' 1 None None, sample_key_runtime ''b'' 2 None None]"

lemma open_pool_ok:
  "pool_open open_pool (Some ''m'') None" "pool_healthy open_pool now"
  "k \<in> set (pr_keys open_pool) \<Longrightarrow> kr_leases k = 0"
proof -
  show "pool_open open_pool (Some ''m'') None" by code_simp
  have "br_state (br_pack 0 ST_CLOSED) = ST_CLOSED" by code_simp
  then show "pool_healthy open_pool now"
    by (simp add: open_pool_def pool_healthy_def sample_pool_def sample_key_runtime_def br_looks_healthy_def
        br_new_def br_is_benched_def)
qed (auto simp: open_pool_def sample_pool_def sample_key_runtime_def)

theorem levelling_splits_by_weight_witness:
  "\<exists>q slots'. dispatch_many (\<lambda>_ _ _ _. 0) (\<lambda>s. s) (\<lambda>_. 5) (Some ''m'') None (open_pool, []) 3 = (q, slots')
     \<and> (\<Sum>i < length (pr_keys open_pool). key_load q i) = 3"
proof -
  obtain q slots' where run:
    "dispatch_many (\<lambda>_ _ _ _. 0) (\<lambda>s. s) (\<lambda>_. 5) (Some ''m'') None (open_pool, []) 3 = (q, slots')"
    by fastforce
  from levelling_splits_by_weight [OF open_pool_ok(1,2,3) _ run] run show ?thesis by auto
qed

lemma pr_mine_like:
  assumes "pr_like p q" "pr_managed q = pr_managed p"
  shows "pr_mine q model tenant = pr_mine p model tenant"
proof -
  have "kr_models (pr_keys q ! i) = kr_models (pr_keys p ! i)" "kr_tenant (pr_keys q ! i) = kr_tenant (pr_keys p ! i)" for i
    using assms(1) by (simp_all add: pr_like_def kr_fixed_def)
  moreover have "length (pr_keys q) = length (pr_keys p)" using assms(1) by (simp add: pr_like_def)
  ultimately show ?thesis
    using assms(2)
    by (simp add: pr_mine_def pr_eligible_def pr_serves_def pr_owned_by_def cong: option.case_cong)
qed

definition pr_healthy :: "provider_runtime \<Rightarrow> string option \<Rightarrow> string option \<Rightarrow> u64 \<Rightarrow> nat list" where
  "pr_healthy p model tenant now =
     filter (\<lambda>i. br_looks_healthy (kr_breaker (pr_keys p ! i)) now) (pr_mine p model tenant)"

lemma pinned_seat_like: "pr_like p q \<Longrightarrow> pinned_seat digest q = pinned_seat digest p"
  by (auto simp: pinned_seat_def pr_like_def kr_fixed_def fun_eq_iff)

lemma pinned_seat_served:
  assumes "pinned_seat digest q (pr_healthy q model tenant now) session = Some i" "kr_ready (pr_keys q ! i) slots now"
  shows "\<exists>q' slots' c. pr_admit_for draw digest q slots model tenant (Some session) now = (q', slots', Some c)
           \<and> kc_key c = Some i"
proof -
  from pinned_seat_in [OF assms(1)] have i: "i \<in> set (pr_mine q model tenant)"
    by (simp add: pr_healthy_def)
  then have "pr_mine q model tenant \<noteq> []" by auto
  moreover from i have "pr_keys q \<noteq> []" by (auto simp: pr_mine_iff)
  ultimately show ?thesis using assms
    by (simp add: pr_admit_for_def Let_def pr_healthy_def pr_try_eq)
qed

text \<open>
  Property C32. A session keeps its seat when other seats leave the pool: as long as its seat is healthy
  and has room, the session is served there, whichever other seats have been benched or broken
  since, whatever their balances. Only sessions of the seats that left move.
\<close>

theorem a_session_keeps_its_seat:
  assumes "pinned_seat digest p (pr_healthy p model tenant now) session = Some i"
    and "pr_like p q" "pr_managed q = pr_managed p"
    and left: "\<And>j. j < length (pr_keys p) \<Longrightarrow> br_looks_healthy (kr_breaker (pr_keys q ! j)) later \<Longrightarrow> br_looks_healthy (kr_breaker (pr_keys p ! j)) now"
    and "br_looks_healthy (kr_breaker (pr_keys q ! i)) later" "kr_ready (pr_keys q ! i) slots later"
  shows "\<exists>q' slots' c. pr_admit_for draw digest q slots model tenant (Some session) later = (q', slots', Some c)
           \<and> kc_key c = Some i"
proof -
  have "pr_healthy q model tenant later =
      filter (\<lambda>j. br_looks_healthy (kr_breaker (pr_keys q ! j)) later) (pr_healthy p model tenant now)"
    using left by (auto simp: pr_healthy_def pr_mine_like [OF assms(2,3)] pr_mine_iff intro!: filter_cong)
  then have "pinned_seat digest q (pr_healthy q model tenant later) session = Some i"
    using pinned_fold_filter [OF assms(1) [unfolded pinned_seat_def]] assms(5)
    by (simp add: pinned_seat_like [OF assms(2)]) (simp add: pinned_seat_def)
  from pinned_seat_served [OF this assms(6)] show ?thesis .
qed

text \<open>The session's seat is \<open>b\<close>; then \<open>a\<close> is benched.\<close>

theorem a_session_keeps_its_seat_witness:
  "\<exists>q' slots' c. pr_admit_for (\<lambda>_ _ _. 0) (\<lambda>s. drop 2 s)
       (pr_set open_pool 0 ((pr_keys open_pool ! 0)\<lparr>kr_breaker := br_bench_until (kr_breaker (pr_keys open_pool ! 0)) 99\<rparr>))
       [] (Some ''m'') None (Some ''s'') 7 = (q', slots', Some c) \<and> kc_key c = Some 1"
proof (rule a_session_keeps_its_seat [where p = open_pool and now = 5])
  let ?b = "br_bench_until (kr_breaker (pr_keys open_pool ! 0)) 99"
  have "pr_healthy open_pool (Some ''m'') None 5 = [0, 1]" by code_simp
  then show "pinned_seat (\<lambda>s. drop 2 s) open_pool (pr_healthy open_pool (Some ''m'') None 5) ''s'' = Some 1"
    by (simp add: pinned_seat_def pinned_step_def rendezvous_score_def open_pool_def sample_pool_def
        sample_key_runtime_def word_le_nat_alt)
  show "pr_like open_pool (pr_set open_pool 0 ((pr_keys open_pool ! 0)\<lparr>kr_breaker := ?b\<rparr>))"
    by (rule pr_like_set) (simp add: kr_fixed_def)
  show "br_looks_healthy (kr_breaker (pr_keys open_pool ! j)) 5" if "j < length (pr_keys open_pool)" for j
  proof -
    have "j = 0 \<or> j = 1" using that by (auto simp: open_pool_def sample_pool_def)
    moreover have "br_looks_healthy (kr_breaker (pr_keys open_pool ! 0)) 5"
      "br_looks_healthy (kr_breaker (pr_keys open_pool ! 1)) 5" by code_simp+
    ultimately show ?thesis by blast
  qed
  show "br_looks_healthy (kr_breaker (pr_keys (pr_set open_pool 0 ((pr_keys open_pool ! 0)\<lparr>kr_breaker := ?b\<rparr>)) ! 1)) 7"
    by code_simp
  show "kr_ready (pr_keys (pr_set open_pool 0 ((pr_keys open_pool ! 0)\<lparr>kr_breaker := ?b\<rparr>)) ! 1) [] 7"
    by code_simp
qed simp

end
