(* ===== verification/Gateway_Error.thy ===== *)
theory Gateway_Error
  imports RR_Prelude
begin

text \<open>The failure taxonomy of \<open>crates/router-core/src/error.rs\<close>.\<close>

datatype error_class =
    InvalidRequest | Authentication | Permission | NotFound | PayloadTooLarge
  | TooManyRequests | InsufficientQuota | UpstreamError | NoCapacity | Timeout

fun http_status :: "error_class \<Rightarrow> nat" where
  "http_status InvalidRequest = 400"
| "http_status Authentication = 401"
| "http_status Permission = 403"
| "http_status NotFound = 404"
| "http_status PayloadTooLarge = 413"
| "http_status TooManyRequests = 429"
| "http_status InsufficientQuota = 429"
| "http_status UpstreamError = 502"
| "http_status NoCapacity = 503"
| "http_status Timeout = 504"

fun openai_type :: "error_class \<Rightarrow> string" where
  "openai_type InvalidRequest = ''invalid_request_error''"
| "openai_type NotFound = ''invalid_request_error''"
| "openai_type PayloadTooLarge = ''invalid_request_error''"
| "openai_type Authentication = ''authentication_error''"
| "openai_type Permission = ''permission_error''"
| "openai_type TooManyRequests = ''rate_limit_error''"
| "openai_type InsufficientQuota = ''rate_limit_error''"
| "openai_type UpstreamError = ''api_error''"
| "openai_type NoCapacity = ''api_error''"
| "openai_type Timeout = ''api_error''"

fun error_code :: "error_class \<Rightarrow> string" where
  "error_code InvalidRequest = ''invalid_request''"
| "error_code Authentication = ''invalid_api_key''"
| "error_code Permission = ''permission_denied''"
| "error_code NotFound = ''not_found''"
| "error_code PayloadTooLarge = ''payload_too_large''"
| "error_code TooManyRequests = ''rate_limited''"
| "error_code InsufficientQuota = ''insufficient_quota''"
| "error_code UpstreamError = ''upstream_error''"
| "error_code NoCapacity = ''no_capacity''"
| "error_code Timeout = ''timeout''"

record gateway_error =
  ge_class :: error_class
  ge_message :: string
  ge_param :: "string option"
  ge_provider :: "string option"
  ge_upstream_status :: "nat option"

definition ge_new :: "error_class \<Rightarrow> string \<Rightarrow> gateway_error" where
  "ge_new class message =
     \<lparr>ge_class = class, ge_message = message, ge_param = None, ge_provider = None,
      ge_upstream_status = None\<rparr>"

definition ge_with_param :: "gateway_error \<Rightarrow> string \<Rightarrow> gateway_error" where
  "ge_with_param e param = e\<lparr>ge_param := Some param\<rparr>"

definition ge_with_provider :: "gateway_error \<Rightarrow> string \<Rightarrow> gateway_error" where
  "ge_with_provider e provider = e\<lparr>ge_provider := Some provider\<rparr>"

definition ge_with_upstream_status :: "gateway_error \<Rightarrow> nat \<Rightarrow> gateway_error" where
  "ge_with_upstream_status e status = e\<lparr>ge_upstream_status := Some status\<rparr>"

definition ge_display :: "gateway_error \<Rightarrow> string" where
  "ge_display e = error_code (ge_class e) @ '': '' @ ge_message e"

text \<open>The code tells every class apart, also the two that share status 429.\<close>

lemma error_code_inject: "error_code a = error_code b \<longleftrightarrow> a = b"
  by (cases a; cases b) simp_all

lemma http_status_range: "400 \<le> http_status c \<and> http_status c < 600"
  by (cases c) simp_all

end
