(* ===== verification/Routing_Table.thy ===== *)
theory Routing_Table
  imports Key_Selection Gateway_Error "HOL-Library.Multiset"
begin

text \<open>
  The routing snapshot of \<open>crates/router-core/src/router.rs\<close>: building it from a configuration, carrying
  the runtime state of a previous snapshot across a reload, and resolving a requested model into the
  ordered targets of a dispatch. Semaphores are addresses in the store of free permits of \<open>Key_Pool\<close>;
  \<open>Semaphore::new\<close> appends one. The random draws are parameters.
\<close>

record routing_table =
  rt_providers :: "(string \<times> provider_runtime) list"
  rt_catalog :: "string \<rightharpoonup> string"
  rt_aliases :: "string \<rightharpoonup> target_model"
  rt_fallbacks :: "target_model \<rightharpoonup> target_model list"
  rt_groups :: "string \<rightharpoonup> routing_group"
  rt_retries :: retries

record resolved_route =
  rr_provider :: provider_runtime
  rr_upstream_model :: string

record route_plan =
  rp_targets :: "resolved_route list"
  rp_max_attempts_per_target :: u32
  rp_retry_on :: "retry_on list"

definition rt_provider :: "routing_table \<Rightarrow> string \<Rightarrow> provider_runtime option" where
  "rt_provider t name = map_of (rt_providers t) name"

section \<open>Building a snapshot\<close>

definition previous_key :: "routing_table option \<Rightarrow> string \<Rightarrow> string \<Rightarrow> key_runtime option" where
  "previous_key prev provider key =
     Option.bind prev (\<lambda>t.
     Option.bind (rt_provider t provider) (\<lambda>p.
       find (\<lambda>k. kr_name k = key) (pr_keys p)))"

definition carry_slots :: "slots \<Rightarrow> key_runtime option \<Rightarrow> u32 option \<Rightarrow> slots \<times> nat option" where
  "carry_slots slots prev limit =
     (case limit of
        None \<Rightarrow> (slots, None)
      | Some limit \<Rightarrow>
          (case prev of
             Some p \<Rightarrow>
               if kr_max_concurrency p = Some limit then (slots, kr_inflight p)
               else (slots @ [unat limit], Some (length slots))
           | None \<Rightarrow> (slots @ [unat limit], Some (length slots))))"

definition carry_bucket :: "token_bucket option \<Rightarrow> u64 option \<Rightarrow> token_bucket option" where
  "carry_bucket prev limit =
     (case (prev, limit) of
        (Some bucket, Some _) \<Rightarrow> Some (tb_clone_state bucket)
      | (_, Some limit) \<Rightarrow> Some (tb_new limit (u64_div_ceil limit 60))
      | (_, None) \<Rightarrow> None)"

text \<open>What a key added by this edit starts its balance at.\<close>

definition lease_floor :: "routing_table option \<Rightarrow> string \<Rightarrow> u64" where
  "lease_floor prev name =
     (case Option.bind prev (\<lambda>t. rt_provider t name) of
        None \<Rightarrow> 0
      | Some p \<Rightarrow> (case pr_keys p of [] \<Rightarrow> 0 | ks \<Rightarrow> Min (set (map kr_leases ks))))"

definition build_key ::
    "breaker_config \<Rightarrow> routing_table option \<Rightarrow> string \<Rightarrow> slots \<Rightarrow> api_key \<Rightarrow> slots \<times> key_runtime" where
  "build_key breaker_config prev provider slots k =
     (let old = previous_key prev provider (ak_name k);
          (slots, inflight) = carry_slots slots old (ak_max_concurrency k)
      in (slots,
          \<lparr>kr_name = ak_name k, kr_weight = ak_weight k, kr_models = map_option set (ak_models k),
           kr_tenant = ak_tenant k, kr_breaker = br_new breaker_config,
           kr_source_path = ak_source_path k,
           kr_rpm = carry_bucket (Option.bind old kr_rpm) (ak_rpm k),
           kr_tpm = carry_bucket (Option.bind old kr_tpm) (ak_tpm k),
           kr_max_concurrency = ak_max_concurrency k, kr_inflight = inflight,
           kr_leases = (case old of None \<Rightarrow> lease_floor prev provider | Some p \<Rightarrow> kr_leases p)\<rparr>))"

fun build_keys ::
    "breaker_config \<Rightarrow> routing_table option \<Rightarrow> string \<Rightarrow> slots \<Rightarrow> api_key list \<Rightarrow> slots \<times> key_runtime list" where
  "build_keys breaker_config prev provider slots [] = (slots, [])"
| "build_keys breaker_config prev provider slots (k # ks) =
     (let (slots, kr) = build_key breaker_config prev provider slots k;
          (slots, krs) = build_keys breaker_config prev provider slots ks
      in (slots, kr # krs))"

definition build_provider ::
    "breaker_config \<Rightarrow> routing_table option \<Rightarrow> slots \<Rightarrow> string \<times> provider \<Rightarrow> slots \<times> provider_runtime" where
  "build_provider breaker_config prev slots np =
     (let (name, p) = np;
          (slots, keys) = build_keys breaker_config prev name slots (pv_keys p)
      in (slots @ [pv_max_concurrency p],
          \<lparr>pr_name = name, pr_kind = pv_kind p, pr_base_url = pv_base_url p, pr_auth = pv_auth p,
           pr_keys = keys, pr_timeout_secs = pv_timeout_secs p, pr_semaphore = length slots,
           pr_breaker = br_new breaker_config, pr_azure = pv_azure p, pr_bedrock = pv_bedrock p,
           pr_vertex = pv_vertex p, pr_codex = pv_codex p,
           pr_managed = list_ex (\<lambda>k. ak_tenant k \<noteq> None) (pv_keys p)\<rparr>))"

fun build_providers ::
    "breaker_config \<Rightarrow> routing_table option \<Rightarrow> slots \<Rightarrow> (string \<times> provider) list \<Rightarrow>
       slots \<times> (string \<times> provider_runtime) list" where
  "build_providers breaker_config prev slots [] = (slots, [])"
| "build_providers breaker_config prev slots (np # nps) =
     (let (slots, p) = build_provider breaker_config prev slots np;
          (slots, ps) = build_providers breaker_config prev slots nps
      in (slots, (fst np, p) # ps))"

text \<open>The catalog: the first provider, in name order, with a key that lists the model.\<close>

definition lists_model :: "provider_runtime \<Rightarrow> string \<Rightarrow> bool" where
  "lists_model p model =
     list_ex (\<lambda>k. case kr_models k of None \<Rightarrow> False | Some ms \<Rightarrow> model \<in> ms) (pr_keys p)"

definition build_catalog :: "(string \<times> provider_runtime) list \<Rightarrow> string \<rightharpoonup> string" where
  "build_catalog ps model = map_option fst (find (\<lambda>(name, p). lists_model p model) ps)"

definition from_config_with :: "config \<Rightarrow> routing_table option \<Rightarrow> slots \<Rightarrow> slots \<times> routing_table" where
  "from_config_with cfg prev slots =
     (let bs = rl_breaker (cf_reliability cfg);
          breaker_config =
            \<lparr>failure_threshold = bs_failure_threshold bs, window_ms = bs_window_ms bs,
             cooldown_ms = bs_cooldown_ms bs\<rparr>;
          (slots, ps) = build_providers breaker_config prev slots (cf_providers cfg)
      in (slots,
          \<lparr>rt_providers = ps, rt_catalog = build_catalog ps, rt_aliases = cf_aliases cfg,
           rt_fallbacks = cf_fallbacks cfg, rt_groups = cf_groups cfg, rt_retries = cf_retries cfg\<rparr>))"

section \<open>Resolution\<close>

text \<open>\<open>weighted_pick_target\<close>: \<open>roll\<close> is the draw times the total; \<open>None\<close> is the panic on an empty pool.\<close>

fun pick_roll :: "rat \<Rightarrow> weighted_target list \<Rightarrow> weighted_target list \<Rightarrow> target_model option" where
  "pick_roll roll pool [] = (if pool = [] then None else Some (wt_target (last pool)))"
| "pick_roll roll pool (w # ws) =
     (let roll = roll - f64_val (wt_weight w)
      in if roll \<le> 0 then Some (wt_target w) else pick_roll roll pool ws)"

definition weighted_pick_target :: "rat \<Rightarrow> weighted_target list \<Rightarrow> target_model option" where
  "weighted_pick_target draw pool =
     pick_roll (draw * sum_list (map (\<lambda>w. f64_val (wt_weight w)) pool)) pool pool"

text \<open>
  \<open>weighted_order\<close>: \<open>drawn i\<close> is the key \<open>u^(1/w)\<close> of the \<open>i\<close>th entry; a stable descending sort.
\<close>

definition weighted_order :: "(nat \<Rightarrow> rat) \<Rightarrow> weighted_target list \<Rightarrow> target_model list" where
  "weighted_order drawn pool =
     (if length pool < 2 then map wt_target pool
      else map (\<lambda>i. wt_target (pool ! i)) (sort_key (\<lambda>i. - drawn i) [0..<length pool]))"

definition unknown_model :: "string \<Rightarrow> gateway_error" where
  "unknown_model requested =
     ge_with_param (ge_new NotFound
       (''unknown model `'' @ requested @ ''`; use `provider/model`, a routing group, a configured alias, or a model listed in a key's `models`''))
       ''model''"

definition unconfigured_provider :: "string \<Rightarrow> string \<Rightarrow> gateway_error" where
  "unconfigured_provider requested provider =
     ge_with_param (ge_new NotFound
       (''model `'' @ requested @ ''` routes to unconfigured provider `'' @ provider @ ''`'')) ''model''"

definition unusable_group :: "string \<Rightarrow> gateway_error" where
  "unusable_group requested =
     ge_with_param (ge_new NotFound
       (''routing group `'' @ requested @ ''` has no usable target; every model in it names a provider this gateway is not configured for''))
       ''model''"

definition resolve_target :: "rat \<Rightarrow> routing_table \<Rightarrow> string \<Rightarrow> (gateway_error + target_model) option" where
  "resolve_target draw t requested =
     (case rt_groups t requested of
        Some g \<Rightarrow> map_option Inr (weighted_pick_target draw (rg_primary g))
      | None \<Rightarrow>
     (case rt_aliases t requested of
        Some target \<Rightarrow> Some (Inr target)
      | None \<Rightarrow>
          let by_name =
            (case rt_catalog t requested of
               Some provider \<Rightarrow> Some (Inr \<lparr>tg_provider = provider, tg_model = requested\<rparr>)
             | None \<Rightarrow> Some (Inl (unknown_model requested)))
          in (case tg_parse requested of
                Some target \<Rightarrow>
                  if rt_provider t (tg_provider target) \<noteq> None then Some (Inr target) else by_name
              | None \<Rightarrow> by_name)))"

definition route_to :: "routing_table \<Rightarrow> target_model \<Rightarrow> string \<Rightarrow> gateway_error + resolved_route" where
  "route_to t target requested =
     (case rt_provider t (tg_provider target) of
        None \<Rightarrow> Inl (unconfigured_provider requested (tg_provider target))
      | Some p \<Rightarrow> Inr \<lparr>rr_provider = p, rr_upstream_model = tg_model target\<rparr>)"

definition rt_resolve :: "rat \<Rightarrow> routing_table \<Rightarrow> string \<Rightarrow> (gateway_error + resolved_route) option" where
  "rt_resolve draw t requested =
     map_option (\<lambda>r. case r of Inl e \<Rightarrow> Inl e | Inr target \<Rightarrow> route_to t target requested)
       (resolve_target draw t requested)"

text \<open>Targets whose provider is not configured are passed over.\<close>

definition usable_routes :: "routing_table \<Rightarrow> string \<Rightarrow> target_model list \<Rightarrow> resolved_route list" where
  "usable_routes t requested targets =
     List.map_filter (\<lambda>target. case route_to t target requested of Inl _ \<Rightarrow> None | Inr r \<Rightarrow> Some r) targets"

definition plan_of :: "routing_table \<Rightarrow> resolved_route list \<Rightarrow> route_plan" where
  "plan_of t targets =
     \<lparr>rp_targets = targets, rp_max_attempts_per_target = max (re_max_attempts (rt_retries t)) 1,
      rp_retry_on = re_on (rt_retries t)\<rparr>"

definition plan_group ::
    "(nat \<Rightarrow> rat) \<Rightarrow> (nat \<Rightarrow> rat) \<Rightarrow> routing_table \<Rightarrow> string \<Rightarrow> routing_group \<Rightarrow> gateway_error + route_plan" where
  "plan_group drawn drawn' t requested g =
     (let targets = usable_routes t requested
            (weighted_order drawn (rg_primary g) @ weighted_order drawn' (rg_fallback g))
      in if targets = [] then Inl (unusable_group requested) else Inr (plan_of t targets))"

definition rt_plan ::
    "(nat \<Rightarrow> rat) \<Rightarrow> (nat \<Rightarrow> rat) \<Rightarrow> rat \<Rightarrow> routing_table \<Rightarrow> string \<Rightarrow> (gateway_error + route_plan) option" where
  "rt_plan drawn drawn' draw t requested =
     (case rt_groups t requested of
        Some g \<Rightarrow> Some (plan_group drawn drawn' t requested g)
      | None \<Rightarrow>
          (case resolve_target draw t requested of
             None \<Rightarrow> None
           | Some (Inl e) \<Rightarrow> Some (Inl e)
           | Some (Inr primary) \<Rightarrow>
               (case route_to t primary requested of
                  Inl e \<Rightarrow> Some (Inl e)
                | Inr route \<Rightarrow>
                    Some (Inr (plan_of t (route #
                      (case rt_fallbacks t primary of
                         None \<Rightarrow> []
                       | Some chain \<Rightarrow> usable_routes t requested chain)))))))"

definition breaker_for :: "provider_runtime \<Rightarrow> nat option \<Rightarrow> breaker" where
  "breaker_for p key = (case key of None \<Rightarrow> pr_breaker p | Some i \<Rightarrow> kr_breaker (pr_keys p ! i))"

section \<open>Planning\<close>

lemma usable_routes_eq:
  "usable_routes t requested targets =
     map (\<lambda>tg. \<lparr>rr_provider = the (rt_provider t (tg_provider tg)), rr_upstream_model = tg_model tg\<rparr>)
       (filter (\<lambda>tg. rt_provider t (tg_provider tg) \<noteq> None) targets)"
  by (induction targets)
    (auto simp: usable_routes_def route_to_def List.map_filter_simps split: option.splits)

lemma usable_routes_empty:
  "usable_routes t requested targets = [] \<longleftrightarrow> (\<forall>tg \<in> set targets. rt_provider t (tg_provider tg) = None)"
  by (auto simp: usable_routes_eq filter_empty_conv)

lemma mset_weighted_order: "mset (weighted_order drawn pool) = mset (map wt_target pool)"
proof (cases "length pool < 2")
  case False
  have "mset (map (\<lambda>i. wt_target (pool ! i)) (sort_key (\<lambda>i. - drawn i) [0..<length pool]))
      = mset (map (\<lambda>i. wt_target (pool ! i)) [0..<length pool])"
    by (simp only: mset_map mset_sort)
  also have "map (\<lambda>i. wt_target (pool ! i)) [0..<length pool] = map wt_target pool"
    by (rule nth_equalityI) simp_all
  finally show ?thesis using False by (simp add: weighted_order_def)
qed (simp add: weighted_order_def)

lemma set_weighted_order [simp]: "set (weighted_order drawn pool) = wt_target ` set pool"
  using mset_weighted_order [of drawn pool] by (metis mset_eq_setD set_map)


section \<open>Properties\<close>

definition target_usable :: "routing_table \<Rightarrow> target_model \<Rightarrow> bool" where
  "target_usable t tg \<longleftrightarrow> rt_provider t (tg_provider tg) \<noteq> None"

lemma route_to_usable: "target_usable t tg \<Longrightarrow> route_to t tg requested =
    Inr \<lparr>rr_provider = the (rt_provider t (tg_provider tg)), rr_upstream_model = tg_model tg\<rparr>"
  by (auto simp: target_usable_def route_to_def)

lemma usable_routes_Inr:
  "map Inr (usable_routes t requested targets) = map (\<lambda>tg. route_to t tg requested) (filter (target_usable t) targets)"
  by (induction targets) (auto simp: usable_routes_eq route_to_usable, auto simp: target_usable_def)

lemma mset_usable_order:
  "mset (filter (target_usable t) (weighted_order drawn pool)) = mset (filter (target_usable t) (map wt_target pool))"
  by (simp only: mset_filter mset_weighted_order)

lemma resolve_target_no_group:
  "rt_groups t requested = None \<Longrightarrow> resolve_target draw t requested \<noteq> None"
  by (auto simp: resolve_target_def Let_def split: option.splits)

lemma rt_plan_of_group:
  "rt_groups t requested = Some g \<Longrightarrow> rt_plan drawn drawn' draw t requested = Some (Inr plan) \<longleftrightarrow>
     plan = plan_of t (usable_routes t requested (weighted_order drawn (rg_primary g) @ weighted_order drawn' (rg_fallback g)))
     \<and> rp_targets plan \<noteq> []"
  by (auto simp: rt_plan_def plan_group_def Let_def plan_of_def)

lemma rt_plan_of_target:
  assumes "rt_groups t requested = None" "rt_plan drawn drawn' draw t requested = Some (Inr plan)"
  obtains primary where "resolve_target draw t requested = Some (Inr primary)" "target_usable t primary"
    "map Inr (rp_targets plan) = map (\<lambda>tg. route_to t tg requested)
       (primary # filter (target_usable t) (case rt_fallbacks t primary of None \<Rightarrow> [] | Some chain \<Rightarrow> chain))"
    "1 \<le> rp_max_attempts_per_target plan"
  using assms
  by (auto simp: rt_plan_def plan_of_def target_usable_def route_to_def usable_routes_Inr
      split: option.splits sum.splits)

text \<open>
  Property C20. A plan tries the primary before anything else and then every usable target of the
  configuration, in order, each as often as it is written: for a plain model its fallback chain, for
  a routing group the whole primary pool before the fallback pool, each pool a permutation of the
  configured one. It never is empty and gives every target at least one attempt.
\<close>

theorem a_plan_covers_the_configured_targets:
  assumes "rt_plan drawn drawn' draw t requested = Some (Inr plan)"
  shows "rp_targets plan \<noteq> [] \<and> 1 \<le> rp_max_attempts_per_target plan \<and>
    (\<exists>first rest. map Inr (rp_targets plan) = map (\<lambda>tg. route_to t tg requested) (first @ rest)
      \<and> (case rt_groups t requested of
           None \<Rightarrow> \<exists>primary. resolve_target draw t requested = Some (Inr primary) \<and> first = [primary]
             \<and> rest = filter (target_usable t) (case rt_fallbacks t primary of None \<Rightarrow> [] | Some chain \<Rightarrow> chain)
         | Some g \<Rightarrow> mset first = mset (filter (target_usable t) (map wt_target (rg_primary g)))
             \<and> mset rest = mset (filter (target_usable t) (map wt_target (rg_fallback g)))))"
proof (cases "rt_groups t requested")
  case (Some g)
  let ?first = "filter (target_usable t) (weighted_order drawn (rg_primary g))"
  let ?rest = "filter (target_usable t) (weighted_order drawn' (rg_fallback g))"
  from rt_plan_of_group [OF Some] assms have plan: "rp_targets plan \<noteq> []"
    "plan = plan_of t (usable_routes t requested (weighted_order drawn (rg_primary g) @ weighted_order drawn' (rg_fallback g)))"
    by auto
  have "map Inr (rp_targets plan) = map (\<lambda>tg. route_to t tg requested) (?first @ ?rest)"
    by (subst plan(2)) (simp add: plan_of_def usable_routes_Inr)
  moreover have "1 \<le> rp_max_attempts_per_target plan" by (subst plan(2)) (simp add: plan_of_def)
  moreover have "mset ?first = mset (filter (target_usable t) (map wt_target (rg_primary g)))"
    "mset ?rest = mset (filter (target_usable t) (map wt_target (rg_fallback g)))"
    by (rule mset_usable_order)+
  ultimately show ?thesis
    using plan(1) Some by (intro conjI exI [of _ ?first] exI [of _ ?rest]) simp_all
next
  case None
  obtain primary where
    p: "resolve_target draw t requested = Some (Inr primary)" "target_usable t primary"
    "map Inr (rp_targets plan) = map (\<lambda>tg. route_to t tg requested)
       (primary # filter (target_usable t) (case rt_fallbacks t primary of None \<Rightarrow> [] | Some chain \<Rightarrow> chain))"
    "1 \<le> rp_max_attempts_per_target plan" by (rule rt_plan_of_target [OF None assms])
  from p(3) have "rp_targets plan \<noteq> []" by auto
  then show ?thesis
    using None p
    by (intro conjI exI [of _ "[primary]"]
        exI [of _ "filter (target_usable t) (case rt_fallbacks t primary of None \<Rightarrow> [] | Some chain \<Rightarrow> chain)"]) simp_all
qed


text \<open>A name stands for something that can be tried.\<close>

definition names_a_target :: "routing_table \<Rightarrow> string \<Rightarrow> bool" where
  "names_a_target t requested \<longleftrightarrow>
     (case rt_groups t requested of
        Some g \<Rightarrow> list_ex (target_usable t) (rg_targets g)
      | None \<Rightarrow>
     (case rt_aliases t requested of
        Some tg \<Rightarrow> target_usable t tg
      | None \<Rightarrow>
          (case tg_parse requested of None \<Rightarrow> False | Some tg \<Rightarrow> target_usable t tg)
          \<or> (case rt_catalog t requested of None \<Rightarrow> False | Some p \<Rightarrow> rt_provider t p \<noteq> None)))"

lemma resolve_target_routes:
  assumes "rt_groups t requested = None"
  obtains tg where "resolve_target draw t requested = Some (Inr tg)"
    "target_usable t tg \<longleftrightarrow> names_a_target t requested"
  | "resolve_target draw t requested = Some (Inl (unknown_model requested))" "\<not> names_a_target t requested"
proof (cases "rt_aliases t requested")
  case (Some tg)
  with assms that(1) show thesis by (simp add: resolve_target_def names_a_target_def)
next
  case None
  show thesis
  proof (cases "case tg_parse requested of None \<Rightarrow> False | Some tg \<Rightarrow> target_usable t tg")
    case True
    then obtain tg where "tg_parse requested = Some tg" "target_usable t tg" by (auto split: option.splits)
    with assms None that(1) [of tg] show thesis
      by (simp add: resolve_target_def names_a_target_def target_usable_def)
  next
    case False
    then have "resolve_target draw t requested =
        (case rt_catalog t requested of
           Some provider \<Rightarrow> Some (Inr \<lparr>tg_provider = provider, tg_model = requested\<rparr>)
         | None \<Rightarrow> Some (Inl (unknown_model requested)))"
      using assms None by (auto simp: resolve_target_def Let_def target_usable_def split: option.splits)
    with False assms None that show thesis
      by (cases "rt_catalog t requested") (auto simp: names_a_target_def target_usable_def split: option.splits)
  qed
qed

lemma group_routes_empty:
  "usable_routes t requested (weighted_order drawn (rg_primary g) @ weighted_order drawn' (rg_fallback g)) = []
     \<longleftrightarrow> \<not> list_ex (target_usable t) (rg_targets g)"
  by (auto simp: usable_routes_empty rg_targets_def target_usable_def list_ex_iff)

lemma rt_plan_total:
  "if names_a_target t requested
   then \<exists>plan. rt_plan drawn drawn' draw t requested = Some (Inr plan)
   else \<exists>e. rt_plan drawn drawn' draw t requested = Some (Inl e) \<and> ge_class e = NotFound \<and> ge_param e = Some ''model''"
proof (cases "rt_groups t requested")
  case (Some g)
  then have "names_a_target t requested \<longleftrightarrow> list_ex (target_usable t) (rg_targets g)"
    by (simp add: names_a_target_def)
  with Some show ?thesis
    by (simp add: rt_plan_def plan_group_def Let_def group_routes_empty unusable_group_def ge_with_param_def ge_new_def)
next
  case None
  from None show ?thesis
  proof (rule resolve_target_routes [of t requested draw])
    fix tg assume "resolve_target draw t requested = Some (Inr tg)" "target_usable t tg \<longleftrightarrow> names_a_target t requested"
    with None show ?thesis
      by (auto simp: rt_plan_def target_usable_def route_to_def unconfigured_provider_def ge_with_param_def ge_new_def)
  next
    assume "resolve_target draw t requested = Some (Inl (unknown_model requested))" "\<not> names_a_target t requested"
    with None show ?thesis
      by (simp add: rt_plan_def unknown_model_def ge_with_param_def ge_new_def)
  qed
qed


text \<open>
  Property C33. Planning always answers, whatever is drawn. It refuses exactly the names that stand
  for nothing that can be tried, with a not-found error about the parameter \<open>model\<close>: a routing group
  all of whose targets name providers that are not configured, an alias to such a provider, or a name
  that is no group, no alias, no \<open>provider/model\<close> of a configured provider and not in the catalog.
\<close>

theorem planning_refuses_exactly_the_unusable:
  "if names_a_target t requested
   then \<exists>plan. rt_plan drawn drawn' draw t requested = Some (Inr plan)
   else \<exists>e. rt_plan drawn drawn' draw t requested = Some (Inl e) \<and> ge_class e = NotFound \<and> ge_param e = Some ''model''"
  by (rule rt_plan_total)

lemma rt_plan_ok:
  "names_a_target t requested \<Longrightarrow> \<exists>plan. rt_plan drawn drawn' draw t requested = Some (Inr plan)"
  using rt_plan_total [of t requested drawn drawn' draw] by (simp only: if_True)

section \<open>A configuration to evaluate on\<close>

definition sample_api_key :: "string \<Rightarrow> u64 option \<Rightarrow> u32 option \<Rightarrow> api_key" where
  "sample_api_key name rpm max_concurrency =
     \<lparr>ak_name = name, ak_secret = ''sk-1'', ak_weight = Finite 1, ak_models = Some [''gpt-5''], ak_tenant = None,
      ak_rpm = rpm, ak_tpm = None, ak_max_concurrency = max_concurrency, ak_source_path = None\<rparr>"

definition sample_provider :: "api_key list \<Rightarrow> provider" where
  "sample_provider keys =
     \<lparr>pv_kind = OpenAi, pv_base_url = None, pv_auth = AuthKey, pv_keys = keys, pv_max_concurrency = 2,
      pv_timeout_secs = 60, pv_azure = None, pv_bedrock = None, pv_vertex = None, pv_codex = None\<rparr>"

definition sample_target :: "string \<Rightarrow> target_model" where
  "sample_target provider = \<lparr>tg_provider = provider, tg_model = ''gpt-5''\<rparr>"

definition sample_config :: "api_key list \<Rightarrow> config" where
  "sample_config keys =
     \<lparr>cf_server = \<lparr>sv_host = ''127.0.0.1'', sv_port = 8080, sv_max_body_size = 1000, sv_auth_keys = [],
        sv_require_auth = False, sv_drain_timeout_secs = 30\<rparr>,
      cf_providers = [(''azure'', sample_provider []), (''openai'', sample_provider keys)],
      cf_aliases = [''fast'' \<mapsto> sample_target ''openai''],
      cf_fallbacks = [sample_target ''openai'' \<mapsto> [sample_target ''gone'', sample_target ''azure'']],
      cf_groups = Map.empty,
      cf_reliability = \<lparr>rl_breaker = \<lparr>bs_failure_threshold = 5, bs_window_ms = 60000, bs_cooldown_ms = 30000\<rparr>,
        rl_retries = \<lparr>re_max_attempts = 2, re_on = [Status429]\<rparr>\<rparr>,
      cf_tenants = {}, cf_virtual_keys = [], cf_console = \<lparr>cn_admin_keys = [], cn_session_ttl_secs = 60\<rparr>,
      cf_store = store_config_default, cf_usage = usage_default, cf_pricing = Map.empty\<rparr>"

abbreviation sample_table :: routing_table where
  "sample_table \<equiv> snd (from_config_with (sample_config [sample_api_key ''a'' None None]) None [])"

lemma sample_table_plan:
  "\<exists>plan. rt_plan (\<lambda>_. 0) (\<lambda>_. 0) 0 sample_table ''fast'' = Some (Inr plan)"
proof -
  have "names_a_target sample_table ''fast''"
    by (simp add: names_a_target_def target_usable_def rt_provider_def from_config_with_def sample_config_def
        sample_target_def build_provider_def Let_def split: prod.split)
  then show ?thesis by (rule rt_plan_ok)
qed

theorem a_plan_covers_the_configured_targets_witness:
  "\<exists>plan. rt_plan (\<lambda>_. 0) (\<lambda>_. 0) 0 sample_table ''fast'' = Some (Inr plan)
     \<and> rp_targets plan \<noteq> [] \<and> 1 \<le> rp_max_attempts_per_target plan"
  using sample_table_plan a_plan_covers_the_configured_targets by blast

end
