(* ===== verification/Hot_Reload.thy ===== *)
theory Hot_Reload
  imports Routing_Table
begin

text \<open>
  What a reload of the configuration (\<open>RoutingTable::from_config_with\<close>) does to the state in force, and
  the gateway as a transition system over one store of semaphores: requests admitted, requests
  finished and reloads, in any order. The invariant is the accounting of in-flight slots.
\<close>

section \<open>The accounts of the semaphores\<close>

text \<open>
  \<open>caps\<close> lists the size every semaphore was created with; what is free and what is out on permits
  add up to it.
\<close>

definition slots_balanced :: "nat list \<Rightarrow> slots \<Rightarrow> nat list \<Rightarrow> bool" where
  "slots_balanced caps slots permits \<longleftrightarrow>
     length slots = length caps \<and> set permits \<subseteq> {..<length caps}
     \<and> (\<forall>a < length caps. slots ! a + count_list permits a = caps ! a)"

definition key_capped :: "nat list \<Rightarrow> key_runtime \<Rightarrow> bool" where
  "key_capped caps k \<longleftrightarrow>
     (case kr_max_concurrency k of
        None \<Rightarrow> kr_inflight k = None
      | Some limit \<Rightarrow> (\<exists>a < length caps. kr_inflight k = Some a \<and> caps ! a = unat limit))"

definition keys_capped :: "nat list \<Rightarrow> (string \<times> provider_runtime) list \<Rightarrow> bool" where
  "keys_capped caps ps \<longleftrightarrow> (\<forall>(name, p) \<in> set ps. \<forall>k \<in> set (pr_keys p). key_capped caps k)"

lemma slots_balanced_new:
  "slots_balanced caps slots permits \<Longrightarrow> slots_balanced (caps @ [n]) (slots @ [n]) permits"
  by (auto simp: slots_balanced_def nth_append less_Suc_eq subset_iff count_list_0_iff)

lemma key_capped_grow: "key_capped caps k \<Longrightarrow> key_capped (caps @ ext) k"
  by (auto simp: key_capped_def nth_append split: option.splits)

lemma key_capped_fixed: "kr_fixed k = kr_fixed k' \<Longrightarrow> key_capped caps k = key_capped caps k'"
  by (auto simp: key_capped_def kr_fixed_def split: option.splits)

lemma key_capped_inflight: "key_capped caps k \<Longrightarrow> kr_inflight k = Some a \<Longrightarrow> a < length caps"
  by (auto simp: key_capped_def split: option.splits)

lemma count_list_remove1: "a \<in> set xs \<Longrightarrow> count_list (remove1 a xs) b = count_list xs b - (if b = a then 1 else 0)"
  by (induction xs) (auto simp: count_list_0_iff)

lemma slots_balanced_take:
  "slots_balanced caps slots permits \<Longrightarrow> a < length caps \<Longrightarrow> 0 < slots ! a \<Longrightarrow>
     slots_balanced caps (slots[a := slots ! a - 1]) (a # permits)"
  by (auto simp: slots_balanced_def nth_list_update)

lemma slots_balanced_release:
  assumes "slots_balanced caps slots permits" "a \<in> set permits"
  shows "slots_balanced caps (release_slot slots (Some a)) (remove1 a permits)"
proof -
  have "0 < count_list permits a" using assms(2) by (metis count_list_0_iff gr0I)
  then show ?thesis
    using assms set_remove1_subset [of a permits]
    by (auto simp: slots_balanced_def release_slot_def nth_list_update count_list_remove1)
qed

section \<open>Rebuilding the keys\<close>

definition prev_capped :: "nat list \<Rightarrow> routing_table option \<Rightarrow> bool" where
  "prev_capped caps prev \<longleftrightarrow> (case prev of None \<Rightarrow> True | Some t \<Rightarrow> keys_capped caps (rt_providers t))"

lemma prev_capped_grow: "prev_capped caps prev \<Longrightarrow> prev_capped (caps @ ext) prev"
  by (auto simp: prev_capped_def keys_capped_def key_capped_grow split: option.splits)

lemma previous_key_Some:
  "previous_key prev name key = Some k \<longleftrightarrow>
     (\<exists>t p. prev = Some t \<and> rt_provider t name = Some p \<and> find (\<lambda>k. kr_name k = key) (pr_keys p) = Some k)"
  by (auto simp: previous_key_def bind_eq_Some_conv)

lemma previous_key_capped: "prev_capped caps prev \<Longrightarrow> previous_key prev name key = Some k \<Longrightarrow> key_capped caps k"
  by (fastforce simp: previous_key_Some prev_capped_def keys_capped_def rt_provider_def find_Some_iff
      dest!: map_of_SomeD)

text \<open>Each stage of the rebuild only appends semaphores, and keeps the accounts.\<close>

definition rebuilt :: "nat list \<Rightarrow> slots \<Rightarrow> nat list \<Rightarrow> slots \<Rightarrow> nat list \<Rightarrow> bool" where
  "rebuilt caps slots permits slots' ext \<longleftrightarrow>
     slots_balanced (caps @ ext) slots' permits \<and> slots' = slots @ ext"

lemma rebuilt_refl: "slots_balanced caps slots permits \<Longrightarrow> rebuilt caps slots permits slots []"
  by (simp add: rebuilt_def)

lemma rebuilt_new:
  "slots_balanced caps slots permits \<Longrightarrow> rebuilt caps slots permits (slots @ [n]) [n]"
  by (simp add: rebuilt_def slots_balanced_new)

lemma rebuilt_trans:
  "rebuilt caps slots permits slots1 ext1 \<Longrightarrow> rebuilt (caps @ ext1) slots1 permits slots2 ext2 \<Longrightarrow>
     rebuilt caps slots permits slots2 (ext1 @ ext2)"
  by (auto simp: rebuilt_def)

lemma rebuilt_balanced: "rebuilt caps slots permits slots' ext \<Longrightarrow> slots_balanced (caps @ ext) slots' permits"
  by (auto simp: rebuilt_def)

lemma build_key_capped:
  assumes "build_key bc prev name slots k = (slots', kr)" "slots_balanced caps slots permits" "prev_capped caps prev"
  shows "\<exists>ext. rebuilt caps slots permits slots' ext \<and> key_capped (caps @ ext) kr"
proof -
  have len: "length slots = length caps" using assms(2) by (simp add: slots_balanced_def)
  have fresh: "rebuilt caps slots permits (slots @ [unat limit]) [unat limit]" for limit :: u32
    by (rule rebuilt_new [OF assms(2)])
  note same = rebuilt_refl [OF assms(2)]
  obtain inflight where carry:
    "carry_slots slots (previous_key prev name (ak_name k)) (ak_max_concurrency k) = (slots', inflight)"
    and kr: "kr_max_concurrency kr = ak_max_concurrency k" "kr_inflight kr = inflight"
    using assms(1) by (auto simp: build_key_def Let_def split: prod.splits)
  show ?thesis
  proof (cases "ak_max_concurrency k")
    case None
    with carry kr same show ?thesis
      by (intro exI [of _ "[]"]) (simp add: carry_slots_def key_capped_def)
  next
    case (Some limit)
    show ?thesis
    proof (cases "\<exists>old. previous_key prev name (ak_name k) = Some old \<and> kr_max_concurrency old = Some limit")
      case True
      then obtain old where old: "previous_key prev name (ak_name k) = Some old" "kr_max_concurrency old = Some limit"
        by blast
      from previous_key_capped [OF assms(3) old(1)] old(2) have "key_capped caps kr"
        using carry kr Some old by (simp add: carry_slots_def key_capped_def)
      with carry kr Some old same show ?thesis
        by (intro exI [of _ "[]"]) (simp add: carry_slots_def)
    next
      case False
      with carry Some have "slots' = slots @ [unat limit]" "inflight = Some (length slots)"
        by (auto simp: carry_slots_def split: option.splits if_splits)
      with kr Some fresh len show ?thesis
        by (intro exI [of _ "[unat limit]"]) (simp add: key_capped_def)
    qed
  qed
qed

lemma build_keys_capped:
  assumes "build_keys bc prev name slots ks = (slots', krs)" "slots_balanced caps slots permits" "prev_capped caps prev"
  shows "\<exists>ext. rebuilt caps slots permits slots' ext \<and> (\<forall>kr \<in> set krs. key_capped (caps @ ext) kr)"
  using assms
proof (induction ks arbitrary: slots caps krs)
  case Nil
  then show ?case by (auto intro!: exI [of _ "[]"] rebuilt_refl)
next
  case (Cons k ks)
  obtain slots1 kr krs1 where first: "build_key bc prev name slots k = (slots1, kr)"
    and rest: "build_keys bc prev name slots1 ks = (slots', krs1)" and krs: "krs = kr # krs1"
    using Cons.prems(1) by (auto split: prod.splits)
  from build_key_capped [OF first Cons.prems(2,3)] obtain ext1 where
    1: "rebuilt caps slots permits slots1 ext1" "key_capped (caps @ ext1) kr" by blast
  from Cons.IH [OF rest rebuilt_balanced [OF 1(1)] prev_capped_grow [OF Cons.prems(3)]] obtain ext2 where
    2: "rebuilt (caps @ ext1) slots1 permits slots' ext2" "\<forall>kr \<in> set krs1. key_capped ((caps @ ext1) @ ext2) kr"
    by blast
  from key_capped_grow [OF 1(2), of ext2] 2(2) krs have "\<forall>kr \<in> set krs. key_capped (caps @ (ext1 @ ext2)) kr"
    by simp
  with rebuilt_trans [OF 1(1) 2(1)] show ?case by blast
qed

lemma build_provider_capped:
  assumes "build_provider bc prev slots np = (slots', p)" "slots_balanced caps slots permits" "prev_capped caps prev"
  shows "\<exists>ext. rebuilt caps slots permits slots' ext \<and> (\<forall>kr \<in> set (pr_keys p). key_capped (caps @ ext) kr)
           \<and> length slots \<le> pr_semaphore p \<and> pr_semaphore p < length slots'
           \<and> slots' ! pr_semaphore p = pv_max_concurrency (snd np)"
proof -
  obtain slots1 krs where keys: "build_keys bc prev (fst np) slots (pv_keys (snd np)) = (slots1, krs)" by fastforce
  from build_keys_capped [OF this assms(2,3)] obtain ext where
    1: "rebuilt caps slots permits slots1 ext" "\<forall>kr \<in> set krs. key_capped (caps @ ext) kr" by blast
  from rebuilt_trans [OF 1(1) rebuilt_new [OF rebuilt_balanced [OF 1(1)]]]
  have 2: "rebuilt caps slots permits (slots1 @ [n]) (ext @ [n])" for n .
  have "length slots \<le> length slots1" using 1(1) by (simp add: rebuilt_def)
  with 1(2) 2 key_capped_grow assms(1) keys show ?thesis
    by (auto simp: build_provider_def Let_def split: prod.splits
        intro!: exI [of _ "ext @ [pv_max_concurrency (snd np)]"] simp flip: append_assoc)
qed

lemma build_providers_capped:
  assumes "build_providers bc prev slots nps = (slots', ps)" "slots_balanced caps slots permits" "prev_capped caps prev"
  shows "\<exists>ext. rebuilt caps slots permits slots' ext \<and> keys_capped (caps @ ext) ps"
  using assms
proof (induction nps arbitrary: slots caps ps)
  case Nil
  then show ?case by (auto simp: keys_capped_def intro!: exI [of _ "[]"] rebuilt_refl)
next
  case (Cons np nps)
  obtain slots1 p ps1 where first: "build_provider bc prev slots np = (slots1, p)"
    and rest: "build_providers bc prev slots1 nps = (slots', ps1)" and ps: "ps = (fst np, p) # ps1"
    using Cons.prems(1) by (auto split: prod.splits)
  from build_provider_capped [OF first Cons.prems(2,3)] obtain ext1 where
    1: "rebuilt caps slots permits slots1 ext1" "\<forall>kr \<in> set (pr_keys p). key_capped (caps @ ext1) kr" by blast
  from Cons.IH [OF rest rebuilt_balanced [OF 1(1)] prev_capped_grow [OF Cons.prems(3)]] obtain ext2 where
    2: "rebuilt (caps @ ext1) slots1 permits slots' ext2" "keys_capped ((caps @ ext1) @ ext2) ps1" by blast
  from 1(2) key_capped_grow [of "caps @ ext1" _ ext2] 2(2) ps have "keys_capped (caps @ (ext1 @ ext2)) ps"
    by (auto simp: keys_capped_def)
  with rebuilt_trans [OF 1(1) 2(1)] show ?case by blast
qed

lemma from_config_with_capped:
  assumes "from_config_with cfg prev slots = (slots', t)" "slots_balanced caps slots permits" "prev_capped caps prev"
  shows "\<exists>ext. rebuilt caps slots permits slots' ext \<and> keys_capped (caps @ ext) (rt_providers t)"
  using assms(1) build_providers_capped [OF _ assms(2,3)]
  by (fastforce simp: from_config_with_def Let_def split: prod.splits)

section \<open>The running gateway\<close>

record gateway =
  gw_table :: routing_table
  gw_slots :: slots
  gw_permits :: "nat list"

text \<open>Selection changes the keys of a provider in place.\<close>

definition rt_set_provider :: "routing_table \<Rightarrow> string \<Rightarrow> provider_runtime \<Rightarrow> routing_table" where
  "rt_set_provider t name p =
     t\<lparr>rt_providers := map (\<lambda>(n, q). if n = name then (n, p) else (n, q)) (rt_providers t)\<rparr>"

definition held :: "key_choice option \<Rightarrow> nat list" where
  "held choice = (case choice of None \<Rightarrow> [] | Some c \<Rightarrow> (case kc_permit c of None \<Rightarrow> [] | Some a \<Rightarrow> [a]))"

inductive gw_step :: "gateway \<Rightarrow> gateway \<Rightarrow> bool" where
  admit:
    "rt_provider (gw_table g) name = Some p \<Longrightarrow>
     pr_admit_for draw digest p (gw_slots g) model tenant affinity now = (p', slots', choice) \<Longrightarrow>
     gw_step g \<lparr>gw_table = rt_set_provider (gw_table g) name p', gw_slots = slots',
                gw_permits = held choice @ gw_permits g\<rparr>"
| finish:
    "a \<in> set (gw_permits g) \<Longrightarrow>
     gw_step g (g\<lparr>gw_slots := release_slot (gw_slots g) (Some a), gw_permits := remove1 a (gw_permits g)\<rparr>)"
| reload:
    "from_config_with cfg (Some (gw_table g)) (gw_slots g) = (slots', t') \<Longrightarrow>
     gw_step g (g\<lparr>gw_table := t', gw_slots := slots'\<rparr>)"

inductive gw_reachable :: "gateway \<Rightarrow> bool" where
  start: "from_config_with cfg None [] = (slots, t) \<Longrightarrow>
    gw_reachable \<lparr>gw_table = t, gw_slots = slots, gw_permits = []\<rparr>"
| step: "gw_reachable g \<Longrightarrow> gw_step g g' \<Longrightarrow> gw_reachable g'"

inductive_cases gw_stepE: "gw_step g g'"

definition gw_inv :: "nat list \<Rightarrow> gateway \<Rightarrow> bool" where
  "gw_inv caps g \<longleftrightarrow> slots_balanced caps (gw_slots g) (gw_permits g)
     \<and> keys_capped caps (rt_providers (gw_table g))"

lemma keys_capped_set:
  assumes "keys_capped caps (rt_providers t)" "rt_provider t name = Some p" "pr_like p p'"
  shows "keys_capped caps (rt_providers (rt_set_provider t name p'))"
proof -
  have "\<forall>k \<in> set (pr_keys p). key_capped caps k"
    using assms(1,2) by (auto simp: keys_capped_def rt_provider_def dest!: map_of_SomeD)
  then have "key_capped caps (pr_keys p' ! i)" if "i < length (pr_keys p')" for i
    using assms(3) that key_capped_fixed [of "pr_keys p' ! i" "pr_keys p ! i" caps] by (simp add: pr_like_def)
  then have "\<forall>k \<in> set (pr_keys p'). key_capped caps k" by (simp add: all_set_conv_all_nth)
  with assms(1) show ?thesis by (auto simp: keys_capped_def rt_set_provider_def split: if_splits)
qed

lemma gw_inv_admit:
  assumes inv: "gw_inv caps g" and p: "rt_provider (gw_table g) name = Some p"
    and run: "pr_admit_for draw digest p (gw_slots g) model tenant affinity now = (p', slots', choice)"
  shows "gw_inv caps \<lparr>gw_table = rt_set_provider (gw_table g) name p', gw_slots = slots',
           gw_permits = held choice @ gw_permits g\<rparr>"
proof -
  have keys: "\<forall>k \<in> set (pr_keys p). key_capped caps k"
    using inv p by (auto simp: gw_inv_def keys_capped_def rt_provider_def dest!: map_of_SomeD)
  have "slots_balanced caps slots' (held choice @ gw_permits g)"
  proof (cases "pr_keys p = []")
    case True
    with run inv show ?thesis by (auto simp: pr_admit_for_def held_def gw_inv_def split: prod.splits if_splits)
  next
    case False
    note outcome = pr_admit_for_outcome [OF run False]
    show ?thesis
    proof (cases choice)
      case None
      with outcome inv show ?thesis by (simp add: held_def gw_inv_def)
    next
      case (Some c)
      with outcome obtain i where i: "i < length (pr_keys p)" "kc_permit c = kr_inflight (pr_keys p ! i)"
        "slot_free (pr_keys p ! i) (gw_slots g)" "slots' = take_permit (gw_slots g) (kr_inflight (pr_keys p ! i))"
        by (auto simp: chosen_ok_def pr_mine_iff)
      have "a < length caps" if "kr_inflight (pr_keys p ! i) = Some a" for a
        using keys i(1) that key_capped_inflight nth_mem by blast
      with i Some inv show ?thesis
        by (cases "kr_inflight (pr_keys p ! i)")
          (auto simp: held_def gw_inv_def take_permit_def slot_free_def
            intro: slots_balanced_take [unfolded One_nat_def])
    qed
  qed
  with inv keys_capped_set [OF _ p pr_admit_for_like [OF run]] show ?thesis by (simp add: gw_inv_def)
qed

lemma gw_inv_step: "gw_step g g' \<Longrightarrow> gw_inv caps g \<Longrightarrow> \<exists>ext. gw_inv (caps @ ext) g'"
proof (induction rule: gw_step.induct)
  case (admit g name p draw digest model tenant affinity now p' slots' choice)
  then show ?case by (intro exI [of _ "[]"]) (simp add: gw_inv_admit)
next
  case (finish a g)
  then show ?case
    by (intro exI [of _ "[]"]) (simp add: gw_inv_def slots_balanced_release)
next
  case (reload cfg g slots' t')
  then have "slots_balanced caps (gw_slots g) (gw_permits g)" "prev_capped caps (Some (gw_table g))"
    by (simp_all add: gw_inv_def prev_capped_def)
  from from_config_with_capped [OF reload(1) this] show ?case
    by (auto simp: gw_inv_def rebuilt_def)
qed

lemma gw_inv_reachable: "gw_reachable g \<Longrightarrow> \<exists>caps. gw_inv caps g"
proof (induction rule: gw_reachable.induct)
  case (start cfg slots t)
  have "slots_balanced [] [] []" "prev_capped [] None" by (simp_all add: slots_balanced_def prev_capped_def)
  from from_config_with_capped [OF start this] show ?case by (auto simp: gw_inv_def rebuilt_def)
next
  case (step g g')
  then show ?case using gw_inv_step by blast
qed

lemma in_flight_count:
  assumes "slots ! a + n = unat (limit :: u32)" "kr_max_concurrency k = Some limit" "kr_inflight k = Some a"
  shows "kr_in_flight k slots = Some (word_of_nat n, limit)"
proof -
  have limit: "limit = word_of_nat (slots ! a) + word_of_nat n"
    using arg_cong [OF assms(1), of "word_of_nat :: nat \<Rightarrow> u32"] by simp
  have "unat (word_of_nat (slots ! a) :: u32) \<le> unat limit"
    using assms(1) by (simp add: unat_of_nat)
  then have "\<not> limit < word_of_nat (slots ! a)" by (simp add: word_less_nat_alt)
  with limit assms(2,3) show ?thesis by (simp add: kr_in_flight_def)
qed



section \<open>What a reload keeps\<close>

lemma build_keys_find:
  "build_keys bc prev name slots ks = (slots', krs) \<Longrightarrow> find (\<lambda>k. ak_name k = key) ks = Some k \<Longrightarrow>
     \<exists>s s' kr. build_key bc prev name s k = (s', kr) \<and> find (\<lambda>kr. kr_name kr = key) krs = Some kr"
proof (induction ks arbitrary: slots krs)
  case Nil
  then show ?case by simp
next
  case (Cons k0 ks)
  obtain s kr krs1 where first: "build_key bc prev name slots k0 = (s, kr)"
    and rest: "build_keys bc prev name s ks = (slots', krs1)" and krs: "krs = kr # krs1"
    using Cons.prems(1) by (auto split: prod.splits)
  have "kr_name kr = ak_name k0" using first by (auto simp: build_key_def Let_def split: prod.splits)
  with Cons.prems(2) Cons.IH [OF rest] first krs show ?case by (auto split: if_splits)
qed

lemma build_providers_find:
  "build_providers bc prev slots nps = (slots', ps) \<Longrightarrow> map_of nps name = Some pv \<Longrightarrow>
     \<exists>s s' p. build_provider bc prev s (name, pv) = (s', p) \<and> map_of ps name = Some p"
proof (induction nps arbitrary: slots ps)
  case (Cons np nps)
  then show ?case by (cases np) (fastforce split: prod.splits if_splits)
qed simp

lemma build_providers_capped_semaphore:
  assumes "build_providers bc prev slots nps = (slots', ps)" "slots_balanced caps slots permits" "prev_capped caps prev"
    and "map_of nps name = Some pv" "map_of ps name = Some p"
  shows "length slots \<le> pr_semaphore p \<and> pr_semaphore p < length slots' \<and> slots' ! pr_semaphore p = pv_max_concurrency pv"
  using assms
proof (induction nps arbitrary: slots caps ps)
  case (Cons np nps)
  obtain slots1 p0 ps1 where first: "build_provider bc prev slots np = (slots1, p0)"
    and rest: "build_providers bc prev slots1 nps = (slots', ps1)" and ps: "ps = (fst np, p0) # ps1"
    using Cons.prems(1) by (auto split: prod.splits)
  from build_provider_capped [OF first Cons.prems(2,3)] obtain ext1 where
    1: "rebuilt caps slots permits slots1 ext1" "length slots \<le> pr_semaphore p0" "pr_semaphore p0 < length slots1"
      "slots1 ! pr_semaphore p0 = pv_max_concurrency (snd np)" by blast
  from build_providers_capped [OF rest rebuilt_balanced [OF 1(1)] prev_capped_grow [OF Cons.prems(3)]] obtain ext2
    where "rebuilt (caps @ ext1) slots1 permits slots' ext2" by blast
  then have slots': "slots' = slots1 @ ext2" by (simp add: rebuilt_def)
  show ?case
  proof (cases "fst np = name")
    case True
    with Cons.prems(4,5) ps 1 slots' show ?thesis by (cases np) (auto simp: nth_append)
  next
    case False
    with Cons.IH [OF rest rebuilt_balanced [OF 1(1)] prev_capped_grow [OF Cons.prems(3)]] Cons.prems(4,5) ps
    have "length slots1 \<le> pr_semaphore p \<and> pr_semaphore p < length slots' \<and> slots' ! pr_semaphore p = pv_max_concurrency pv"
      by (cases np) auto
    with 1(1) show ?thesis by (simp add: rebuilt_def)
  qed
qed simp

lemma build_key_carries:
  assumes "build_key bc prev name s k = (s', kr)" "previous_key prev name (ak_name k) = Some old"
  shows "kr_leases kr = kr_leases old
    \<and> (ak_max_concurrency k = kr_max_concurrency old \<longrightarrow> kr_max_concurrency old \<noteq> None \<longrightarrow> kr_inflight kr = kr_inflight old)
    \<and> (ak_rpm k \<noteq> None \<longrightarrow> kr_rpm old \<noteq> None \<longrightarrow> kr_rpm kr = kr_rpm old)
    \<and> (ak_tpm k \<noteq> None \<longrightarrow> kr_tpm old \<noteq> None \<longrightarrow> kr_tpm kr = kr_tpm old)"
proof -
  have "tb_clone_state b = b" for b by (cases b) (simp add: tb_clone_state_def)
  with assms show ?thesis
    by (auto simp: build_key_def carry_bucket_def carry_slots_def Let_def split: prod.splits option.splits if_splits)
qed

lemma from_config_with_key:
  assumes "from_config_with cfg prev slots = (slots', t)" "map_of (cf_providers cfg) name = Some pv"
    and "find (\<lambda>k. ak_name k = key) (pv_keys pv) = Some k"
  obtains bc s s' kr where "build_key bc prev name s k = (s', kr)" "previous_key (Some t) name key = Some kr"
proof -
  obtain bc ps where ps: "build_providers bc prev slots (cf_providers cfg) = (slots', ps)" "rt_providers t = ps"
    using assms(1) by (auto simp: from_config_with_def Let_def split: prod.splits)
  from build_providers_find [OF ps(1) assms(2)] obtain s s' p where
    p: "build_provider bc prev s (name, pv) = (s', p)" "map_of ps name = Some p" by blast
  obtain s1 krs where keys: "build_keys bc prev name s (pv_keys pv) = (s1, krs)" "pr_keys p = krs"
    using p(1) by (auto simp: build_provider_def Let_def split: prod.splits)
  from build_keys_find [OF keys(1) assms(3)] obtain s2 s3 kr where
    "build_key bc prev name s2 k = (s3, kr)" "find (\<lambda>kr. kr_name kr = key) krs = Some kr" by blast
  with that p(2) ps(2) keys(2) show thesis by (simp add: previous_key_Some rt_provider_def)
qed


text \<open>
  A provider's own semaphore is not carried: a reload gives it a new one with all of
  \<open>max_concurrency\<close> free, whatever is in flight on the old one.
\<close>

theorem reload_forgets_the_providers_requests:
  assumes "gw_reachable g" "from_config_with cfg (Some (gw_table g)) (gw_slots g) = (slots', t')"
    and "map_of (cf_providers cfg) name = Some pv"
  shows "\<exists>p. rt_provider t' name = Some p \<and> slots' ! pr_semaphore p = pv_max_concurrency pv
    \<and> length (gw_slots g) \<le> pr_semaphore p"
proof -
  from gw_inv_reachable [OF assms(1)] obtain caps where
    inv: "slots_balanced caps (gw_slots g) (gw_permits g)" "prev_capped caps (Some (gw_table g))"
    by (auto simp: gw_inv_def prev_capped_def)
  obtain bc ps where ps: "build_providers bc (Some (gw_table g)) (gw_slots g) (cf_providers cfg) = (slots', ps)"
    "rt_providers t' = ps"
    using assms(2) by (auto simp: from_config_with_def Let_def split: prod.splits)
  from build_providers_find [OF ps(1) assms(3)] obtain p where p: "map_of ps name = Some p" by blast
  from build_providers_capped_semaphore [OF ps(1) inv assms(3) p] p ps(2) show ?thesis
    by (auto simp: rt_provider_def)
qed


section \<open>Executions\<close>

lemmas build_simps = from_config_with_def build_provider_def build_key_def carry_slots_def carry_bucket_def
  previous_key_def rt_provider_def sample_config_def sample_provider_def sample_api_key_def Let_def

text \<open>One key with two slots, rebuilt twice.\<close>

abbreviation reload_keys :: "api_key list" where
  "reload_keys \<equiv> [sample_api_key ''a'' (Some 60) (Some 2)]"

abbreviation first_load :: "slots \<times> routing_table" where
  "first_load \<equiv> from_config_with (sample_config reload_keys) None []"

abbreviation running :: gateway where
  "running \<equiv> \<lparr>gw_table = snd first_load, gw_slots = fst first_load, gw_permits = []\<rparr>"

lemma running_reachable: "gw_reachable running"
  by (rule gw_reachable.start [of "sample_config reload_keys"]) simp

lemma first_load_key:
  "\<exists>p k. rt_provider (snd first_load) ''openai'' = Some p \<and> k \<in> set (pr_keys p) \<and> kr_max_concurrency k = Some 2
     \<and> previous_key (Some (snd first_load)) ''openai'' ''a'' = Some k"
  by (simp add: build_simps)

lemma reload_keys_lookup:
  "map_of (cf_providers (sample_config reload_keys)) ''openai'' = Some (sample_provider reload_keys)"
  "find (\<lambda>k. ak_name k = ''a'') (pv_keys (sample_provider reload_keys)) = Some (sample_api_key ''a'' (Some 60) (Some 2))"
  by (simp_all add: sample_config_def sample_provider_def sample_api_key_def)



end
