(* ===== verification/Startup.thy ===== *)
theory Startup
  imports Config_Validate Hot_Reload
begin

text \<open>
  Validation, routing and authentication together: what a configuration that passed validation
  guarantees of the table built from it.
\<close>

definition sample_raw :: raw_config where
  "sample_raw = raw_config_default
     \<lparr>rg_providers := [(''openai'', raw_provider_default\<lparr>rw_keys :=
          [\<lparr>rk_name = ''a'', rk_value = ''sk-1'', rk_weight = default_weight, rk_models = None, rk_tenant = None,
            rk_rpm = None, rk_tpm = None, rk_max_concurrency = None\<rparr>]\<rparr>)],
      rg_aliases := [(''fast'', ''smart''), (''smart'', ''openai/gpt-5'')]\<rparr>"

abbreviation no_files :: file_system where
  "no_files \<equiv> \<lambda>_. Inl ''not found''"

lemmas raw_defaults = sample_raw_def raw_config_default_def raw_server_default_def raw_console_default_def
  raw_store_default_def raw_usage_default_def raw_retries_default_def raw_breaker_default_def

lemma sample_sections:
  "validate_tenants sample_raw = ([], [])"
  "snd (validate_server no_files (\<lambda>_. None) sample_raw []) = []"
  "validate_fallbacks sample_raw providers aliases = (Map.empty, [])"
  "validate_groups sample_raw providers aliases = ([], [])"
  "snd (validate_reliability sample_raw) = []"
  "validate_account_tenants sample_raw [] = []"
  "validate_virtual_keys sample_raw providers aliases groups [] = ([], [])"
  "snd (validate_console no_files (\<lambda>_. None) sample_raw) = []"
  "snd (validate_store sample_raw) = []"
  "snd (validate_usage sample_raw) = []"
  "validate_pricing sample_raw = ([], [])"
  by (simp_all add: raw_defaults raw_provider_default_def check_each.simps(2) check_tenant_def
      validate_tenants_def validate_server_def validate_fallbacks_def insert_all_def validate_groups_def
      validate_reliability_def validate_account_tenants_def validate_virtual_keys_def validate_console_def
      validate_store_def validate_usage_def validate_pricing_def capture_parse_def)

lemma sample_providers:
  "\<exists>p. validate_providers no_files (\<lambda>_. None) sample_raw = ([(''openai'', p)], [])"
  by (simp add: raw_defaults raw_provider_default_def validate_providers_def check_each.simps(2) check_fold.simps(2)
      validate_provider_def provider_kind_of_def preset_of_def provider_of_kind_def validate_key_def
      resolve_secret_def default_weight_def ceiling_errors_def provider_auth_def or_else_def is_http_def
      starts_with_def validate_azure_def validate_bedrock_def validate_vertex_def validate_codex_def only_for_def)

abbreviation gpt5 :: target_model where
  "gpt5 \<equiv> \<lparr>tg_provider = ''openai'', tg_model = ''gpt-5''\<rparr>"

lemma sample_aliases:
  "validate_aliases sample_raw [(''openai'', p)] = ([(''fast'', gpt5), (''smart'', gpt5)], [])"
proof -
  let ?table = "[(''fast'', ''smart''), (''smart'', ''openai/gpt-5'')]"
  have "resolve_alias ?table ''smart'' {''fast''} = Some (Inr ''openai/gpt-5'')"
    "resolve_alias ?table ''smart'' {} = Some (Inr ''openai/gpt-5'')"
    by (subst resolve_alias.simps, simp)+
  moreover from this have "resolve_alias ?table ''fast'' {} = Some (Inr ''openai/gpt-5'')"
    by (subst resolve_alias.simps) simp
  ultimately show ?thesis
    by (simp add: raw_defaults validate_aliases_def validate_alias_def check_each.simps(2) tg_parse_def)
qed

lemma sample_raw_validates:
  "\<exists>cfg. validate_config no_files (\<lambda>_. None) sample_raw = Inr cfg
     \<and> cf_groups cfg ''fast'' = None \<and> cf_aliases cfg ''fast'' = Some gpt5"
proof -
  obtain p where "validate_providers no_files (\<lambda>_. None) sample_raw = ([(''openai'', p)], [])"
    using sample_providers by blast
  then show ?thesis
    by (simp add: validate_config_def sample_sections sample_aliases case_prod_beta)
qed

lemma sample_raw_valid: "\<exists>cfg. validate_config no_files (\<lambda>_. None) sample_raw = Inr cfg"
  using sample_raw_validates by blast

text \<open>
  Property C17. A document that passes validation gives a configuration without loose ends: every
  provider has an http or https base URL, distinctly named keys with a secret, a positive weight and
  no zero ceiling, and at least one key unless it is keyless; every alias, fallback and group target
  names a configured provider, no fallback is its own source, groups are not empty and shadow no alias
  or provider; every service named on an account, a static key or a virtual key is declared; virtual
  keys have distinct well-formed ids and hashes.
\<close>

theorem validated_configuration_is_sound:
  assumes "validate_config files env raw = Inr cfg"
  shows "config_ok cfg"
  using assms by (rule validated_config_ok)

theorem validated_configuration_is_sound_witness:
  "\<exists>cfg. validate_config no_files (\<lambda>_. None) sample_raw = Inr cfg \<and> config_ok cfg"
  using sample_raw_valid validated_configuration_is_sound by blast

section \<open>Planning in a validated configuration\<close>

lemma build_providers_names: "build_providers bc prev slots nps = (slots', ps) \<Longrightarrow> map fst ps = map fst nps"
  by (induction nps arbitrary: slots ps) (auto split: prod.splits)

lemma from_config_with_tables:
  assumes "from_config_with cfg prev slots = (slots', t)"
  shows "rt_aliases t = cf_aliases cfg" "rt_fallbacks t = cf_fallbacks cfg" "rt_groups t = cf_groups cfg"
    "target_usable t tg \<longleftrightarrow> target_ok (cf_providers cfg) tg"
proof -
  from assms obtain bc ps where ps: "build_providers bc prev slots (cf_providers cfg) = (slots', ps)" "rt_providers t = ps"
    and tables: "rt_aliases t = cf_aliases cfg" "rt_fallbacks t = cf_fallbacks cfg" "rt_groups t = cf_groups cfg"
    by (auto simp: from_config_with_def Let_def split: prod.splits)
  from tables show "rt_aliases t = cf_aliases cfg" "rt_fallbacks t = cf_fallbacks cfg" "rt_groups t = cf_groups cfg" .
  have "fst ` set ps = fst ` set (cf_providers cfg)"
    using build_providers_names [OF ps(1)] by (metis list.set_map)
  then show "target_usable t tg \<longleftrightarrow> target_ok (cf_providers cfg) tg"
    by (simp add: target_usable_def target_ok_def rt_provider_def ps(2) map_of_eq_None_iff)
qed

lemma usable_routes_length:
  "\<forall>tg \<in> set targets. target_usable t tg \<Longrightarrow> length (usable_routes t requested targets) = length targets"
  by (simp add: usable_routes_eq target_usable_def)

lemma length_weighted_order [simp]: "length (weighted_order drawn pool) = length pool"
  by (metis mset_weighted_order length_map size_mset)

text \<open>
  Property C19. Every alias and every routing group of a validated configuration can be planned, after
  any reload and whatever is drawn, and its plan tries each of the targets written for it: none is
  dropped because its provider is missing.
\<close>

theorem published_names_are_planned_in_full:
  assumes "validate_config files env raw = Inr cfg" "from_config_with cfg prev slots = (slots', t)"
    and "cf_groups cfg name = Some g \<or> cf_groups cfg name = None \<and> cf_aliases cfg name = Some tg"
  shows "\<exists>plan. rt_plan drawn drawn' draw t name = Some (Inr plan)
    \<and> length (rp_targets plan) =
        (if cf_groups cfg name = None
         then Suc (case cf_fallbacks cfg tg of None \<Rightarrow> 0 | Some chain \<Rightarrow> length chain)
         else length (rg_targets g))"
proof -
  note ok = validated_config_ok [OF assms(1), unfolded config_ok_def]
  note tables = from_config_with_tables [OF assms(2)]
  show ?thesis
  proof (cases "cf_groups cfg name")
    case (Some g')
    with assms(3) have g: "cf_groups cfg name = Some g" by simp
    with ok have pools: "rg_primary g \<noteq> []" "pool_ok (cf_providers cfg) (rg_primary g)" "pool_ok (cf_providers cfg) (rg_fallback g)"
      by blast+
    let ?order = "weighted_order drawn (rg_primary g) @ weighted_order drawn' (rg_fallback g)"
    have "\<forall>tg \<in> set ?order. target_usable t tg"
      using pools(2,3) by (auto simp: pool_ok_def tables(4))
    then have "length (usable_routes t name ?order) = length (rg_targets g)"
      by (subst usable_routes_length) (simp_all add: rg_targets_def)
    moreover have "rg_targets g \<noteq> []" using pools(1) by (simp add: rg_targets_def)
    ultimately show ?thesis
      using g tables(3) by (auto simp: rt_plan_def plan_group_def Let_def plan_of_def)
  next
    case None
    with assms(3) have named: "cf_aliases cfg name = Some tg" by simp
    with ok have configured: "target_usable t tg" by (auto simp: tables(4))
    have chain: "length (usable_routes t name chain) = length chain" if "cf_fallbacks cfg tg = Some chain" for chain
      using ok that by (intro usable_routes_length) (auto simp: tables(4))
    from configured obtain p where p: "rt_provider t (tg_provider tg) = Some p" by (auto simp: target_usable_def)
    with None named chain tables show ?thesis
      by (auto simp: rt_plan_def resolve_target_def route_to_def plan_of_def split: option.splits)
  qed
qed

theorem published_names_are_planned_in_full_witness:
  "\<exists>cfg plan. validate_config no_files (\<lambda>_. None) sample_raw = Inr cfg
     \<and> rt_plan (\<lambda>_. 0) (\<lambda>_. 0) 0 (snd (from_config_with cfg None [])) ''fast'' = Some (Inr plan)"
proof -
  obtain cfg where cfg: "validate_config no_files (\<lambda>_. None) sample_raw = Inr cfg"
    "cf_groups cfg ''fast'' = None" "cf_aliases cfg ''fast'' = Some gpt5"
    using sample_raw_validates by blast
  obtain slots t where t: "from_config_with cfg None [] = (slots, t)" by fastforce
  from published_names_are_planned_in_full [OF cfg(1) t, of "''fast''"] cfg t
  show ?thesis by fastforce
qed

end
