(* ===== verification/Json_Probe.thy ===== *)
theory Json_Probe
  imports RR_Prelude
begin

text \<open>
  The single-pass scanner for the routing fields of a request body (\<open>crates/router-core/src/json.rs\<close>).
  The scanner's position is the list of bytes not yet read; a byte range is recovered from its length.
  The unescaping and escaping of a string are those of \<open>serde_json\<close> and parameters.
\<close>

named_theorems scan \<open>a scanning step reads a prefix and does not look past the byte after it\<close>

definition QUOTE :: char where "QUOTE = CHR 0x22"
definition BACKSLASH :: char where "BACKSLASH = CHR 0x5C"

lemma quote_backslash [simp]: "QUOTE \<noteq> BACKSLASH" "BACKSLASH \<noteq> QUOTE"
  by (simp_all add: QUOTE_def BACKSLASH_def)

section \<open>The scanner\<close>

definition is_ws :: "char \<Rightarrow> bool" where
  "is_ws c \<longleftrightarrow> c \<in> {CHR '' '', CHR 0x09, CHR 0x0A, CHR 0x0D}"

definition ws :: "string \<Rightarrow> string" where
  "ws s = dropWhile is_ws s"

fun eat :: "char \<Rightarrow> string \<Rightarrow> string option" where
  "eat c [] = None"
| "eat c (x # r) = (if x = c then Some r else None)"

text \<open>The rest of a string token after its opening quote, the closing quote included.\<close>

fun string_rest :: "string \<Rightarrow> (string \<times> string) option" where
  "string_rest [] = None"
| "string_rest (c # r) =
     (if c = QUOTE then Some ([c], r)
      else if c = BACKSLASH then
        (case r of [] \<Rightarrow> None | e # r \<Rightarrow> map_option (\<lambda>(t, r). (c # e # t, r)) (string_rest r))
      else map_option (\<lambda>(t, r). (c # t, r)) (string_rest r))"

definition string_token :: "string \<Rightarrow> (string \<times> string) option" where
  "string_token s =
     (case eat QUOTE s of None \<Rightarrow> None | Some r \<Rightarrow> map_option (\<lambda>(t, r). (QUOTE # t, r)) (string_rest r))"

lemma string_rest_reads:
  "string_rest s = Some (t, r) \<Longrightarrow> s = t @ r \<and> t \<noteq> [] \<and> (\<forall>r'. string_rest (t @ r') = Some (t, r'))"
proof (induction s arbitrary: t r rule: string_rest.induct)
  case (2 c s)
  consider "c = QUOTE" | e s' where "c = BACKSLASH" "s = e # s'" | "c \<noteq> QUOTE" "c \<noteq> BACKSLASH"
    using "2.prems" by (auto split: if_splits list.splits)
  then show ?case
  proof cases
    case 2
    then obtain t' where t': "string_rest s' = Some (t', r)" "t = c # e # t'" using "2.prems" by auto
    from "2.IH"(1) [OF _ _ 2(2) t'(1)] 2 t' show ?thesis by simp
  next
    case 3
    then obtain t' where t': "string_rest s = Some (t', r)" "t = c # t'" using "2.prems" by auto
    from "2.IH"(2) [OF _ _ t'(1)] 3 t' show ?thesis by simp
  qed (use "2.prems" in auto)
qed simp

lemma string_token_reads:
  assumes "string_token s = Some (t, r)"
  shows "s = t @ r" "t \<noteq> []" "hd t = QUOTE" "string_token (t @ r') = Some (t, r')"
proof -
  obtain t' s' where t': "s = QUOTE # s'" "t = QUOTE # t'" "string_rest s' = Some (t', r)"
    using assms by (cases s) (auto simp: string_token_def split: if_splits)
  from string_rest_reads [OF t'(3)] t' show "s = t @ r" "t \<noteq> []" "hd t = QUOTE" "string_token (t @ r') = Some (t, r')"
    by (auto simp: string_token_def)
qed

lemma eat_shrinks: "eat c s = Some r \<Longrightarrow> length r < length s"
  by (cases s) (auto split: if_splits)

lemma string_token_shrinks: "string_token s = Some (t, r) \<Longrightarrow> length r < length s"
  using string_token_reads(1, 2) [of s t r] by auto

definition is_number_byte :: "char \<Rightarrow> bool" where
  "is_number_byte c \<longleftrightarrow> c \<in> set ''-+.eE'' \<or> byte_in 48 57 c"

function skip_nested :: "nat \<Rightarrow> string \<Rightarrow> string option" where
  "skip_nested depth [] = None"
| "skip_nested depth (c # r) =
     (if c = CHR ''{'' \<or> c = CHR ''['' then skip_nested (depth + 1) r
      else if c = CHR ''}'' \<or> c = CHR '']'' then
        (if depth - 1 = 0 then Some r else skip_nested (depth - 1) r)
      else if c = QUOTE then
        (case string_token (c # r) of None \<Rightarrow> None | Some (_, r) \<Rightarrow> skip_nested depth r)
      else skip_nested depth r)"
  by pat_completeness auto
termination
  by (relation "measure (length \<circ> snd)") (auto dest: string_token_shrinks)

definition skip_value :: "string \<Rightarrow> string option" where
  "skip_value s =
     (case s of
        [] \<Rightarrow> None
      | c # _ \<Rightarrow>
          if c = QUOTE then map_option snd (string_token s)
          else if c = CHR ''{'' \<or> c = CHR ''['' then skip_nested 0 s
          else if c = CHR ''t'' then strip_prefix ''true'' s
          else if c = CHR ''f'' then strip_prefix ''false'' s
          else if c = CHR ''n'' then strip_prefix ''null'' s
          else if c = CHR ''-'' \<or> byte_in 48 57 c then Some (dropWhile is_number_byte s)
          else None)"

section \<open>Scanning is local\<close>

definition like_head :: "string \<Rightarrow> string \<Rightarrow> bool" where
  "like_head r r' \<longleftrightarrow> take 1 r = take 1 r'"

lemma like_head_append: "y \<noteq> [] \<Longrightarrow> like_head (y @ r) (y @ r')"
  by (cases y) (simp_all add: like_head_def)

lemma dropWhile_local:
  assumes "like_head (dropWhile P s) r'"
  shows "dropWhile P (takeWhile P s @ r') = r'"
proof (cases "dropWhile P s")
  case Nil
  with assms have "r' = []" by (cases r') (auto simp: like_head_def)
  with Nil show ?thesis by (auto dest: set_takeWhileD)
next
  case (Cons c r)
  then have "\<not> P c" by (metis hd_dropWhile list.distinct(1) list.sel(1))
  moreover from Cons assms obtain r2 where "r' = c # r2" by (cases r') (auto simp: like_head_def)
  moreover have "\<forall>x \<in> set (takeWhile P s). P x" by (auto dest: set_takeWhileD)
  ultimately show ?thesis by (simp add: dropWhile_append)
qed

lemma ws_local: "like_head (ws s) r' \<Longrightarrow> ws (takeWhile is_ws s @ r') = r'"
  by (simp add: ws_def dropWhile_local)

lemma ws_split: "s = takeWhile is_ws s @ ws s"
  by (simp add: ws_def)

lemma skip_nested_local:
  "skip_nested d s = Some r \<Longrightarrow> \<exists>x. s = x @ r \<and> x \<noteq> [] \<and> (\<forall>r'. skip_nested d (x @ r') = Some r')"
proof (induction d s arbitrary: r rule: skip_nested.induct)
  case (2 d c s)
  consider "c = CHR ''{'' \<or> c = CHR ''[''"
    | "c = CHR ''}'' \<or> c = CHR '']''" "d - 1 = 0" | "c = CHR ''}'' \<or> c = CHR '']''" "d - 1 \<noteq> 0"
    | t s' where "c = QUOTE" "string_token (c # s) = Some (t, s')"
    | "c \<notin> {CHR ''{'', CHR ''['', CHR ''}'', CHR '']'', QUOTE}"
    using "2.prems" by (auto split: if_splits option.splits)
  then show ?case
  proof cases
    case 1
    with "2.prems" "2.IH"(1) [of r] show ?thesis by (auto intro: exI [of _ "c # _"])
  next
    case 2
    with "2.prems" show ?thesis by (intro exI [of _ "[c]"]) auto
  next
    case 3
    then have "\<not> (c = CHR ''{'' \<or> c = CHR ''['')" by auto
    with 3 "2.prems" "2.IH"(2) [of r] show ?thesis by (auto intro: exI [of _ "c # _"])
  next
    case 4
    have plain: "\<not> (c = CHR ''{'' \<or> c = CHR ''['')" "\<not> (c = CHR ''}'' \<or> c = CHR '']'')"
      using 4(1) by (auto simp: QUOTE_def)
    have "skip_nested d s' = Some r" using "2.prems" 4 plain by simp
    from "2.IH"(3) [OF plain 4(1) 4(2) refl this] obtain x where
      x: "s' = x @ r" "x \<noteq> []" "\<forall>r'. skip_nested d (x @ r') = Some r'" by blast
    note token = string_token_reads [OF 4(2)]
    obtain t' where t: "t = c # t'" using token(1, 2) by (cases t) auto
    have "skip_nested d (t @ x @ r') = Some r'" for r'
      using token(4) [of "x @ r'"] x(3) plain 4(1) by (simp add: t)
    with token(1, 2) x(1) show ?thesis by (intro exI [of _ "t @ x"]) simp
  next
    case 5
    with "2.prems" "2.IH"(4) [of r] show ?thesis by (auto intro: exI [of _ "c # _"])
  qed
qed simp

lemma strip_prefix_local: "strip_prefix p s = Some r \<Longrightarrow> s = p @ r" "strip_prefix p (p @ r') = Some r'"
  by (simp_all add: strip_prefix_Some)

lemma skip_value_local:
  assumes "skip_value s = Some r"
  shows "\<exists>x. s = x @ r \<and> x \<noteq> [] \<and> (\<forall>r'. like_head r r' \<longrightarrow> skip_value (x @ r') = Some r')"
proof (cases s)
  case (Cons c s')
  have *: ?thesis if h: "s = x @ r" "x \<noteq> []" "\<forall>r'. like_head r r' \<longrightarrow> f (x @ r') = Some r'"
    "\<And>s'. skip_value (c # s') = f (c # s')" for x f
  proof (intro exI conjI allI impI)
    fix r' assume "like_head r r'"
    moreover obtain y where "x = c # y" using h(1, 2) Cons by (cases x) auto
    ultimately show "skip_value (x @ r') = Some r'" using h(3, 4) by simp
  qed fact+
  consider "c = QUOTE" | "c = CHR ''{'' \<or> c = CHR ''[''" | "c = CHR ''t''" | "c = CHR ''f''" | "c = CHR ''n''"
    | "c = CHR ''-'' \<or> byte_in 48 57 c"
      "c \<notin> {QUOTE, CHR ''{'', CHR ''['', CHR ''t'', CHR ''f'', CHR ''n''}"
    using assms by (auto simp: skip_value_def Cons split: if_splits)
  then show ?thesis
  proof cases
    case 1
    then have eq: "skip_value (c # u) = map_option snd (string_token (c # u))" for u
      by (simp add: skip_value_def)
    with assms Cons obtain t where "string_token s = Some (t, r)" by auto
    from string_token_reads [OF this] eq show ?thesis
      by (intro * [of t "\<lambda>u. map_option snd (string_token u)"]) auto
  next
    case 2
    then have eq: "skip_value (c # u) = skip_nested 0 (c # u)" for u
      by (auto simp: skip_value_def QUOTE_def)
    with assms Cons have "skip_nested 0 s = Some r" by simp
    from skip_nested_local [OF this] obtain x where
      "s = x @ r" "x \<noteq> []" "\<forall>r'. like_head r r' \<longrightarrow> skip_nested 0 (x @ r') = Some r'" by blast
    from * [OF this eq] show ?thesis .
  next
    case 3
    with assms Cons show ?thesis
      by (intro * [of "''true''" "strip_prefix ''true''"]) (auto simp: skip_value_def QUOTE_def strip_prefix_Some)
  next
    case 4
    with assms Cons show ?thesis
      by (intro * [of "''false''" "strip_prefix ''false''"]) (auto simp: skip_value_def QUOTE_def strip_prefix_Some)
  next
    case 5
    with assms Cons show ?thesis
      by (intro * [of "''null''" "strip_prefix ''null''"]) (auto simp: skip_value_def QUOTE_def strip_prefix_Some)
  next
    case 6
    then have eq: "skip_value (c # u) = Some (dropWhile is_number_byte (c # u))" for u
      by (auto simp: skip_value_def)
    have r: "r = dropWhile is_number_byte s" using assms Cons eq by simp
    have "is_number_byte c" using 6(1) by (auto simp: is_number_byte_def)
    with r Cons eq show ?thesis
      by (intro * [of "takeWhile is_number_byte s" "\<lambda>u. Some (dropWhile is_number_byte u)"])
        (auto intro: dropWhile_local)
  qed
qed (use assms in \<open>simp add: skip_value_def\<close>)

section \<open>The probe\<close>

record probe =
  pb_model :: string
  pb_model_span :: "nat \<times> nat"
  pb_stream :: "bool option"

text \<open>One member of the object: what it was, and the bytes after its value.\<close>

datatype member = ModelToken string | StreamFlag "bool option" | Skipped

definition stream_flag :: "string \<Rightarrow> (member \<times> string) option" where
  "stream_flag s =
     (case s of
        [] \<Rightarrow> None
      | c # _ \<Rightarrow>
          if c = CHR ''t'' then map_option (Pair (StreamFlag (Some True))) (strip_prefix ''true'' s)
          else if c = CHR ''f'' then map_option (Pair (StreamFlag (Some False))) (strip_prefix ''false'' s)
          else if c = CHR ''n'' then map_option (Pair (StreamFlag None)) (strip_prefix ''null'' s)
          else None)"

definition member_value :: "string \<Rightarrow> string \<Rightarrow> (member \<times> string) option" where
  "member_value key s =
     (if key = ''model'' then map_option (\<lambda>(t, r). (ModelToken t, r)) (string_token s)
      else if key = ''stream'' then stream_flag s
      else map_option (Pair Skipped) (skip_value s))"

definition probe_member :: "string \<Rightarrow> (member \<times> string) option" where
  "probe_member s =
     (case string_token (ws s) of
        None \<Rightarrow> None
      | Some (token, r) \<Rightarrow>
          let key = butlast (tl token)
          in if BACKSLASH \<in> set key then None
             else case eat CHR '':'' (ws r) of None \<Rightarrow> None | Some r \<Rightarrow> member_value key (ws r))"

lemma ws_shrinks: "length (ws s) \<le> length s"
  by (simp add: ws_def length_dropWhile_le)

lemma skip_value_shrinks: "skip_value s = Some r \<Longrightarrow> length r < length s"
  using skip_value_local [of s r] by auto

lemma stream_flag_literals:
  "stream_flag (''true'' @ r) = Some (StreamFlag (Some True), r)"
  "stream_flag (''false'' @ r) = Some (StreamFlag (Some False), r)"
  "stream_flag (''null'' @ r) = Some (StreamFlag None, r)"
  by (simp_all add: stream_flag_def)

lemma stream_flag_cases:
  assumes "stream_flag s = Some (k, r)"
  shows "\<exists>p v. p \<noteq> [] \<and> k = StreamFlag v \<and> s = p @ r \<and> (\<forall>r'. stream_flag (p @ r') = Some (StreamFlag v, r'))"
proof -
  have "\<exists>p v. strip_prefix p s = Some r \<and> k = StreamFlag v
      \<and> (p, v) \<in> {(''true'', Some True), (''false'', Some False), (''null'', None)}"
    using assms by (auto simp: stream_flag_def simp del: strip_prefix.simps split: list.splits if_splits)
  then show ?thesis
    unfolding strip_prefix_Some using stream_flag_literals by (elim exE conjE insertE emptyE) fastforce+
qed

lemma member_value_shrinks: "member_value key s = Some (k, r) \<Longrightarrow> length r \<le> length s"
  by (auto simp: member_value_def dest!: string_token_shrinks skip_value_shrinks stream_flag_cases split: if_splits)

lemma probe_member_shrinks:
  assumes "probe_member s = Some (k, r)" shows "length r < length s"
proof -
  obtain token r1 r2 where steps: "string_token (ws s) = Some (token, r1)" "eat CHR '':'' (ws r1) = Some r2"
    "member_value (butlast (tl token)) (ws r2) = Some (k, r)"
    using assms by (auto simp: probe_member_def Let_def split: option.splits if_splits)
  from string_token_shrinks [OF steps(1)] eat_shrinks [OF steps(2)] member_value_shrinks [OF steps(3)]
    ws_shrinks [of s] ws_shrinks [of r1] ws_shrinks [of r2]
  show ?thesis by linarith
qed

text \<open>The loop over the members; \<open>model\<close> is the byte range of the last model value read.\<close>

function probe_members ::
    "nat \<Rightarrow> (nat \<times> nat) option \<Rightarrow> bool option \<Rightarrow> string \<Rightarrow> ((nat \<times> nat) option \<times> bool option \<times> string) option" where
  "probe_members len model stream s =
     (case probe_member s of
        None \<Rightarrow> None
      | Some (k, r) \<Rightarrow>
          let model = (case k of ModelToken t \<Rightarrow> Some (len - length r - length t, len - length r) | _ \<Rightarrow> model);
              stream = (case k of StreamFlag b \<Rightarrow> b | _ \<Rightarrow> stream)
          in (case ws r of
                [] \<Rightarrow> None
              | c # r' \<Rightarrow>
                  if c = CHR '','' then probe_members len model stream r'
                  else if c = CHR ''}'' then Some (model, stream, r')
                  else None))"
  by pat_completeness auto
termination
proof (relation "measure (\<lambda>(_, _, _, s). length s)", goal_cases)
  case (2 len model stream s p k r m st c r')
  then have "length r < length s" "length (ws r) = Suc (length r')"
    using probe_member_shrinks by auto
  with ws_shrinks [of r] show ?case by simp
qed simp

declare probe_members.simps [simp del]

definition probe :: "(string \<Rightarrow> string option) \<Rightarrow> string \<Rightarrow> probe option" where
  "probe unquote body =
     (case eat CHR ''{'' (ws body) of
        None \<Rightarrow> None
      | Some s \<Rightarrow>
          if eat CHR ''}'' (ws s) \<noteq> None then None
          else case probe_members (length body) None None (ws s) of
            None \<Rightarrow> None
          | Some (model, stream, r) \<Rightarrow>
              if ws r \<noteq> [] then None
              else case model of
                None \<Rightarrow> None
              | Some (vs, ve) \<Rightarrow>
                  map_option (\<lambda>m. \<lparr>pb_model = m, pb_model_span = (vs, ve), pb_stream = stream\<rparr>)
                    (unquote (take (ve - vs) (drop vs body))))"

definition splice_model :: "(string \<Rightarrow> string) \<Rightarrow> string \<Rightarrow> nat \<times> nat \<Rightarrow> string \<Rightarrow> string" where
  "splice_model quote body place new_model = take (fst place) body @ quote new_model @ drop (snd place) body"

section \<open>Replacing the model\<close>

definition is_token :: "string \<Rightarrow> bool" where
  "is_token t \<longleftrightarrow> string_token t = Some (t, [])"

lemma is_tokenD:
  assumes "is_token t" shows "t \<noteq> []" "hd t = QUOTE" "string_token (t @ r) = Some (t, r)"
  using string_token_reads(2, 3) [of t t "[]"] string_token_reads(4) [of t t "[]" r] assms by (simp_all add: is_token_def)

lemma is_token_of: "string_token s = Some (t, r) \<Longrightarrow> is_token t"
  using string_token_reads(4) [of s t r "[]"] by (simp add: is_token_def)

lemma like_head_token: "is_token t \<Longrightarrow> is_token t' \<Longrightarrow> like_head (t @ r) (t' @ r')"
  using is_tokenD(1, 2) [of t] is_tokenD(1, 2) [of t'] by (cases t; cases t') (auto simp: like_head_def)

lemma eat_Some: "eat c s = Some r \<longleftrightarrow> s = c # r"
  by (cases s) auto

lemma eat_None: "eat c s = None \<longleftrightarrow> (\<forall>r. s \<noteq> c # r)"
  by (cases s) auto

text \<open>A member is decided by its key and value; what precedes the value is kept.\<close>

lemma probe_member_value:
  assumes "probe_member s = Some (k, r)"
  obtains pre key v where "s = pre @ v" "member_value key v = Some (k, r)"
    "\<forall>v'. like_head v v' \<longrightarrow> probe_member (pre @ v') = member_value key v'"
proof -
  obtain token r1 r2 where steps: "string_token (ws s) = Some (token, r1)"
    "BACKSLASH \<notin> set (butlast (tl token))" "ws r1 = CHR '':'' # r2"
    "member_value (butlast (tl token)) (ws r2) = Some (k, r)"
    using assms by (auto simp: probe_member_def Let_def eat_Some split: option.splits if_splits)
  define w0 w1 w2 where "w0 = takeWhile is_ws s" and "w1 = takeWhile is_ws r1" and "w2 = takeWhile is_ws r2"
  note token = string_token_reads [OF steps(1)]
  have s: "s = w0 @ token @ r1" using ws_split [of s] token(1) by (simp add: w0_def)
  have r1: "r1 = w1 @ CHR '':'' # r2" using ws_split [of r1] steps(3) by (simp add: w1_def)
  have r2: "r2 = w2 @ ws r2" using ws_split [of r2] by (simp add: w2_def)
  have same: "probe_member (w0 @ token @ w1 @ CHR '':'' # w2 @ v') = member_value (butlast (tl token)) v'"
    if "like_head (ws r2) v'" for v'
  proof -
    have v': "ws (w2 @ v') = v'" using that unfolding w2_def by (rule ws_local)
    have colon: "ws (w1 @ CHR '':'' # u) = CHR '':'' # u" for u
      unfolding w1_def by (rule ws_local) (simp add: steps(3) like_head_def)
    have "ws (w0 @ token @ u) = token @ u" for u
      unfolding w0_def by (rule ws_local) (use token(1, 2) in \<open>simp add: like_head_append\<close>)
    with v' colon token(4) steps(2) show ?thesis
      by (simp add: probe_member_def Let_def eat_Some)
  qed
  show thesis
  proof (rule that [of "w0 @ token @ w1 @ CHR '':'' # w2" "ws r2"])
    show "s = (w0 @ token @ w1 @ CHR '':'' # w2) @ ws r2" using s r1 r2 by (metis append.assoc append_Cons)
    show "member_value (butlast (tl token)) (ws r2) = Some (k, r)" by (rule steps(4))
    show "\<forall>v'. like_head (ws r2) v' \<longrightarrow>
        probe_member ((w0 @ token @ w1 @ CHR '':'' # w2) @ v') = member_value (butlast (tl token)) v'"
      using same by (simp only: append_assoc append_Cons) blast
  qed
qed

lemma member_value_local:
  assumes "member_value key v = Some (k, r)"
  shows "\<exists>u. v = u @ r \<and> u \<noteq> [] \<and> (\<forall>r'. like_head r r' \<longrightarrow> member_value key (u @ r') = Some (k, r'))
    \<and> (\<forall>t. k = ModelToken t \<longrightarrow> u = t \<and> is_token t \<and> key = ''model'')"
proof -
  consider t where "key = ''model''" "string_token v = Some (t, r)" "k = ModelToken t"
    | "key = ''stream''" "stream_flag v = Some (k, r)"
    | "key \<noteq> ''model''" "key \<noteq> ''stream''" "skip_value v = Some r" "k = Skipped"
    using assms by (auto simp: member_value_def split: if_splits)
  then show ?thesis
  proof cases
    case 1
    with string_token_reads [OF 1(2)] is_token_of [OF 1(2)] show ?thesis
      by (intro exI [of _ t]) (simp add: member_value_def)
  next
    case 2
    from stream_flag_cases [OF 2(2)] 2(1) show ?thesis by (auto simp: member_value_def)
  next
    case 3
    from skip_value_local [OF 3(3)] 3 show ?thesis by (auto simp: member_value_def)
  qed
qed

lemma probe_member_local:
  assumes "probe_member s = Some (k, r)"
  obtains x where "s = x @ r" "x \<noteq> []" "\<forall>r'. like_head r r' \<longrightarrow> probe_member (x @ r') = Some (k, r')"
    "\<forall>t. k = ModelToken t \<longrightarrow> is_token t \<and> (\<exists>y. x = y @ t
       \<and> (\<forall>t' r'. is_token t' \<longrightarrow> probe_member (y @ t' @ r') = Some (ModelToken t', r')))"
proof -
  obtain pre v key where v: "s = pre @ v" "member_value key v = Some (k, r)"
    and pre: "\<forall>v'. like_head v v' \<longrightarrow> probe_member (pre @ v') = member_value key v'"
    using probe_member_value [OF assms] by blast
  obtain u where u: "v = u @ r" "u \<noteq> []" "\<forall>r'. like_head r r' \<longrightarrow> member_value key (u @ r') = Some (k, r')"
    "\<forall>t. k = ModelToken t \<longrightarrow> u = t \<and> is_token t \<and> key = ''model''"
    using member_value_local [OF v(2)] by blast
  show thesis
  proof (rule that [of "pre @ u"])
    have "probe_member ((pre @ u) @ r') = Some (k, r')" if "like_head r r'" for r'
      using pre u that by (simp add: like_head_append)
    then show "\<forall>r'. like_head r r' \<longrightarrow> probe_member ((pre @ u) @ r') = Some (k, r')" by blast
    have "is_token t \<and> (\<exists>y. pre @ u = y @ t
        \<and> (\<forall>t' r'. is_token t' \<longrightarrow> probe_member (y @ t' @ r') = Some (ModelToken t', r')))"
      if "k = ModelToken t" for t
    proof -
      from u(4) that have t: "u = t" "is_token t" "key = ''model''" by auto
      have "probe_member (pre @ t' @ r') = Some (ModelToken t', r')" if "is_token t'" for t' r'
        using pre like_head_token [OF t(2) that, of r r'] is_tokenD(3) [OF that, of r'] t u(1)
        by (simp add: member_value_def)
      with t show ?thesis by auto
    qed
    then show "\<forall>t. k = ModelToken t \<longrightarrow> is_token t \<and> (\<exists>y. pre @ u = y @ t
        \<and> (\<forall>t' r'. is_token t' \<longrightarrow> probe_member (y @ t' @ r') = Some (ModelToken t', r')))" by blast
  qed (use v u in simp_all)
qed

lemma ws_comma_local:
  assumes "ws r = c # r'" shows "\<exists>w. r = w @ c # r' \<and> (\<forall>u. ws (w @ c # u) = c # u) \<and> (\<forall>u. like_head r (w @ c # u))"
proof (intro exI conjI allI)
  show r: "r = takeWhile is_ws r @ c # r'" using ws_split [of r] assms by simp
  show "ws (takeWhile is_ws r @ c # u) = c # u" for u
    by (rule ws_local) (simp add: assms like_head_def)
  show "like_head r (takeWhile is_ws r @ c # u)" for u
    by (subst r, cases "takeWhile is_ws r") (simp_all add: like_head_def)
qed

text \<open>
  The loop reads the model from the last member that carries one; where that member's value is replaced,
  it reads the replacement, whatever came before.
\<close>

definition reads_nowhere :: "string \<Rightarrow> bool option \<Rightarrow> bool option \<Rightarrow> string \<Rightarrow> bool" where
  "reads_nowhere s stream stream' r \<longleftrightarrow> (\<forall>len m. probe_members len m stream s = Some (m, stream', r))"

definition reads_between :: "string \<Rightarrow> string \<Rightarrow> bool option \<Rightarrow> bool option \<Rightarrow> string \<Rightarrow> bool" where
  "reads_between x y stream stream' r \<longleftrightarrow>
     (\<forall>len m t. is_token t \<longrightarrow>
        probe_members len m stream (x @ t @ y) =
          Some (Some (len - length y - length t, len - length y), stream', r))"

lemma probe_members_step:
  assumes "probe_member s = Some (k, r)"
  shows "probe_members len model stream s =
     (let model = (case k of ModelToken t \<Rightarrow> Some (len - length r - length t, len - length r) | _ \<Rightarrow> model);
          stream = (case k of StreamFlag b \<Rightarrow> b | _ \<Rightarrow> stream)
      in (case ws r of
            [] \<Rightarrow> None
          | c # r' \<Rightarrow>
              if c = CHR '','' then probe_members len model stream r'
              else if c = CHR ''}'' then Some (model, stream, r')
              else None))"
  by (subst probe_members.simps) (simp add: assms)

lemma probe_members_model:
  "probe_members len model stream s = Some (model', stream', r) \<Longrightarrow>
     model' = model \<and> reads_nowhere s stream stream' r
   \<or> (\<exists>x t y. s = x @ t @ y \<and> is_token t \<and> model' = Some (len - length y - length t, len - length y)
        \<and> reads_between x y stream stream' r)"
proof (induction len model stream s rule: probe_members.induct)
  case (1 len model stream s)
  obtain k r1 where member: "probe_member s = Some (k, r1)"
    using "1.prems" by (subst (asm) probe_members.simps) (auto split: option.splits)
  define model1 where
    "model1 = (case k of ModelToken t \<Rightarrow> Some (len - length r1 - length t, len - length r1) | _ \<Rightarrow> model)"
  define stream1 where "stream1 = (case k of StreamFlag b \<Rightarrow> b | _ \<Rightarrow> stream)"
  have "ws r1 \<noteq> []" using "1.prems" by (auto simp: probe_members_step [OF member] Let_def)
  then obtain c r2 where ws: "ws r1 = c # r2" by (meson neq_Nil_conv)
  obtain x where x: "s = x @ r1" "x \<noteq> []"
    "\<forall>r'. like_head r1 r' \<longrightarrow> probe_member (x @ r') = Some (k, r')"
    "\<forall>t. k = ModelToken t \<longrightarrow> is_token t \<and> (\<exists>y. x = y @ t
       \<and> (\<forall>t' r'. is_token t' \<longrightarrow> probe_member (y @ t' @ r') = Some (ModelToken t', r')))"
    using probe_member_local [OF member] by blast
  obtain w where w: "r1 = w @ c # r2" "\<And>u. ws (w @ c # u) = c # u" "\<And>u. like_head r1 (w @ c # u)"
    using ws_comma_local [OF ws] by blast
  text \<open>What the rest reads, this position reads: nothing more, or between the same places.\<close>
  have here: "model' = model \<and> reads_nowhere s stream stream' r
      \<or> (\<exists>x t y. s = x @ t @ y \<and> is_token t \<and> model' = Some (len - length y - length t, len - length y)
          \<and> reads_between x y stream stream' r)"
    if last: "model' = model1"
      and rest: "\<And>len m. (let model = m in case ws r1 of [] \<Rightarrow> None
        | c # r' \<Rightarrow> if c = CHR '','' then probe_members len model stream1 r'
                    else if c = CHR ''}'' then Some (model, stream1, r') else None) = Some (m, stream', r)"
  proof (cases "\<exists>t. k = ModelToken t")
    case True
    then obtain t y where t: "k = ModelToken t" "is_token t" "x = y @ t"
      "\<And>t' r'. is_token t' \<Longrightarrow> probe_member (y @ t' @ r') = Some (ModelToken t', r')"
      using x(4) by blast
    have "stream1 = stream" using t(1) by (simp add: stream1_def)
    then have "reads_between y r1 stream stream' r"
      unfolding reads_between_def
      using rest t(1) by (auto simp: probe_members_step [OF t(4)] Let_def)
    with t x(1) last show ?thesis by (auto simp: model1_def)
  next
    case False
    then have "(case k of ModelToken t \<Rightarrow> f t | _ \<Rightarrow> m) = m" for f and m :: "(nat \<times> nat) option"
      by (cases k) simp_all
    then have "reads_nowhere s stream stream' r"
      unfolding reads_nowhere_def probe_members_step [OF member] stream1_def [symmetric]
      using rest by (simp add: Let_def)
    with False last show ?thesis by (auto simp: model1_def split: member.splits)
  qed
  consider "c = CHR '',''" "probe_members len model1 stream1 r2 = Some (model', stream', r)"
    | "c = CHR ''}''" "model' = model1" "stream' = stream1" "r = r2"
    using "1.prems"
    by (subst (asm) probe_members_step [OF member]) (auto simp: ws model1_def stream1_def Let_def split: if_splits)
  then show ?case
  proof cases
    case 1
    from "1.IH" [OF member refl model1_def stream1_def ws 1] show ?thesis
    proof (elim disjE exE conjE)
      assume "model' = model1" "reads_nowhere r2 stream1 stream' r"
      then show ?thesis using 1 ws by (intro here) (simp_all add: reads_nowhere_def)
    next
      fix x2 t y
      assume between: "r2 = x2 @ t @ y" "is_token t" "model' = Some (len - length y - length t, len - length y)"
        "reads_between x2 y stream1 stream' r"
      have "reads_between (x @ w @ c # x2) y stream stream' r"
        unfolding reads_between_def
      proof (intro allI impI)
        fix len m t' assume t': "is_token t'"
        have "probe_member (x @ w @ c # x2 @ t' @ y) = Some (k, w @ c # x2 @ t' @ y)"
          using x(3) w(3) by blast
        from probe_members_step [OF this] between(4) t' 1(1) w(2)
        show "probe_members len m stream ((x @ w @ c # x2) @ t' @ y) =
            Some (Some (len - length y - length t', len - length y), stream', r)"
          by (simp add: reads_between_def stream1_def)
      qed
      with between x(1) w(1) show ?thesis by fastforce
    qed
  next
    case 2
    then show ?thesis using ws by (intro here) simp_all
  qed
qed

lemma splice_reads_back:
  assumes "probe unquote body = Some p" "is_token (quote m)" "unquote (quote m) = Some m"
    and "splice_model quote body (pb_model_span p) m = body'" "pb_model_span p = (vs, ve)"
  shows "probe unquote body' =
       Some \<lparr>pb_model = m, pb_model_span = (vs, vs + length (quote m)), pb_stream = pb_stream p\<rparr>"
    and "take vs body' = take vs body" "drop (vs + length (quote m)) body' = drop ve body"
    and "vs < ve" "ve \<le> length body"
proof -
  obtain s stream r where steps: "ws body = CHR ''{'' # s" "eat CHR ''}'' (ws s) = None"
    "probe_members (length body) None None (ws s) = Some (Some (vs, ve), stream, r)" "ws r = []"
    "pb_stream p = stream"
  proof (cases "ws body")
    case (Cons c s)
    with assms(1, 5) that [of s] show ?thesis
      by (auto simp: probe_def eat_Some eat_None split: option.splits if_splits)
  qed (use assms(1) in \<open>simp add: probe_def\<close>)
  from probe_members_model [OF steps(3)] obtain x t y where xty: "ws s = x @ t @ y" "is_token t"
    "vs = length body - length y - length t" "ve = length body - length y" "reads_between x y None stream r"
    by auto
  define w0 w1 where "w0 = takeWhile is_ws body" and "w1 = takeWhile is_ws s"
  define pre where "pre = w0 @ CHR ''{'' # w1 @ x"
  have body: "body = pre @ t @ y"
    using ws_split [of body] ws_split [of s] steps(1) xty(1) by (simp add: w0_def w1_def pre_def)
  then have vs: "vs = length pre" "ve = length pre + length t" using xty(3, 4) by auto
  have body': "body' = pre @ quote m @ y" using assms(4, 5) body vs by (simp add: splice_model_def)
  from body vs body' show "take vs body' = take vs body" "drop (vs + length (quote m)) body' = drop ve body"
    "vs < ve" "ve \<le> length body"
    using is_tokenD(1) [OF xty(2)] by auto
  have head: "like_head (x @ t @ y) (x @ quote m @ y)"
    using like_head_token [OF xty(2) assms(2)] by (cases x) (simp_all add: like_head_def)
  have inner: "ws (w1 @ x @ quote m @ y) = x @ quote m @ y"
    unfolding w1_def by (rule ws_local) (simp add: xty(1) head)
  have outer: "ws (w0 @ CHR ''{'' # u) = CHR ''{'' # u" for u
    unfolding w0_def by (rule ws_local) (simp add: steps(1) like_head_def)
  have closed: "eat CHR ''}'' (x @ quote m @ y) = None"
    using steps(2) head unfolding xty(1)
    by (cases "x @ t @ y"; cases "x @ quote m @ y") (auto simp: like_head_def split: if_splits)
  have "probe_members (length body') None None (x @ quote m @ y) =
      Some (Some (vs, vs + length (quote m)), stream, r)"
    using xty(5) assms(2) vs by (simp add: reads_between_def body')
  with steps(4, 5) outer inner closed assms(3) vs show "probe unquote body' =
      Some \<lparr>pb_model = m, pb_model_span = (vs, vs + length (quote m)), pb_stream = pb_stream p\<rparr>"
    by (simp add: probe_def body' pre_def eat_Some)
qed

text \<open>
  Where the probe reads a body, replacing the model in the byte range it reports gives a body in which
  it reads the new model and the same \<open>stream\<close>, and which is byte for byte the old one outside the range.
\<close>

theorem splicing_replaces_exactly_the_model:
  assumes "probe unquote body = Some p" "is_token (quote m)" "unquote (quote m) = Some m"
    and "splice_model quote body (pb_model_span p) m = body'" "pb_model_span p = (vs, ve)"
  shows "probe unquote body' =
       Some \<lparr>pb_model = m, pb_model_span = (vs, vs + length (quote m)), pb_stream = pb_stream p\<rparr>
     \<and> take vs body' = take vs body \<and> drop (vs + length (quote m)) body' = drop ve body
     \<and> vs < ve \<and> ve \<le> length body"
  using splice_reads_back [OF assms] by simp

text \<open>A body, with the quoting of plain names.\<close>

definition plain_quote :: "string \<Rightarrow> string" where
  "plain_quote s = QUOTE # s @ [QUOTE]"

definition plain_unquote :: "string \<Rightarrow> string option" where
  "plain_unquote s = Some (butlast (tl s))"

definition sample_body :: string where
  "sample_body = ''{'' @ plain_quote ''max'' @ '':12, '' @ plain_quote ''model'' @ '':'' @ plain_quote ''fast''
     @ '','' @ plain_quote ''stream'' @ '':true}''"

lemma sample_body_read:
  "probe plain_unquote sample_body =
     Some \<lparr>pb_model = ''fast'', pb_model_span = (19, 25), pb_stream = Some True\<rparr>"
  by code_simp

lemma plain_quote_token: "is_token (plain_quote ''gpt-5'')"
  by (simp add: is_token_def string_token_def plain_quote_def QUOTE_def BACKSLASH_def)

lemma plain_unquote_quote: "plain_unquote (plain_quote s) = Some s"
  by (simp add: plain_unquote_def plain_quote_def)

theorem splicing_replaces_exactly_the_model_witness:
  "probe plain_unquote sample_body =
     Some \<lparr>pb_model = ''fast'', pb_model_span = (19, 25), pb_stream = Some True\<rparr>
   \<and> probe plain_unquote (splice_model plain_quote sample_body (19, 25) ''gpt-5'') =
     Some \<lparr>pb_model = ''gpt-5'', pb_model_span = (19, 26), pb_stream = Some True\<rparr>"
  using splicing_replaces_exactly_the_model
    [where quote = plain_quote, OF sample_body_read plain_quote_token plain_unquote_quote refl]
  by (simp add: sample_body_read plain_quote_def)

text \<open>
  The scanner is laxer than the grammar: a run of signs and dots passes for a number, and a bracket
  closes a brace. Such a body is forwarded as it is where the full parser would refuse it.
\<close>

theorem probe_accepts_what_is_not_json:
  "probe plain_unquote (''{'' @ plain_quote ''n'' @ '':-+.e,'' @ plain_quote ''model'' @ '':'' @ plain_quote ''m'' @ ''}'') \<noteq> None"
  "probe plain_unquote (''{'' @ plain_quote ''n'' @ '':{],'' @ plain_quote ''model'' @ '':'' @ plain_quote ''m'' @ ''}'') \<noteq> None"
  by code_simp+

end
