(* ===== verification/Json_Value.thy ===== *)
theory Json_Value
  imports Calendar
begin

text \<open>
  \<open>serde_json::Value\<close> as the program reads it, and the number parser of the standard library. An object
  is the association list of its members; indexing anything but an object, or with a key that is not
  there, gives null. The parser from text is the crate's and a parameter where it is used.
\<close>

named_theorems json_simps \<open>computation rules of the accessors\<close>

datatype json =
    JNull
  | JBool bool
  | JInt int
  | JFloat rat
  | JString string
  | JArray "json list"
  | JObject "(string \<times> json) list"

fun js_get :: "json \<Rightarrow> string \<Rightarrow> json option" where
  "js_get (JObject ms) key = map_of ms key"
| "js_get _ key = None"

definition js_index :: "json \<Rightarrow> string \<Rightarrow> json" where
  "js_index v key = (case js_get v key of None \<Rightarrow> JNull | Some w \<Rightarrow> w)"

fun js_as_str :: "json \<Rightarrow> string option" where
  "js_as_str (JString s) = Some s"
| "js_as_str _ = None"

fun js_as_u64 :: "json \<Rightarrow> u64 option" where
  "js_as_u64 (JInt n) = (if 0 \<le> n \<and> n < 2 ^ 64 then Some (word_of_int n) else None)"
| "js_as_u64 _ = None"

fun js_as_f64 :: "json \<Rightarrow> rat option" where
  "js_as_f64 (JInt n) = Some (of_int n)"
| "js_as_f64 (JFloat q) = Some q"
| "js_as_f64 _ = None"

lemma js_index_object [json_simps]:
  "js_index (JObject ((k, v) # ms)) key = (if key = k then v else js_index (JObject ms) key)"
  "js_index (JObject []) key = JNull"
  "js_index JNull key = JNull"
  by (simp_all add: js_index_def)

section \<open>Parsing a floating point number\<close>

text \<open>\<open>str::to_ascii_lowercase\<close>.\<close>

definition lower :: "string \<Rightarrow> string" where
  "lower s = map (\<lambda>c. if byte_in 65 90 c then char_of (byte c + 32) else c) s"

text \<open>A value beyond the largest finite \<open>f64\<close> by half a unit or more rounds to an infinity.\<close>

definition f64_of_rat :: "rat \<Rightarrow> f64" where
  "f64_of_rat q =
     (if 2 ^ 1024 - 2 ^ 970 \<le> q then Infinity
      else if q \<le> - (2 ^ 1024 - 2 ^ 970) then NegInfinity
      else Finite q)"

definition split_sign :: "string \<Rightarrow> bool \<times> string" where
  "split_sign s =
     (case s of
        [] \<Rightarrow> (False, [])
      | c # r \<Rightarrow> if c = CHR ''-'' then (True, r) else if c = CHR ''+'' then (False, r) else (False, s))"

definition parse_exponent :: "string \<Rightarrow> int option" where
  "parse_exponent s =
     (case s of
        [] \<Rightarrow> Some 0
      | c # r \<Rightarrow>
          if c = CHR ''e'' \<or> c = CHR ''E''
          then let (negative, ds) = split_sign r
               in map_option (\<lambda>n. if negative then - n else n) (parse_digits ds)
          else None)"

definition scale10 :: "rat \<Rightarrow> int \<Rightarrow> rat" where
  "scale10 q e = (if 0 \<le> e then q * 10 ^ nat e else q / 10 ^ nat (- e))"

text \<open>\<open>Digit+ [. Digit*]\<close> or \<open>. Digit+\<close>, then an exponent.\<close>

definition parse_decimal :: "string \<Rightarrow> rat option" where
  "parse_decimal s =
     (let whole = takeWhile is_digit s;
          r = dropWhile is_digit s;
          pointed = (r \<noteq> [] \<and> hd r = CHR ''.'');
          part = (if pointed then takeWhile is_digit (tl r) else []);
          rest = (if pointed then dropWhile is_digit (tl r) else r)
      in if whole = [] \<and> part = [] then None
         else map_option (\<lambda>e. scale10 (of_int (digits_value (whole @ part))) (e - int (length part)))
                (parse_exponent rest))"

definition parse_f64 :: "string \<Rightarrow> f64 option" where
  "parse_f64 s =
     (let (negative, r) = split_sign s; word = lower r in
      if word = ''inf'' \<or> word = ''infinity'' then Some (if negative then NegInfinity else Infinity)
      else if word = ''nan'' then Some NaN
      else map_option (\<lambda>q. f64_of_rat (if negative then - q else q)) (parse_decimal r))"

text \<open>\<open>f64::max\<close> prefers a number to NaN.\<close>

fun f64_le :: "f64 \<Rightarrow> f64 \<Rightarrow> bool" where
  "f64_le NaN _ = False"
| "f64_le _ NaN = False"
| "f64_le NegInfinity _ = True"
| "f64_le _ Infinity = True"
| "f64_le (Finite p) (Finite q) = (p \<le> q)"
| "f64_le _ _ = False"

definition f64_max :: "f64 \<Rightarrow> f64 \<Rightarrow> f64" where
  "f64_max a b = (if b = NaN then a else if a = NaN then b else if f64_le a b then b else a)"

lemma f64_of_rat_small [simp]: "- (2 ^ 100) < q \<Longrightarrow> q < 2 ^ 100 \<Longrightarrow> f64_of_rat q = Finite q"
  by (auto simp: f64_of_rat_def)

lemmas parse_f64_simps =
  parse_f64_def parse_decimal_def split_sign_def parse_exponent_def parse_digits_def digits_value_def
  scale10_def is_digit_def byte_in_def lower_def Let_def

lemma parse_f64_samples:
  "parse_f64 ''3311'' = Some (Finite 3311)"
  "parse_f64 ''1.01'' = Some (Finite (101 / 100))"
  "parse_f64 ''.5e1'' = Some (Finite 5)"
  "parse_f64 ''-Inf'' = Some NegInfinity"
  "parse_f64 ''.'' = None"
  "parse_f64 ''Wed'' = None"
  by (simp_all add: parse_f64_simps char_of_def bit_0)

end
