(* ===== verification/Inbound_Chat.thy ===== *)
theory Inbound_Chat
  imports Json_Probe Json_Value Gateway_Error Config_Model
begin

text \<open>
  The inbound request of a chat endpoint in whichever dialect it arrived (\<open>InboundChat\<close> of
  \<open>crates/router-server/src/proxy.rs\<close>) and the dialects of \<open>crates/router-providers/src/lib.rs\<close>. Parsing a
  body into a \<open>Value\<close> or into the two routing fields, and printing a \<open>Value\<close>, are functions of the crates
  \<open>serde\<close> and \<open>serde_json\<close> and are kept in a record of parameters. A result of \<open>None\<close> is a panic; the
  release profile aborts the process on one.
\<close>

section \<open>Dialects\<close>

datatype dialect = DOpenAi | DAnthropic | DGemini | DBedrock | CodexResponses

fun wire_dialect :: "provider_kind \<Rightarrow> dialect option" where
  "wire_dialect OpenAi = Some DOpenAi"
| "wire_dialect OpenAiCompat = Some DOpenAi"
| "wire_dialect Azure = Some DOpenAi"
| "wire_dialect Anthropic = Some DAnthropic"
| "wire_dialect Gemini = Some DGemini"
| "wire_dialect Vertex = Some DGemini"
| "wire_dialect Bedrock = Some DBedrock"
| "wire_dialect ClaudeSubscription = Some DAnthropic"
| "wire_dialect CodexSubscription = Some CodexResponses"

fun needs_rasterized_documents :: "dialect \<Rightarrow> bool" where
  "needs_rasterized_documents CodexResponses = True"
| "needs_rasterized_documents _ = False"

section \<open>Inbound requests\<close>

datatype inbound_chat =
    OpenAiChat string "(nat \<times> nat) option" string bool
  | AnthropicChat json string bool
  | GeminiChat json string bool

record serde =
  from_slice :: "string \<Rightarrow> string + json"
  from_slice_minimal :: "string \<Rightarrow> string + (string \<times> bool)"
  to_vec :: "json \<Rightarrow> string"
  str_unquote :: "string \<Rightarrow> string option"
  str_quote :: "string \<Rightarrow> string"

definition invalid_body :: "string \<Rightarrow> string \<Rightarrow> gateway_error" where
  "invalid_body what err = ge_new InvalidRequest (what @ err)"

definition from_openai :: "serde \<Rightarrow> string \<Rightarrow> gateway_error + inbound_chat" where
  "from_openai sd body =
     (case probe (str_unquote sd) body of
        Some p \<Rightarrow>
          Inr (OpenAiChat body (Some (pb_model_span p)) (pb_model p) (pb_stream p = Some True))
      | None \<Rightarrow>
          (case from_slice_minimal sd body of
             Inl err \<Rightarrow> Inl (invalid_body ''request body is not a valid request object: '' err)
           | Inr (model, stream) \<Rightarrow> Inr (OpenAiChat body None model stream)))"

definition from_anthropic :: "serde \<Rightarrow> string \<Rightarrow> gateway_error + inbound_chat" where
  "from_anthropic sd body =
     (case from_slice sd body of
        Inl err \<Rightarrow> Inl (invalid_body ''invalid request body: '' err)
      | Inr v \<Rightarrow>
          (case js_as_str (js_index v ''model'') of
             None \<Rightarrow> Inl (ge_with_param (ge_new InvalidRequest ''`model` is required'') ''model'')
           | Some model \<Rightarrow> Inr (AnthropicChat v model (js_index v ''stream'' = JBool True))))"

definition from_gemini :: "serde \<Rightarrow> string \<Rightarrow> string \<Rightarrow> bool \<Rightarrow> gateway_error + inbound_chat" where
  "from_gemini sd body model stream =
     (case from_slice sd body of
        Inl err \<Rightarrow> Inl (invalid_body ''invalid request body: '' err)
      | Inr v \<Rightarrow> Inr (GeminiChat v model stream))"

fun ib_dialect :: "inbound_chat \<Rightarrow> dialect" where
  "ib_dialect (OpenAiChat _ _ _ _) = DOpenAi"
| "ib_dialect (AnthropicChat _ _ _) = DAnthropic"
| "ib_dialect (GeminiChat _ _ _) = DGemini"

fun ib_model :: "inbound_chat \<Rightarrow> string" where
  "ib_model (OpenAiChat _ _ model _) = model"
| "ib_model (AnthropicChat _ model _) = model"
| "ib_model (GeminiChat _ model _) = model"

fun ib_stream :: "inbound_chat \<Rightarrow> bool" where
  "ib_stream (OpenAiChat _ _ _ stream) = stream"
| "ib_stream (AnthropicChat _ _ stream) = stream"
| "ib_stream (GeminiChat _ _ stream) = stream"

text \<open>\<open>v["model"] = ...\<close>: null becomes an object, anything else that is not one panics.\<close>

definition set_model :: "json \<Rightarrow> string \<Rightarrow> json option" where
  "set_model v model =
     (case v of
        JObject ms \<Rightarrow> Some (JObject ((''model'', JString model) # filter (\<lambda>m. fst m \<noteq> ''model'') ms))
      | JNull \<Rightarrow> Some (JObject [(''model'', JString model)])
      | _ \<Rightarrow> None)"

definition rewrite_model_value :: "serde \<Rightarrow> string \<Rightarrow> string \<Rightarrow> string option" where
  "rewrite_model_value sd body model =
     (case from_slice sd body of
        Inl _ \<Rightarrow> None
      | Inr v \<Rightarrow> map_option (to_vec sd) (set_model v model))"

fun passthrough_body :: "serde \<Rightarrow> inbound_chat \<Rightarrow> string \<Rightarrow> string option" where
  "passthrough_body sd (OpenAiChat body place _ _) upstream_model =
     (case place of
        Some place \<Rightarrow> Some (splice_model (str_quote sd) body place upstream_model)
      | None \<Rightarrow> rewrite_model_value sd body upstream_model)"
| "passthrough_body sd (AnthropicChat v _ _) upstream_model =
     map_option (to_vec sd) (set_model v upstream_model)"
| "passthrough_body sd (GeminiChat v _ _) upstream_model = Some (to_vec sd v)"

section \<open>Properties\<close>

text \<open>What it means for a forwarded body to carry a model.\<close>

definition carries_model :: "serde \<Rightarrow> inbound_chat \<Rightarrow> string \<Rightarrow> string \<Rightarrow> bool" where
  "carries_model sd ib m out \<longleftrightarrow>
     (case ib of
        OpenAiChat body place _ stream \<Rightarrow>
          (\<exists>place'. from_openai sd out = Inr (OpenAiChat out (Some place') m stream))
      | AnthropicChat v _ stream \<Rightarrow>
          (\<exists>v'. out = to_vec sd v' \<and> js_index v' ''model'' = JString m
             \<and> (\<forall>key. key \<noteq> ''model'' \<longrightarrow> js_get v' key = js_get v key))
      | GeminiChat v _ _ \<Rightarrow> out = to_vec sd v)"

lemma map_of_filter_other: "key \<noteq> k \<Longrightarrow> map_of (filter (\<lambda>m. fst m \<noteq> k) ms) key = map_of ms key"
  by (induction ms) auto

lemma from_anthropic_carries:
  assumes "from_anthropic sd body = Inr ib"
  shows "\<exists>out. passthrough_body sd ib m = Some out \<and> carries_model sd ib m out"
proof -
  obtain v model where v: "ib = AnthropicChat v model (js_index v ''stream'' = JBool True)"
    "js_as_str (js_index v ''model'') = Some model"
    using assms by (auto simp: from_anthropic_def split: sum.splits option.splits)
  then obtain ms where ms: "v = JObject ms" by (cases v) (auto simp: js_index_def)
  let ?v' = "JObject ((''model'', JString m) # filter (\<lambda>m. fst m \<noteq> ''model'') ms)"
  have "js_index ?v' ''model'' = JString m" "\<forall>key. key \<noteq> ''model'' \<longrightarrow> js_get ?v' key = js_get v key"
    by (simp_all add: ms js_index_def map_of_filter_other)
  then show ?thesis
    by (auto simp: v(1) ms set_model_def carries_model_def intro!: exI [of _ ?v'])
qed

lemma from_openai_carries:
  assumes "from_openai sd body = Inr ib" "probe (str_unquote sd) body \<noteq> None"
    and "is_token (str_quote sd m)" "str_unquote sd (str_quote sd m) = Some m"
  shows "\<exists>out. passthrough_body sd ib m = Some out \<and> carries_model sd ib m out"
proof -
  obtain p where p: "probe (str_unquote sd) body = Some p" using assms(2) by auto
  obtain vs ve where place: "pb_model_span p = (vs, ve)" by (cases "pb_model_span p")
  note reread = splice_reads_back(1) [where quote = "str_quote sd", OF p assms(3, 4) refl place]
  have ib: "ib = OpenAiChat body (Some (pb_model_span p)) (pb_model p) (pb_stream p = Some True)"
    using assms(1) p by (simp add: from_openai_def)
  show ?thesis
    by (simp add: ib carries_model_def from_openai_def reread)
qed


definition plain_serde :: serde where
  "plain_serde =
     \<lparr>from_slice = \<lambda>_. Inl ''unused'', from_slice_minimal = \<lambda>_. Inl ''unused'', to_vec = \<lambda>_. [],
      str_unquote = plain_unquote, str_quote = plain_quote\<rparr>"

abbreviation sample_chat :: inbound_chat where
  "sample_chat \<equiv> OpenAiChat sample_body (Some (19, 25)) ''fast'' True"


text \<open>
  A body that is an array: the probe declines it, and the derived deserializer of the two fields takes a
  sequence of them. The model cannot then be set on the array, and the process is gone.
\<close>

theorem an_array_body_aborts_the_process:
  assumes "body = CHR ''['' # rest" "from_slice_minimal sd body = Inr (model, stream)"
    and "from_slice sd body = Inr (JArray vs)"
  shows "from_openai sd body = Inr (OpenAiChat body None model stream)"
    and "passthrough_body sd (OpenAiChat body None model stream) upstream_model = None"
proof -
  have "probe unquote body = None" for unquote
    by (simp add: probe_def assms(1) ws_def is_ws_def)
  with assms show "from_openai sd body = Inr (OpenAiChat body None model stream)"
    by (simp add: from_openai_def)
  show "passthrough_body sd (OpenAiChat body None model stream) upstream_model = None"
    using assms(3) by (simp add: rewrite_model_value_def set_model_def)
qed

end
