(* ===== verification/Quota.thy ===== *)
theory Quota
  imports Json_Value
begin

text \<open>
  How long an exhausted subscription seat stays benched (\<open>crates/router-core/src/quota.rs\<close>). A \<open>Duration\<close>
  is a number of nanoseconds; the conversion from a float rounds to the nearest and panics beyond
  \<open>2^64\<close> seconds, so a reader that converts returns an option whose outer \<open>None\<close> is the panic.
\<close>

type_synonym duration = nat

section \<open>Durations\<close>

definition from_secs :: "nat \<Rightarrow> duration" where
  "from_secs s = s * 10 ^ 9"

definition as_millis :: "duration \<Rightarrow> nat" where
  "as_millis d = d div 10 ^ 6"

definition as_secs_f64 :: "duration \<Rightarrow> rat" where
  "as_secs_f64 d = of_nat d / 10 ^ 9"

text \<open>To the nearest integer, ties to even.\<close>

definition round_half_even :: "rat \<Rightarrow> int" where
  "round_half_even q =
     (let lo = floor q; d = q - of_int lo in
      if d < 1 / 2 then lo else if 1 / 2 < d then lo + 1 else if even lo then lo else lo + 1)"

definition from_secs_f64 :: "rat \<Rightarrow> duration option" where
  "from_secs_f64 q =
     (if q < 0 then None
      else let n = nat (round_half_even (q * 10 ^ 9)) in if n < 2 ^ 64 * 10 ^ 9 then Some n else None)"

definition mul_f64 :: "duration \<Rightarrow> rat \<Rightarrow> duration option" where
  "mul_f64 d q = from_secs_f64 (q * as_secs_f64 d)"

section \<open>The length of a bench\<close>

definition MAX_BENCH :: duration where "MAX_BENCH = from_secs (24 * 60 * 60)"
definition MIN_BENCH :: duration where "MIN_BENCH = from_secs 1"
definition JITTER_RATIO :: rat where "JITTER_RATIO = 1 / 10"

definition clamp :: "duration \<Rightarrow> duration" where
  "clamp w = max MIN_BENCH (min MAX_BENCH w)"

definition bench_for :: "duration \<Rightarrow> f64 \<Rightarrow> duration option" where
  "bench_for w jitter_sample =
     (let base = clamp w;
          sample = (case jitter_sample of Finite q \<Rightarrow> max 0 (min 1 q) | _ \<Rightarrow> 0)
      in Option.bind (mul_f64 base (1 + sample * JITTER_RATIO)) (\<lambda>padded.
         Option.bind (mul_f64 MAX_BENCH (1 + JITTER_RATIO)) (\<lambda>most.
           Some (min (max padded base) most))))"

section \<open>The reported window\<close>

definition retry_after_header :: "string \<Rightarrow> duration option option" where
  "retry_after_header value =
     (case parse_f64 (trim value) of
        Some (Finite secs) \<Rightarrow> map_option Some (from_secs_f64 (max secs 0))
      | _ \<Rightarrow> Some None)"

definition RELATIVE_KEYS :: "string list" where
  "RELATIVE_KEYS = [''resets_in_seconds'', ''retry_after_seconds'', ''retry_after'']"

definition ABSOLUTE_KEYS :: "string list" where
  "ABSOLUTE_KEYS = [''resets_at'', ''reset_at'']"

definition finite_number :: "json \<Rightarrow> rat option" where
  "finite_number v =
     (case v of
        JInt n \<Rightarrow> Some (of_int n)
      | JFloat q \<Rightarrow> Some q
      | JString s \<Rightarrow> (case parse_f64 (trim s) of Some (Finite q) \<Rightarrow> Some q | _ \<Rightarrow> None)
      | _ \<Rightarrow> None)"

text \<open>The first of the keys that holds a number, in a scope.\<close>

definition first_number :: "json \<Rightarrow> string list \<Rightarrow> rat option" where
  "first_number scope keys =
     (case List.map_filter (\<lambda>key. Option.bind (js_get scope key) finite_number) keys of
        [] \<Rightarrow> None
      | q # _ \<Rightarrow> Some q)"

definition scope_seconds :: "json \<Rightarrow> u64 \<Rightarrow> rat option" where
  "scope_seconds scope now_epoch_secs =
     (case first_number scope RELATIVE_KEYS of
        Some secs \<Rightarrow> Some (max secs 0)
      | None \<Rightarrow>
          map_option (\<lambda>moment. max (moment - of_nat (unat now_epoch_secs)) 0) (first_number scope ABSOLUTE_KEYS))"

definition retry_after_body :: "json \<Rightarrow> u64 \<Rightarrow> duration option option" where
  "retry_after_body body now_epoch_secs =
     (case scope_seconds body now_epoch_secs of
        Some secs \<Rightarrow> map_option Some (from_secs_f64 secs)
      | None \<Rightarrow>
          (case scope_seconds (js_index body ''error'') now_epoch_secs of
             Some secs \<Rightarrow> map_option Some (from_secs_f64 secs)
           | None \<Rightarrow> Some None))"

section \<open>The windows of a response\<close>

record window =
  wi_utilization :: f64
  wi_resets_in :: "duration option"
  wi_length :: "duration option"
  wi_rejected :: bool

record quota =
  qu_primary :: "window option"
  qu_secondary :: "window option"

definition qu_is_empty :: "quota \<Rightarrow> bool" where
  "qu_is_empty q \<longleftrightarrow> qu_primary q = None \<and> qu_secondary q = None"

definition peak_utilization :: "quota \<Rightarrow> f64 option" where
  "peak_utilization q =
     foldl (\<lambda>acc u. Some (case acc of None \<Rightarrow> u | Some a \<Rightarrow> f64_max a u)) None
       (map wi_utilization (List.map_filter (\<lambda>w. w) [qu_primary q, qu_secondary q]))"

type_synonym headers = "string \<Rightarrow> string option"

definition anthropic_window :: "headers \<Rightarrow> u64 \<Rightarrow> string \<Rightarrow> duration \<Rightarrow> window option" where
  "anthropic_window header now_epoch_secs prefix len =
     (let name = (\<lambda>suffix. ''anthropic-ratelimit-unified-'' @ prefix @ suffix) in
      Option.bind (header (name ''-utilization'')) (\<lambda>text.
      Option.bind (parse_f64 (trim text)) (\<lambda>utilization.
        Some
          \<lparr>wi_utilization = utilization,
           wi_resets_in =
             map_option (\<lambda>moment. from_secs (unat (u64_saturating_sub (word_of_int moment) now_epoch_secs)))
               (Option.bind (header (name ''-reset'')) (\<lambda>v. parse_unsigned 64 (trim v))),
           wi_length = Some len,
           wi_rejected =
             (case header (name ''-status'') of None \<Rightarrow> False | Some s \<Rightarrow> lower (trim s) = ''rejected'')\<rparr>)))"

definition anthropic_quota :: "headers \<Rightarrow> u64 \<Rightarrow> quota" where
  "anthropic_quota header now_epoch_secs =
     \<lparr>qu_primary = anthropic_window header now_epoch_secs ''5h'' (from_secs (5 * 3600)),
      qu_secondary = anthropic_window header now_epoch_secs ''7d'' (from_secs (7 * 24 * 3600))\<rparr>"

definition non_empty :: "string \<Rightarrow> string option" where
  "non_empty value = (let trimmed = trim value in if trimmed = [] then None else Some trimmed)"

fun f64_div100 :: "f64 \<Rightarrow> f64" where
  "f64_div100 (Finite q) = Finite (q / 100)"
| "f64_div100 x = x"

definition codex_window :: "headers \<Rightarrow> string \<Rightarrow> window option" where
  "codex_window header prefix =
     (let read = (\<lambda>suffix. Option.bind (header (''x-codex-'' @ prefix @ suffix)) non_empty) in
      Option.bind (read ''-used-percent'') (\<lambda>text.
      Option.bind (parse_f64 text) (\<lambda>used.
        Some
          \<lparr>wi_utilization = f64_div100 used,
           wi_resets_in =
             map_option (\<lambda>s. from_secs (nat s))
               (Option.bind (read ''-reset-after-seconds'') (parse_unsigned 64)),
           wi_length =
             Option.bind (Option.bind (read ''-window-minutes'') (parse_unsigned 64)) (\<lambda>m.
               if 0 < m then Some (from_secs (unat (word_of_int m * 60 :: u64))) else None),
           wi_rejected = f64_le (Finite 100) used\<rparr>)))"

definition codex_quota :: "headers \<Rightarrow> quota" where
  "codex_quota header =
     \<lparr>qu_primary = codex_window header ''primary'', qu_secondary = codex_window header ''secondary''\<rparr>"

section \<open>Lemmas\<close>

lemma round_half_even_ge: "of_int n \<le> q \<Longrightarrow> n \<le> round_half_even q"
  by (auto simp: round_half_even_def Let_def dest: le_floor_iff [THEN iffD2])

lemma round_half_even_le: "q \<le> of_int n \<Longrightarrow> round_half_even q \<le> n"
proof -
  assume le: "q \<le> of_int n"
  show ?thesis
  proof (cases "floor q = n")
    case True
    with le have "q = of_int n" by (metis floor_correct order_antisym)
    then show ?thesis by (simp add: round_half_even_def)
  next
    case False
    with le have "floor q < n" by (metis floor_mono floor_of_int order_le_less)
    then show ?thesis by (auto simp: round_half_even_def Let_def)
  qed
qed

lemma from_secs_f64_bounds:
  assumes "of_nat lo \<le> q * 10 ^ 9" "q * 10 ^ 9 \<le> of_nat hi" "hi < 2 ^ 64 * 10 ^ 9"
  shows "\<exists>d. from_secs_f64 q = Some d \<and> lo \<le> d \<and> d \<le> hi"
proof -
  have "0 \<le> q * 10 ^ 9" using assms(1) of_nat_0_le_iff order_trans by blast
  then have q: "0 \<le> q" by (simp add: zero_le_mult_iff)
  have "int lo \<le> round_half_even (q * 10 ^ 9)" "round_half_even (q * 10 ^ 9) \<le> int hi"
    using assms(1, 2) by (auto intro: round_half_even_ge round_half_even_le)
  then have "lo \<le> nat (round_half_even (q * 10 ^ 9))" "nat (round_half_even (q * 10 ^ 9)) \<le> hi"
    by linarith+
  with q assms(3) show ?thesis by (auto simp: from_secs_f64_def Let_def)
qed

lemma mul_f64_bounds:
  assumes "1 \<le> q" "q * of_nat d \<le> of_nat hi" "hi < 2 ^ 64 * 10 ^ 9"
  shows "\<exists>r. mul_f64 d q = Some r \<and> d \<le> r \<and> r \<le> hi"
proof -
  have eq: "q * as_secs_f64 d * 10 ^ 9 = q * of_nat d" by (simp add: as_secs_f64_def)
  have "of_nat d \<le> q * of_nat d" using assms(1) mult_right_mono [of 1 q "of_nat d"] by simp
  with assms show ?thesis
    unfolding mul_f64_def by (intro from_secs_f64_bounds) (simp_all only: eq)
qed

lemma bench_for_bounds:
  "\<exists>d. bench_for w sample = Some d \<and> clamp w \<le> d \<and> from_secs 1 \<le> d \<and> 10 * d \<le> 11 * from_secs 86400"
proof -
  define q where "q = (case sample of Finite q \<Rightarrow> max 0 (min 1 q) | _ \<Rightarrow> 0)"
  have q: "0 \<le> q" "q \<le> 1" by (auto simp: q_def split: f64.splits)
  define top where "top = from_secs 95040"
  have MAX: "MAX_BENCH = from_secs 86400" by (simp add: MAX_BENCH_def)
  have clamp: "clamp w \<le> MAX_BENCH" "from_secs 1 \<le> clamp w" "MAX_BENCH \<le> top"
    by (auto simp: clamp_def MAX_BENCH_def MIN_BENCH_def from_secs_def top_def)
  have big: "top < 2 ^ 64 * 10 ^ 9" by (simp add: top_def from_secs_def)
  have "(1 + q * JITTER_RATIO) * of_nat (clamp w) \<le> 11 / 10 * of_nat MAX_BENCH"
    using q clamp(1) by (intro mult_mono) (auto simp: JITTER_RATIO_def)
  also have "\<dots> = of_nat top" by (simp add: MAX top_def from_secs_def)
  finally obtain padded where padded: "mul_f64 (clamp w) (1 + q * JITTER_RATIO) = Some padded"
    "clamp w \<le> padded" "padded \<le> top"
    using mul_f64_bounds [of "1 + q * JITTER_RATIO" "clamp w" top] q(1) big by (auto simp: JITTER_RATIO_def)
  obtain most where most: "mul_f64 MAX_BENCH (1 + JITTER_RATIO) = Some most" "MAX_BENCH \<le> most" "most \<le> top"
    using mul_f64_bounds [of "1 + JITTER_RATIO" MAX_BENCH top] big
    by (auto simp: JITTER_RATIO_def MAX top_def from_secs_def)
  have "bench_for w sample = Some (min (max padded (clamp w)) most)"
    using padded(1) most(1) by (simp add: bench_for_def q_def Let_def)
  then show ?thesis
    using padded(2, 3) most(2, 3) clamp by (auto simp: top_def from_secs_def)
qed

text \<open>
  Whatever window a provider reports and whatever the random sample, NaN included, a bench is at least
  the reported window cut to between a second and a day, and at most a tenth longer than a day.
\<close>

theorem a_bench_is_bounded:
  "\<exists>d. bench_for w sample = Some d \<and> clamp w \<le> d \<and> from_secs 1 \<le> d \<and> 10 * d \<le> 11 * from_secs 86400"
  by (rule bench_for_bounds)

text \<open>
  A window nested in the \<open>error\<close> object of an error body is found: where the body itself names none, the
  seconds the error object carries are the wait.
\<close>

theorem a_nested_window_is_found:
  assumes "scope_seconds (JObject ms) now = None" "map_of ms ''error'' = Some (JObject es)"
    and "map_of es ''resets_in_seconds'' = Some (JInt n)" "0 \<le> n" "n < 2 ^ 64"
  shows "retry_after_body (JObject ms) now = Some (Some (from_secs (nat n)))"
proof -
  have seconds: "scope_seconds (JObject es) now = Some (of_int n)"
    using assms(3, 4)
    by (simp add: scope_seconds_def first_number_def RELATIVE_KEYS_def List.map_filter_simps finite_number_def max_def)
  have "of_int n * 10 ^ 9 = (of_int (n * 10 ^ 9) :: rat)" by simp
  then have "round_half_even (of_int n * 10 ^ 9) = n * 10 ^ 9"
    by (simp only: round_half_even_def floor_of_int Let_def) simp
  moreover have "nat (n * 10 ^ 9) < 2 ^ 64 * 10 ^ 9" using assms(4, 5) by (simp add: nat_less_iff)
  ultimately have "from_secs_f64 (of_int n) = Some (from_secs (nat n))"
    using assms(4) by (simp add: from_secs_f64_def from_secs_def nat_mult_distrib)
  with assms(1, 2) seconds show ?thesis
    by (simp add: retry_after_body_def js_index_def)
qed

text \<open>
  A number of seconds that no duration holds is refused by a panic and not by a \<open>None\<close>: \<open>1e20\<close> is finite,
  and the conversion panics.
\<close>

theorem retry_after_panics_on_a_large_number:
  "retry_after_header ''1e20'' = None"
  "retry_after_body (JObject [(''retry_after'', JFloat (10 ^ 20))]) now = None"
proof -
  have none: "from_secs_f64 (10 ^ 20) = None"
    by (simp add: from_secs_f64_def round_half_even_def)
  have "parse_f64 ''1e20'' = Some (Finite (10 ^ 20))" by (simp add: parse_f64_simps)
  moreover have "trim ''1e20'' = ''1e20''" by code_simp
  ultimately show "retry_after_header ''1e20'' = None"
    using none by (simp add: retry_after_header_def)
  show "retry_after_body (JObject [(''retry_after'', JFloat (10 ^ 20))]) now = None"
    using none
    by (simp add: retry_after_body_def scope_seconds_def first_number_def RELATIVE_KEYS_def
        List.map_filter_simps finite_number_def max_def)
qed

end
