(* ===== verification/Attempt.thy ===== *)
theory Attempt
  imports Routing_Table Inbound_Chat Quota
begin

text \<open>
  One upstream try of the dispatch pipeline (\<open>attempt\<close>, \<open>translated_response\<close> and the benches of
  \<open>crates/router-server/src/proxy.rs\<close>). The live state of the providers a request can reach is a house:
  the runtime state of each provider of the table the request loaded, and the free permits. What the
  request cannot decide is in a world of parameters, indexed by the target and the attempt: the clock,
  the random draws, what an upstream answers, whether a credential could be renewed, and what the
  other requests do to the house while this one waits. The translators of the adapters and \<open>serde_json\<close>
  are parameters too. A result of \<open>None\<close> is a panic, which aborts the process. Metrics and the checks the
  console shows are not modelled.
\<close>

section \<open>The house and the world\<close>

record house =
  hs_provider :: "string \<Rightarrow> provider_runtime"
  hs_slots :: slots

definition live :: "house \<Rightarrow> resolved_route \<Rightarrow> provider_runtime" where
  "live h route = hs_provider h (pr_name (rr_provider route))"

definition put :: "house \<Rightarrow> resolved_route \<Rightarrow> provider_runtime \<Rightarrow> house" where
  "put h route p = h\<lparr>hs_provider := (hs_provider h)(pr_name (rr_provider route) := p)\<rparr>"

text \<open>The breaker an attempt reports to: the key's, or the provider's.\<close>

definition set_breaker :: "provider_runtime \<Rightarrow> nat option \<Rightarrow> breaker \<Rightarrow> provider_runtime" where
  "set_breaker p key b =
     (case key of
        None \<Rightarrow> p\<lparr>pr_breaker := b\<rparr>
      | Some i \<Rightarrow> pr_set p i ((pr_keys p ! i)\<lparr>kr_breaker := b\<rparr>))"

definition on_breaker :: "(breaker \<Rightarrow> breaker) \<Rightarrow> house \<Rightarrow> resolved_route \<Rightarrow> nat option \<Rightarrow> house" where
  "on_breaker f h route key =
     put h route (set_breaker (live h route) key (f (breaker_for (live h route) key)))"

definition release_permits :: "house \<Rightarrow> nat list \<Rightarrow> house" where
  "release_permits h permits =
     h\<lparr>hs_slots := foldl (\<lambda>slots a. release_slot slots (Some a)) (hs_slots h) permits\<rparr>"

datatype moment = Budgeting | Admitting | Recording | Benching | Restoring | Refusing | Holding
datatype await = Building | Refreshing | Sending | Renewing | Reading

record upstream_request =
  rq_provider :: string
  rq_key :: "nat option"
  rq_path :: string
  rq_body :: string

record upstream_response =
  ur_status :: nat
  ur_headers :: headers
  ur_body :: "string option"

record world =
  wd_clock :: "nat \<Rightarrow> nat \<Rightarrow> moment \<Rightarrow> u64"
  wd_epoch_secs :: "nat \<Rightarrow> nat \<Rightarrow> u64"
  wd_draw :: "nat \<Rightarrow> nat \<Rightarrow> nat \<Rightarrow> nat \<Rightarrow> nat \<Rightarrow> nat"
  wd_jitter :: "nat \<Rightarrow> nat \<Rightarrow> f64"
  wd_meanwhile :: "nat \<Rightarrow> nat \<Rightarrow> await \<Rightarrow> house \<Rightarrow> house"
  wd_send :: "nat \<Rightarrow> nat \<Rightarrow> upstream_request \<Rightarrow> gateway_error + upstream_response"
  wd_renewed :: "nat \<Rightarrow> nat \<Rightarrow> bool option"

record stream_failure =
  sf_code :: string
  sf_message :: string

record outbound =
  ob_body :: string
  ob_path :: string
  ob_emulated :: bool
  ob_reasoning_effort :: "string option"

record adapters =
  ad_serde :: serde
  ad_status_text :: "nat \<Rightarrow> string"
  ad_outbound :: "dialect \<Rightarrow> inbound_chat \<Rightarrow> resolved_route \<Rightarrow> gateway_error + outbound"
  ad_request :: "resolved_route \<Rightarrow> dialect \<Rightarrow> string \<Rightarrow> nat option \<Rightarrow> string \<Rightarrow> gateway_error + upstream_request"
  ad_aggregate :: "string \<Rightarrow> string \<Rightarrow> stream_failure option"
  ad_to_openai :: "dialect \<Rightarrow> string \<Rightarrow> string \<Rightarrow> bool \<Rightarrow> gateway_error + json"

section \<open>Answers\<close>

datatype reply = Forwarded "string option" | ErrorReply gateway_error | Answer json | EventStream

record response =
  rs_status :: nat
  rs_reply :: reply
  rs_permits :: "nat list"
  rs_retry_after :: bool
  rs_provider :: "string option"
  rs_model :: "string option"
  rs_attempts :: "u32 option"

definition plain_response :: "nat \<Rightarrow> reply \<Rightarrow> nat list \<Rightarrow> response" where
  "plain_response status reply permits =
     \<lparr>rs_status = status, rs_reply = reply, rs_permits = permits, rs_retry_after = False,
      rs_provider = None, rs_model = None, rs_attempts = None\<rparr>"

definition error_response_for :: "gateway_error \<Rightarrow> response" where
  "error_response_for err =
     (plain_response (http_status (ge_class err)) (ErrorReply err) [])
       \<lparr>rs_retry_after := ge_class err = TooManyRequests \<or> ge_class err = NoCapacity,
        rs_provider := ge_provider err\<rparr>"

definition forward_response :: "upstream_response \<Rightarrow> nat list \<Rightarrow> response" where
  "forward_response ur permits = plain_response (ur_status ur) (Forwarded (ur_body ur)) permits"

definition finalize :: "response \<Rightarrow> resolved_route \<Rightarrow> u32 \<Rightarrow> response" where
  "finalize r route attempts =
     r\<lparr>rs_provider := Some (pr_name (rr_provider route)), rs_model := Some (rr_upstream_model route),
       rs_attempts := Some attempts\<rparr>"

definition is_server_error :: "nat \<Rightarrow> bool" where
  "is_server_error status \<longleftrightarrow> 500 \<le> status \<and> status < 600"

definition is_success :: "nat \<Rightarrow> bool" where
  "is_success status \<longleftrightarrow> 200 \<le> status \<and> status < 300"

text \<open>The whole body, or an error when it is longer than \<open>cap\<close> or fails on the way.\<close>

definition collect_capped :: "string option \<Rightarrow> nat \<Rightarrow> gateway_error + string" where
  "collect_capped body cap =
     (case body of
        Some b \<Rightarrow>
          if length b \<le> cap then Inr b
          else Inl (ge_new UpstreamError ''upstream response exceeded the translation size cap'')
      | None \<Rightarrow> Inl (ge_new UpstreamError ''upstream response exceeded the translation size cap''))"

definition MAX_TRANSLATED_RESPONSE :: nat where
  "MAX_TRANSLATED_RESPONSE = 64 * 1024 * 1024"

definition extract_upstream_error :: "serde \<Rightarrow> string \<Rightarrow> string option" where
  "extract_upstream_error sd body =
     (case from_slice sd body of
        Inl _ \<Rightarrow> None
      | Inr v \<Rightarrow>
          (case List.map_filter js_as_str
              [js_index (js_index v ''error'') ''message'', js_index v ''message'', js_index v ''detail'',
               js_index v ''error''] of
             [] \<Rightarrow> None
           | s # _ \<Rightarrow> Some s))"

text \<open>How a refusal of the upstream is classed when it is rendered in the caller's dialect.\<close>

definition refusal_class :: "nat \<Rightarrow> error_class" where
  "refusal_class status =
     (if status \<in> {400, 404, 413, 422} then InvalidRequest
      else if status \<in> {401, 403} then UpstreamError
      else if status = 429 then TooManyRequests
      else UpstreamError)"

section \<open>Refusals inside a stream\<close>

definition from_error_object :: "json \<Rightarrow> string \<Rightarrow> stream_failure" where
  "from_error_object err fallback_code =
     (let filled = (\<lambda>s. case s of Some [] \<Rightarrow> None | _ \<Rightarrow> s);
          code = (case js_as_str (js_index err ''code'') of
                    Some c \<Rightarrow> Some c
                  | None \<Rightarrow> js_as_str (js_index err ''type''))
      in \<lparr>sf_code = (case filled code of Some c \<Rightarrow> c | None \<Rightarrow> fallback_code),
          sf_message =
            (case filled (js_as_str (js_index err ''message'')) of
               Some m \<Rightarrow> m
             | None \<Rightarrow> ''the provider ended the stream without a response'')\<rparr>)"

definition sf_to_gateway_error :: "stream_failure \<Rightarrow> gateway_error" where
  "sf_to_gateway_error f =
     ge_new
       (if sf_code f \<in> {''server_is_overloaded'', ''service_unavailable_error'', ''overloaded''} then NoCapacity
        else if sf_code f \<in> {''rate_limit_exceeded'', ''rate_limit_error'', ''usage_limit_reached''}
        then TooManyRequests
        else UpstreamError)
       (sf_code f @ '': '' @ sf_message f)"

definition is_account_throttle :: "stream_failure \<Rightarrow> bool" where
  "is_account_throttle f \<longleftrightarrow>
     sf_code f \<in> {''server_is_overloaded'', ''service_unavailable_error'', ''overloaded'', ''server_error'',
       ''rate_limit_exceeded'', ''rate_limit_error'', ''usage_limit_reached''}"

section \<open>Benches\<close>

definition REFUSED_SEAT_BENCH :: duration where
  "REFUSED_SEAT_BENCH = from_secs 120"

definition bench_breaker :: "u64 \<Rightarrow> duration \<Rightarrow> breaker \<Rightarrow> breaker" where
  "bench_breaker now benched b = br_bench_until b (now + word_of_nat (as_millis benched))"

definition hold_out_refused_seat ::
    "u64 \<Rightarrow> f64 \<Rightarrow> stream_failure \<Rightarrow> house \<Rightarrow> resolved_route \<Rightarrow> nat option \<Rightarrow> house option" where
  "hold_out_refused_seat now jitter failure h route key =
     (let h = on_breaker (\<lambda>b. br_record_failure b now) h route key in
      if \<not> (is_subscription (pr_kind (rr_provider route)) \<and> is_account_throttle failure) then Some h
      else map_option (\<lambda>benched. on_breaker (bench_breaker now benched) h route key)
             (bench_for REFUSED_SEAT_BENCH jitter))"

text \<open>The window a \<open>429\<close> names: the header, or the quota view that is refusing.\<close>

definition rejected_window :: "window option \<Rightarrow> duration option" where
  "rejected_window w = Option.bind w (\<lambda>w. if wi_rejected w then wi_resets_in w else None)"

definition bench_window :: "provider_kind \<Rightarrow> headers \<Rightarrow> u64 \<Rightarrow> duration option option" where
  "bench_window kind header now_epoch =
     (let q = (if kind = ClaudeSubscription then anthropic_quota header now_epoch else codex_quota header);
          named = (case header ''retry-after'' of None \<Rightarrow> Some None | Some v \<Rightarrow> retry_after_header v)
      in map_option
           (\<lambda>w. case w of
              Some w \<Rightarrow> Some w
            | None \<Rightarrow>
                (case rejected_window (qu_primary q) of
                   Some w \<Rightarrow> Some w
                 | None \<Rightarrow> rejected_window (qu_secondary q)))
           named)"

definition bench_exhausted_seat ::
    "u64 \<Rightarrow> u64 \<Rightarrow> f64 \<Rightarrow> headers \<Rightarrow> nat \<Rightarrow> house \<Rightarrow> resolved_route \<Rightarrow> nat option \<Rightarrow> house option" where
  "bench_exhausted_seat now now_epoch jitter header status h route key =
     (if status \<noteq> 429 then Some h
      else
        (case bench_window (pr_kind (rr_provider route)) header now_epoch of
           None \<Rightarrow> None
         | Some None \<Rightarrow> Some h
         | Some (Some w) \<Rightarrow>
             map_option (\<lambda>benched. on_breaker (bench_breaker now benched) h route key) (bench_for w jitter)))"

section \<open>One attempt\<close>

datatype attempt_outcome = Serve response | Retry gateway_error

record translation_ctx =
  tc_passthrough :: bool
  tc_out_dialect :: dialect
  tc_stream :: bool
  tc_emulated :: bool

definition provider_error :: "resolved_route \<Rightarrow> error_class \<Rightarrow> string \<Rightarrow> gateway_error" where
  "provider_error route class message =
     ge_with_provider (ge_new class message) (pr_name (rr_provider route))"

definition translated_response ::
    "adapters \<Rightarrow> world \<Rightarrow> nat \<Rightarrow> nat \<Rightarrow> resolved_route \<Rightarrow> nat option \<Rightarrow> nat list \<Rightarrow> bool \<Rightarrow>
       translation_ctx \<Rightarrow> upstream_response \<Rightarrow> house \<Rightarrow> (house \<times> attempt_outcome) option" where
  "translated_response ad wd t a route key permits is_last ctx ur h =
     (if \<not> is_success (ur_status ur) then
        let h = wd_meanwhile wd t a Reading h;
            body = (case collect_capped (ur_body ur) (1024 * 1024) of Inl _ \<Rightarrow> [] | Inr b \<Rightarrow> b);
            message =
              (case extract_upstream_error (ad_serde ad) body of
                 Some m \<Rightarrow> m
               | None \<Rightarrow> ''provider `'' @ pr_name (rr_provider route) @ ''` returned ''
                           @ ad_status_text ad (ur_status ur));
            err = ge_with_upstream_status (provider_error route (refusal_class (ur_status ur)) message)
                    (ur_status ur)
        in Some (release_permits h permits, Serve ((error_response_for err)\<lparr>rs_status := ur_status ur\<rparr>))
      else if \<not> tc_stream ctx then
        let h = release_permits (wd_meanwhile wd t a Reading h) permits in
        (case collect_capped (ur_body ur) MAX_TRANSLATED_RESPONSE of
           Inl err \<Rightarrow> Some (h, Serve (error_response_for err))
         | Inr body \<Rightarrow>
             (case (if tc_out_dialect ctx = CodexResponses then ad_aggregate ad body (rr_upstream_model route)
                    else None) of
                Some failure \<Rightarrow>
                  Option.bind
                    (hold_out_refused_seat (wd_clock wd t a Refusing) (wd_jitter wd t a) failure h route key)
                    (\<lambda>h.
                      let err = ge_with_upstream_status
                            (ge_with_provider (sf_to_gateway_error failure) (pr_name (rr_provider route))) 200;
                          nobody_left =
                            (case key of
                               None \<Rightarrow> False
                             | Some i \<Rightarrow>
                                 ho_usable (pr_holding (live h route) (rr_upstream_model route)
                                   (kr_tenant (pr_keys (live h route) ! i)) (wd_clock wd t a Holding)) = 0)
                      in Some (h, if \<not> is_last \<and> \<not> nobody_left then Retry err
                                  else Serve (error_response_for err)))
              | None \<Rightarrow>
                  (case ad_to_openai ad (tc_out_dialect ctx) body (rr_upstream_model route) (tc_emulated ctx) of
                     Inl err \<Rightarrow> Some (h, Serve (error_response_for err))
                   | Inr v \<Rightarrow> Some (h, Serve (plain_response 200 (Answer v) [])))))
      else Some (h, Serve (plain_response 200 EventStream permits)))"

definition seat_auth_failure :: "resolved_route \<Rightarrow> nat \<Rightarrow> bool" where
  "seat_auth_failure route status \<longleftrightarrow>
     is_subscription (pr_kind (rr_provider route)) \<and> (status = 401 \<or> status = 403)"

definition retryable :: "route_plan \<Rightarrow> resolved_route \<Rightarrow> nat \<Rightarrow> bool" where
  "retryable plan route status \<longleftrightarrow>
     status = 429 \<and> Status429 \<in> set (rp_retry_on plan)
     \<or> is_server_error status \<and> Status5xx \<in> set (rp_retry_on plan)
     \<or> seat_auth_failure route status"

text \<open>Renewing the credential of a seat that answered \<open>401\<close>; \<open>None\<close> in the world is a key with nothing to renew.\<close>

definition renews :: "world \<Rightarrow> nat \<Rightarrow> nat \<Rightarrow> house \<Rightarrow> resolved_route \<Rightarrow> nat option \<Rightarrow> nat \<Rightarrow> bool option" where
  "renews wd t a h route key status =
     (if is_subscription (pr_kind (rr_provider route)) \<and> status = 401
         \<and> (case key of None \<Rightarrow> False | Some i \<Rightarrow> kr_source_path (pr_keys (live h route) ! i) \<noteq> None)
      then wd_renewed wd t a else None)"

text \<open>The verdict on the seat that its breaker records.\<close>

definition record_answer :: "u64 \<Rightarrow> resolved_route \<Rightarrow> nat \<Rightarrow> breaker \<Rightarrow> breaker" where
  "record_answer now route status b =
     (if is_server_error status \<or> status = 429 \<or> seat_auth_failure route status
      then br_record_failure b now else br_record_success b now)"

text \<open>After the verdict and the bench: renewal, retry, or the response.\<close>

definition after_answer ::
    "adapters \<Rightarrow> world \<Rightarrow> nat \<Rightarrow> nat \<Rightarrow> resolved_route \<Rightarrow> nat option \<Rightarrow> nat list \<Rightarrow> route_plan \<Rightarrow> bool \<Rightarrow>
       translation_ctx \<Rightarrow> upstream_response \<Rightarrow> house \<Rightarrow> (house \<times> attempt_outcome) option" where
  "after_answer ad wd t a route key permits plan is_last ctx ur h =
     (let status = ur_status ur;
          renewed = renews wd t a h route key status;
          h = (if renewed = None then h else wd_meanwhile wd t a Renewing h)
      in if renewed = Some True \<and> \<not> is_last then
           Some (release_permits h permits,
             Retry (provider_error route UpstreamError
               (''seat credential of provider `'' @ pr_name (rr_provider route)
                  @ ''` was renewed; retrying'')))
         else
           let h = (if renewed = Some True
                    then on_breaker (\<lambda>b. br_record_success b (wd_clock wd t a Restoring)) h route key
                    else h)
           in if retryable plan route status \<and> \<not> is_last then
                Some (release_permits h permits,
                  Retry (ge_with_upstream_status
                    (provider_error route UpstreamError
                      (''provider `'' @ pr_name (rr_provider route) @ ''` returned ''
                         @ ad_status_text ad status)) status))
              else if tc_passthrough ctx then Some (h, Serve (forward_response ur permits))
              else translated_response ad wd t a route key permits is_last ctx ur h)"

definition attempt ::
    "adapters \<Rightarrow> world \<Rightarrow> nat \<Rightarrow> nat \<Rightarrow> resolved_route \<Rightarrow> upstream_request \<Rightarrow> nat option \<Rightarrow> nat list \<Rightarrow>
       route_plan \<Rightarrow> bool \<Rightarrow> translation_ctx \<Rightarrow> house \<Rightarrow> (house \<times> attempt_outcome) option" where
  "attempt ad wd t a route rq key permits plan is_last ctx h =
     (let result = wd_send wd t a rq; h = wd_meanwhile wd t a Sending h; now = wd_clock wd t a Recording in
      case result of
        Inl err \<Rightarrow>
          Some (release_permits (on_breaker (\<lambda>b. br_record_failure b now) h route key) permits, Retry err)
      | Inr ur \<Rightarrow>
          let h = on_breaker (record_answer now route (ur_status ur)) h route key
          in Option.bind
               (if is_subscription (pr_kind (rr_provider route))
                then bench_exhausted_seat (wd_clock wd t a Benching) (wd_epoch_secs wd t a) (wd_jitter wd t a)
                       (ur_headers ur) (ur_status ur) h route key
                else Some h)
               (after_answer ad wd t a route key permits plan is_last ctx ur))"

text \<open>What happens when a served stream ends: the translator's verdict on the seat, then the permits.\<close>

definition stream_ends ::
    "u64 \<Rightarrow> f64 \<Rightarrow> stream_failure option \<Rightarrow> house \<Rightarrow> resolved_route \<Rightarrow> nat option \<Rightarrow> nat list \<Rightarrow> house option" where
  "stream_ends now jitter failure h route key permits =
     map_option (\<lambda>h. release_permits h permits)
       (case failure of
          None \<Rightarrow> Some h
        | Some f \<Rightarrow> hold_out_refused_seat now jitter f h route key)"

end
