(* ===== verification/Dispatch.thy ===== *)
theory Dispatch
  imports Attempt Virtual_Keys
begin

text \<open>
  The dispatch pipeline of \<open>crates/router-server/src/proxy.rs\<close>: the gate of a virtual key, the walk over
  the planned targets and the attempts against each, for chat requests (\<open>run_chat\<close>) and for the relay
  endpoints (\<open>run_relay\<close>). A walk records what it sent. The house is that of the table the request loaded
  when it arrived; a reload puts another table in its place and leaves this one to the requests that hold it.
\<close>

section \<open>The gate\<close>

definition vk_gate ::
    "spend_store \<Rightarrow> vk_runtime \<Rightarrow> string \<Rightarrow> route_plan \<Rightarrow> u64 \<Rightarrow> u64 \<Rightarrow> vk_runtime \<times> (gateway_error + unit)" where
  "vk_gate store vk requested plan unix_ms mono_ms =
     (let resolved =
        (case rp_targets plan of
           [] \<Rightarrow> None
         | r # _ \<Rightarrow> Some (pr_name (rr_provider r) @ ''/'' @ rr_upstream_model r));
          name = vd_name (vk_def vk)
      in if \<not> vk_allows_model vk requested resolved then
           (vk, Inl (ge_with_param (ge_new Permission
              (''virtual key `'' @ name @ ''` does not allow model `'' @ requested @ ''`'')) ''model''))
         else
           (case vk_admit store vk mono_ms (vk_period_ordinal vk unix_ms) of
              (vk, Inr _) \<Rightarrow> (vk, Inr ())
            | (vk, Inl (RateLimited _)) \<Rightarrow>
                (vk, Inl (ge_new TooManyRequests (''virtual key `'' @ name @ ''` rate limit exceeded'')))
            | (vk, Inl BudgetExhausted) \<Rightarrow>
                (vk, Inl (ge_new InsufficientQuota
                  (''virtual key `'' @ name @ ''` has exhausted its budget for this period'')))))"

section \<open>An empty pool\<close>

definition service_of :: "string option \<Rightarrow> string" where
  "service_of tenant = (case tenant of Some t \<Rightarrow> ''service `'' @ t @ ''`'' | None \<Rightarrow> ''this key'')"

definition out_of_quota :: "resolved_route \<Rightarrow> string option \<Rightarrow> holding \<Rightarrow> gateway_error" where
  "out_of_quota route tenant holding =
     provider_error route TooManyRequests
       (service_of tenant @ '' has no account left on provider `'' @ pr_name (rr_provider route)
          @ ''`: all '' @ decimal (ho_owned holding) @ '' of its accounts are out of quota for model `''
          @ rr_upstream_model route @ ''`'')"

definition at_ceiling :: "resolved_route \<Rightarrow> string option \<Rightarrow> holding \<Rightarrow> gateway_error" where
  "at_ceiling route tenant holding =
     provider_error route NoCapacity
       (service_of tenant @ '' has no account free on provider `'' @ pr_name (rr_provider route)
          @ ''`: all '' @ decimal (ho_owned holding) @ '' of its accounts are at their ceiling for model `''
          @ rr_upstream_model route @ ''`; try again shortly'')"

definition no_accounts :: "resolved_route \<Rightarrow> string option \<Rightarrow> gateway_error" where
  "no_accounts route tenant =
     provider_error route Permission
       (service_of tenant @ '' owns no account on provider `'' @ pr_name (rr_provider route)
          @ ''` that can serve model `'' @ rr_upstream_model route @ ''`'')"

definition pool_empty :: "house \<Rightarrow> resolved_route \<Rightarrow> string option \<Rightarrow> u64 \<Rightarrow> gateway_error" where
  "pool_empty h route tenant now =
     (let model = rr_upstream_model route; holding = pr_holding (live h route) model tenant now in
      if ho_owned holding = 0 then no_accounts route tenant
      else if pr_all_keys_benched (live h route) model tenant now then out_of_quota route tenant holding
      else if pr_all_keys_at_ceiling (live h route) (hs_slots h) model tenant now
      then at_ceiling route tenant holding
      else provider_error route NoCapacity
        (''no healthy key of provider `'' @ pr_name (rr_provider route) @ ''` for model `'' @ model @ ''`''))"

section \<open>The attempts against one target\<close>

definition MAX_ATTEMPTS_PER_TARGET :: nat where
  "MAX_ATTEMPTS_PER_TARGET = 8"

definition attempt_budget :: "house \<Rightarrow> resolved_route \<Rightarrow> route_plan \<Rightarrow> string option \<Rightarrow> u64 \<Rightarrow> nat" where
  "attempt_budget h route plan tenant now =
     min (max (unat (rp_max_attempts_per_target plan))
            (pr_healthy_key_count (live h route) (rr_upstream_model route) tenant now))
         MAX_ATTEMPTS_PER_TARGET"

text \<open>What was sent: the target, the attempt, the request and the key it rode on.\<close>

record sent =
  se_target :: nat
  se_attempt :: nat
  se_request :: upstream_request
  se_route :: resolved_route
  se_key :: "nat option"

record walk =
  wk_house :: house
  wk_attempts :: u32
  wk_last_error :: "gateway_error option"
  wk_sent :: "sent list"

text \<open>What an endpoint puts in its requests for a target, and how it says that the provider is busy.\<close>

record outgoing =
  og_dialect :: dialect
  og_outbound :: "outbound option"
  og_ctx :: translation_ctx
  og_busy :: gateway_error

definition take_slot :: "slots \<Rightarrow> nat \<Rightarrow> slots" where
  "take_slot slots a = slots[a := slots ! a - 1]"

fun attempts_loop ::
    "adapters \<Rightarrow> (string \<Rightarrow> string) \<Rightarrow> world \<Rightarrow> string option \<Rightarrow> route_plan \<Rightarrow> nat \<Rightarrow> bool \<Rightarrow> resolved_route \<Rightarrow>
       outgoing \<Rightarrow> nat \<Rightarrow> nat \<Rightarrow> walk \<Rightarrow> (walk \<times> (gateway_error + response) option) option" where
  "attempts_loop ad digest wd tenant plan t last_target route og a 0 wk = Some (wk, None)"
| "attempts_loop ad digest wd tenant plan t last_target route og a (Suc n) wk =
     (let is_last = (last_target \<and> n = 0);
          now = wd_clock wd t a Admitting;
          h = wk_house wk;
          (p, slots, choice) =
            pr_admit_key (wd_draw wd t a) digest (live h route) (hs_slots h) (rr_upstream_model route) tenant None now;
          h = (put h route p)\<lparr>hs_slots := slots\<rparr>
      in case choice of
           None \<Rightarrow>
             Some (wk\<lparr>wk_house := h, wk_last_error := Some (pool_empty h route tenant now)\<rparr>, None)
         | Some choice \<Rightarrow>
             let seat = (case kc_permit choice of None \<Rightarrow> [] | Some s \<Rightarrow> [s]) in
             if hs_slots h ! pr_semaphore p = 0 then
               Some (wk\<lparr>wk_house := release_permits h seat, wk_last_error := Some (og_busy og)\<rparr>, None)
             else
               let h = h\<lparr>hs_slots := take_slot (hs_slots h) (pr_semaphore p)\<rparr>;
                   permits = pr_semaphore p # seat;
                   wk = wk\<lparr>wk_attempts := wk_attempts wk + 1\<rparr>;
                   key = kc_key choice;
                   h = (if is_subscription (pr_kind (rr_provider route)) \<and> key \<noteq> None
                        then wd_meanwhile wd t a Refreshing h else h)
               in case og_outbound og of
                    None \<Rightarrow> None
                  | Some ob \<Rightarrow>
                     (case ad_request ad route (og_dialect og) (ob_path ob) key (ob_body ob) of
                        Inl err \<Rightarrow> Some (wk\<lparr>wk_house := release_permits h permits\<rparr>, Some (Inl err))
                      | Inr rq \<Rightarrow>
                          let wk = wk\<lparr>wk_sent := wk_sent wk @ [\<lparr>se_target = t, se_attempt = a, se_request = rq,
                                       se_route = route, se_key = key\<rparr>]\<rparr> in
                          (case attempt ad wd t a route rq key permits plan is_last (og_ctx og) h of
                             None \<Rightarrow> None
                           | Some (h, Serve r) \<Rightarrow>
                               Some (wk\<lparr>wk_house := h\<rparr>, Some (Inr (finalize r route (wk_attempts wk))))
                           | Some (h, Retry err) \<Rightarrow>
                               attempts_loop ad digest wd tenant plan t last_target route og (Suc a) n
                                 (wk\<lparr>wk_house := h, wk_last_error := Some err\<rparr>))))"

declare attempts_loop.simps(2) [simp del]

section \<open>The walk over the targets\<close>

text \<open>What preparing a target can say: pass it over, refuse the request, or go on.\<close>

datatype prepared = PassOver gateway_error | Refuse gateway_error | Ready outgoing

fun walk_targets ::
    "(nat \<Rightarrow> resolved_route \<Rightarrow> prepared option) \<Rightarrow> adapters \<Rightarrow> (string \<Rightarrow> string) \<Rightarrow> world \<Rightarrow> string option \<Rightarrow>
       route_plan \<Rightarrow> nat \<Rightarrow> resolved_route list \<Rightarrow> walk \<Rightarrow> (walk \<times> (gateway_error + response)) option" where
  "walk_targets prepare ad digest wd tenant plan t [] wk =
     Some (wk, Inl (case wk_last_error wk of
                      Some err \<Rightarrow> err
                    | None \<Rightarrow> ge_new NoCapacity ''no route candidates available''))"
| "walk_targets prepare ad digest wd tenant plan t (route # rest) wk =
     (case prepare t route of
        None \<Rightarrow> None
      | Some (PassOver err) \<Rightarrow>
          walk_targets prepare ad digest wd tenant plan (Suc t) rest (wk\<lparr>wk_last_error := Some err\<rparr>)
      | Some (Refuse err) \<Rightarrow> Some (wk, Inl err)
      | Some (Ready og) \<Rightarrow>
          let h = wd_meanwhile wd t 0 Building (wk_house wk);
              budget = attempt_budget h route plan tenant (wd_clock wd t 0 Budgeting)
          in (case attempts_loop ad digest wd tenant plan t (rest = []) route og 0 budget (wk\<lparr>wk_house := h\<rparr>) of
                None \<Rightarrow> None
              | Some (wk, Some result) \<Rightarrow> Some (wk, result)
              | Some (wk, None) \<Rightarrow> walk_targets prepare ad digest wd tenant plan (Suc t) rest wk))"

section \<open>Chat requests\<close>

fun passthrough_path :: "(string \<Rightarrow> string) \<Rightarrow> dialect \<Rightarrow> string \<Rightarrow> bool \<Rightarrow> string" where
  "passthrough_path encode DOpenAi model stream = ''/chat/completions''"
| "passthrough_path encode DAnthropic model stream = ''/v1/messages''"
| "passthrough_path encode DGemini model stream =
     ''/v1beta/models/'' @ model @ '':'' @ (if stream then ''streamGenerateContent?alt=sse'' else ''generateContent'')"
| "passthrough_path encode DBedrock model stream =
     ''/model/'' @ encode model @ ''/'' @ (if stream then ''converse-stream'' else ''converse'')"
| "passthrough_path encode CodexResponses model stream = ''/backend-api/codex/responses''"

definition prepare_chat ::
    "(string \<Rightarrow> string) \<Rightarrow> (provider_kind \<Rightarrow> string) \<Rightarrow> adapters \<Rightarrow> inbound_chat \<Rightarrow> nat \<Rightarrow> resolved_route \<Rightarrow> prepared option" where
  "prepare_chat encode show_kind ad ib t route =
     (let p = rr_provider route; in_dialect = ib_dialect ib in
      case wire_dialect (pr_kind p) of
        None \<Rightarrow>
          Some (PassOver (ge_with_provider (ge_with_param (ge_new InvalidRequest
            (''provider `'' @ pr_name p @ ''` ('' @ show_kind (pr_kind p)
               @ '') is configured but its adapter is not available yet'')) ''model'') (pr_name p)))
      | Some out_dialect \<Rightarrow>
          let ready = (\<lambda>ob.
            \<lparr>og_dialect = out_dialect, og_outbound = Some ob,
             og_ctx = \<lparr>tc_passthrough = (out_dialect = in_dialect), tc_out_dialect = out_dialect,
                       tc_stream = ib_stream ib, tc_emulated = ob_emulated ob\<rparr>,
             og_busy = provider_error route NoCapacity
               (''provider `'' @ pr_name p @ ''` is at max concurrency'')\<rparr>)
          in if out_dialect = in_dialect then
               map_option (\<lambda>body. Ready (ready
                   \<lparr>ob_body = body, ob_path = passthrough_path encode out_dialect (rr_upstream_model route) (ib_stream ib),
                    ob_emulated = False, ob_reasoning_effort = None\<rparr>))
                 (passthrough_body (ad_serde ad) ib (rr_upstream_model route))
             else
               (case ad_outbound ad out_dialect ib route of
                  Inl err \<Rightarrow> Some (Refuse err)
                | Inr ob \<Rightarrow> Some (Ready (ready ob))))"

section \<open>The relay endpoints\<close>

datatype endpoint = Completions | Embeddings | AudioSpeech | ImagesGenerations

fun upstream_path :: "endpoint \<Rightarrow> string" where
  "upstream_path Completions = ''/completions''"
| "upstream_path Embeddings = ''/embeddings''"
| "upstream_path AudioSpeech = ''/audio/speech''"
| "upstream_path ImagesGenerations = ''/images/generations''"

definition prepare_relay ::
    "adapters \<Rightarrow> endpoint \<Rightarrow> string \<Rightarrow> (nat \<times> nat) option \<Rightarrow> nat \<Rightarrow> resolved_route \<Rightarrow> prepared option" where
  "prepare_relay ad endpoint body place t route =
     (let p = rr_provider route in
      if wire_dialect (pr_kind p) \<noteq> Some DOpenAi then
        Some (PassOver (ge_with_provider (ge_with_param (ge_new InvalidRequest
          (''`'' @ upstream_path endpoint @ ''` is only available for OpenAI-compatible providers'')) ''model'')
            (pr_name p)))
      else
        Some (Ready
          \<lparr>og_dialect = DOpenAi,
           og_outbound =
             map_option (\<lambda>b. \<lparr>ob_body = b, ob_path = upstream_path endpoint, ob_emulated = False,
                              ob_reasoning_effort = None\<rparr>)
               (passthrough_body (ad_serde ad) (OpenAiChat body place [] False) (rr_upstream_model route)),
           og_ctx = \<lparr>tc_passthrough = True, tc_out_dialect = DOpenAi, tc_stream = False, tc_emulated = False\<rparr>,
           og_busy = provider_error route NoCapacity ''provider at max concurrency''\<rparr>))"

section \<open>A request from plan to answer\<close>

record caller =
  cl_vk :: "vk_runtime option"
  cl_tenant :: "string option"
  cl_unix_ms :: u64
  cl_mono_ms :: u64

text \<open>
  \<open>run_chat\<close> and \<open>run_relay\<close> from the plan on: the gate, then the walk. The result also carries the state of
  the caller's virtual key.
\<close>

definition run_planned ::
    "(nat \<Rightarrow> resolved_route \<Rightarrow> prepared option) \<Rightarrow> adapters \<Rightarrow> (string \<Rightarrow> string) \<Rightarrow> world \<Rightarrow> spend_store \<Rightarrow>
       caller \<Rightarrow> string \<Rightarrow> gateway_error + route_plan \<Rightarrow> house \<Rightarrow>
       (vk_runtime option \<times> walk \<times> (gateway_error + response)) option" where
  "run_planned prepare ad digest wd store cl requested planned h =
     (let wk = \<lparr>wk_house = h, wk_attempts = 0, wk_last_error = None, wk_sent = []\<rparr> in
      case planned of
        Inl err \<Rightarrow> Some (cl_vk cl, wk, Inl err)
      | Inr plan \<Rightarrow>
          let (vk, gate) =
            (case cl_vk cl of
               None \<Rightarrow> (None, Inr ())
             | Some vk \<Rightarrow> (let (vk, r) = vk_gate store vk requested plan (cl_unix_ms cl) (cl_mono_ms cl) in (Some vk, r)))
          in (case gate of
                Inl err \<Rightarrow> Some (vk, wk, Inl err)
              | Inr _ \<Rightarrow> map_option (Pair vk)
                  (walk_targets prepare ad digest wd (cl_tenant cl) plan 0 (rp_targets plan) wk)))"

definition house_of :: "routing_table \<Rightarrow> slots \<Rightarrow> house" where
  "house_of table slots = \<lparr>hs_provider = \<lambda>name. the (rt_provider table name), hs_slots = slots\<rparr>"

definition run_chat where
  "run_chat encode show_kind ad digest wd store cl drawn drawn' draw table slots ib =
     Option.bind (rt_plan drawn drawn' draw table (ib_model ib)) (\<lambda>planned.
       run_planned (prepare_chat encode show_kind ad ib) ad digest wd store cl (ib_model ib) planned
         (house_of table slots))"

definition run_relay where
  "run_relay ad minimal digest wd store cl drawn drawn' draw table slots endpoint body =
     (let read =
        (case probe (str_unquote (ad_serde ad)) body of
           Some p \<Rightarrow> Inr (pb_model p, Some (pb_model_span p))
         | None \<Rightarrow>
             (case minimal body of
                Inl err \<Rightarrow> Inl (invalid_body ''request body is not a valid request object: '' err)
              | Inr model \<Rightarrow> Inr (model, None)))
      in case read of
           Inl err \<Rightarrow>
             Some (cl_vk cl, \<lparr>wk_house = house_of table slots, wk_attempts = 0, wk_last_error = None, wk_sent = []\<rparr>,
               Inl err)
         | Inr (model, place) \<Rightarrow>
             Option.bind (rt_plan drawn drawn' draw table model) (\<lambda>planned.
               run_planned (prepare_relay ad endpoint body place) ad digest wd store cl model planned
                 (house_of table slots)))"

text \<open>The answer the caller gets: a refusal is rendered like any other error.\<close>

definition handled :: "gateway_error + response \<Rightarrow> response" where
  "handled result = (case result of Inl err \<Rightarrow> error_response_for err | Inr r \<Rightarrow> r)"

end
