(* ===== verification/Dispatch_Laws.thy ===== *)
theory Dispatch_Laws
  imports Dispatch
begin

text \<open>
  What a request costs and keeps. The locale \<open>dispatcher\<close> is the contract of an endpoint that prepares
  requests for the walk; the chat and the relay endpoints interpret it. Its lemmas bound what a
  request sends upstream, say after which answers it sends again, which accounts it rides on, and that
  every permit it took is given back or carried by the response.
\<close>

section \<open>Frames\<close>

text \<open>What no dispatch changes of a provider.\<close>

definition pr_static :: "provider_runtime \<Rightarrow> string \<times> provider_kind \<times> nat \<times> bool" where
  "pr_static p = (pr_name p, pr_kind p, pr_semaphore p, pr_managed p)"

definition same_pool :: "provider_runtime \<Rightarrow> provider_runtime \<Rightarrow> bool" where
  "same_pool p q \<longleftrightarrow> pr_like p q \<and> pr_static q = pr_static p"

lemma same_pool_refl [simp]: "same_pool p p"
  and same_pool_trans: "same_pool p q \<Longrightarrow> same_pool q r \<Longrightarrow> same_pool p r"
  by (auto simp: same_pool_def intro: pr_like_trans)

lemma pr_static_set [simp]: "pr_static (pr_set p i k) = pr_static p"
  by (simp add: pr_static_def pr_set_def)

lemma pr_try_static: "pr_try p slots now i = (p', r) \<Longrightarrow> pr_static p' = pr_static p"
  by (auto simp: pr_try_def split: prod.splits option.splits)

lemma pr_try_levelled_static:
  "pr_try_levelled draw n p slots now cands = (p', r) \<Longrightarrow> pr_static p' = pr_static p"
proof (induction n arbitrary: p slots cands)
  case (Suc n)
  then show ?case
    by (auto simp: Let_def dest: pr_try_static split: if_splits prod.splits option.splits)
qed simp

lemma pr_try_recovering_static:
  "pr_try_recovering p slots now ks = (p', r) \<Longrightarrow> pr_static p' = pr_static p"
proof (induction ks arbitrary: p slots)
  case (Cons i ks)
  then show ?case by (auto simp: Let_def split: if_splits prod.splits option.splits)
qed simp

lemma pr_admit_for_static:
  assumes "pr_admit_for draw digest p slots model tenant affinity now = (p', r)"
  shows "pr_static p' = pr_static p"
proof -
  have "pr_static (p\<lparr>pr_breaker := b\<rparr>) = pr_static p" for b by (simp add: pr_static_def)
  with assms show ?thesis
    unfolding pr_admit_for_def Let_def
    by (auto dest!: pr_try_static pr_try_levelled_static pr_try_recovering_static
        split: if_splits prod.splits option.splits)
qed

lemma pr_admit_key_same: "pr_admit_key draw digest p slots model tenant affinity now = (p', r) \<Longrightarrow> same_pool p p'"
  unfolding pr_admit_key_def same_pool_def by (blast intro: pr_admit_for_like pr_admit_for_static)

lemma set_breaker_same [simp]: "same_pool p (set_breaker p key b)"
proof (cases key)
  case (Some i)
  have "pr_like p (pr_set p i ((pr_keys p ! i)\<lparr>kr_breaker := b\<rparr>))"
    by (rule pr_like_set) (simp add: kr_fixed_def)
  with Some show ?thesis by (simp add: set_breaker_def same_pool_def)
qed (simp add: set_breaker_def same_pool_def pr_static_def pr_like_def)

definition same_house :: "house \<Rightarrow> house \<Rightarrow> bool" where
  "same_house h h' \<longleftrightarrow> (\<forall>name. same_pool (hs_provider h name) (hs_provider h' name))"

lemma same_house_refl [simp]: "same_house h h"
  by (simp add: same_house_def)

lemma same_house_trans [trans]: "same_house h h' \<Longrightarrow> same_house h' h'' \<Longrightarrow> same_house h h''"
  unfolding same_house_def by (blast intro: same_pool_trans)

lemma same_house_slots [simp]: "same_house h (h'\<lparr>hs_slots := s\<rparr>) = same_house h h'"
  by (simp add: same_house_def)

lemma same_house_release [simp]: "same_house h (release_permits h' permits) = same_house h h'"
  by (simp add: release_permits_def)

lemma same_house_put: "same_pool (live h route) p \<Longrightarrow> same_house h (put h route p)"
  by (simp add: same_house_def put_def live_def)

lemma same_house_breaker [simp]: "same_house h (on_breaker f h route key)"
  by (simp add: on_breaker_def same_house_put)

lemma same_house_live: "same_house h h' \<Longrightarrow> same_pool (live h route) (live h' route)"
  by (simp add: same_house_def live_def)

section \<open>What others may do meanwhile\<close>

text \<open>
  The rest of the gateway keeps the pools of a table, whose keys and ceilings no request changes; and for
  the accounting of one request's permits the others are taken to give back what they take.
\<close>

definition keeps_pools :: "world \<Rightarrow> bool" where
  "keeps_pools wd \<longleftrightarrow> (\<forall>t a w h. same_house h (wd_meanwhile wd t a w h))"

definition keeps_slots :: "world \<Rightarrow> bool" where
  "keeps_slots wd \<longleftrightarrow> (\<forall>t a w h. hs_slots (wd_meanwhile wd t a w h) = hs_slots h)"

section \<open>One attempt\<close>

lemma on_breaker_slots [simp]: "hs_slots (on_breaker f h route key) = hs_slots h"
  by (simp add: on_breaker_def put_def)

lemma same_house_breakers [simp]: "same_house h (on_breaker f (on_breaker g h route key) route key)"
  by (rule same_house_trans) (rule same_house_breaker)+

lemma hold_out_cases:
  "hold_out_refused_seat now jitter failure h route key = Some h' \<Longrightarrow>
     same_house h h' \<and> hs_slots h' = hs_slots h"
  by (auto simp: hold_out_refused_seat_def Let_def split: if_splits)

lemma bench_exhausted_cases:
  "bench_exhausted_seat now epoch jitter header status h route key = Some h' \<Longrightarrow>
     same_house h h' \<and> hs_slots h' = hs_slots h"
  by (auto simp: bench_exhausted_seat_def split: if_splits option.splits)

definition given_back :: "house \<Rightarrow> attempt_outcome \<Rightarrow> slots" where
  "given_back h out =
     (case out of Serve r \<Rightarrow> hs_slots (release_permits h (rs_permits r)) | Retry _ \<Rightarrow> hs_slots h)"

lemma release_permits_cong: "hs_slots h = hs_slots h' \<Longrightarrow> hs_slots (release_permits h ps) = hs_slots (release_permits h' ps)"
  by (simp add: release_permits_def)

lemma release_permits_none [simp]: "release_permits h [] = h"
  by (simp add: release_permits_def)

lemma response_permits [simp]:
  "rs_permits (error_response_for err) = []" "rs_permits (plain_response s b ps) = ps"
  "rs_permits (forward_response ur ps) = ps" "rs_permits (finalize r route n) = rs_permits r"
  by (simp_all add: error_response_for_def plain_response_def forward_response_def finalize_def)

text \<open>The answers after which the request is sent again.\<close>

definition refused_in_stream :: "adapters \<Rightarrow> dialect \<Rightarrow> resolved_route \<Rightarrow> upstream_response \<Rightarrow> bool" where
  "refused_in_stream ad d route ur \<longleftrightarrow>
     d = CodexResponses \<and> is_success (ur_status ur)
     \<and> (\<exists>body. ur_body ur = Some body \<and> ad_aggregate ad body (rr_upstream_model route) \<noteq> None)"

definition worth_retrying ::
    "adapters \<Rightarrow> route_plan \<Rightarrow> dialect \<Rightarrow> resolved_route \<Rightarrow> gateway_error + upstream_response \<Rightarrow> bool" where
  "worth_retrying ad plan d route result \<longleftrightarrow>
     (case result of
        Inl _ \<Rightarrow> True
      | Inr ur \<Rightarrow> retryable plan route (ur_status ur) \<or> refused_in_stream ad d route ur)"

lemma translated_response_cases:
  assumes run: "translated_response ad wd t a route key permits is_last ctx ur h = Some (h', out)"
  shows "keeps_pools wd \<Longrightarrow> same_house h h'"
    and "keeps_slots wd \<Longrightarrow> given_back h' out = hs_slots (release_permits h permits)"
    and "out = Retry err \<Longrightarrow> \<not> is_last \<and> refused_in_stream ad (tc_out_dialect ctx) route ur"
proof -
  let ?m = "wd_meanwhile wd t a Reading h"
  consider (refused) r where "h' = release_permits ?m permits" "out = Serve r" "rs_permits r = []"
    | (held) body failure where "is_success (ur_status ur)" "ur_body ur = Some body"
        "tc_out_dialect ctx = CodexResponses" "ad_aggregate ad body (rr_upstream_model route) = Some failure"
        "hold_out_refused_seat (wd_clock wd t a Refusing) (wd_jitter wd t a) failure
           (release_permits ?m permits) route key = Some h'"
        "(\<exists>e. out = Retry e) \<and> \<not> is_last \<or> (\<exists>r. out = Serve r \<and> rs_permits r = [])"
    | (stream) "h' = h" "out = Serve (plain_response 200 EventStream permits)"
    using run
    by (fastforce simp: translated_response_def Let_def bind_eq_Some_conv collect_capped_def plain_response_def
        error_response_for_def split: if_splits option.splits sum.splits)
  note cases = this
  show "same_house h h'" if "keeps_pools wd"
    using cases
  proof cases
    case refused
    with that show ?thesis by (simp add: keeps_pools_def)
  next
    case held
    have "same_house h (release_permits ?m permits)" using that by (simp add: keeps_pools_def)
    with hold_out_cases [OF held(5)] show ?thesis by (blast intro: same_house_trans)
  qed simp
  show "given_back h' out = hs_slots (release_permits h permits)" if "keeps_slots wd"
  proof -
    have same: "hs_slots (release_permits ?m permits) = hs_slots (release_permits h permits)"
      using that by (auto simp: keeps_slots_def intro: release_permits_cong)
    from cases show ?thesis
    proof cases
      case refused
      with same show ?thesis by (simp add: given_back_def)
    next
      case held
      with hold_out_cases [OF held(5)] same show ?thesis by (auto simp: given_back_def)
    qed (simp add: given_back_def)
  qed
  show "\<not> is_last \<and> refused_in_stream ad (tc_out_dialect ctx) route ur" if "out = Retry err"
    using cases that by cases (auto simp: refused_in_stream_def)
qed

lemma seat_auth_retryable: "seat_auth_failure route status \<Longrightarrow> retryable plan route status"
  by (simp add: retryable_def)

lemma after_answer_cases:
  assumes run: "after_answer ad wd t a route key permits plan is_last ctx ur h = Some (h', out)"
  shows "keeps_pools wd \<Longrightarrow> same_house h h'"
    and "keeps_slots wd \<Longrightarrow> given_back h' out = hs_slots (release_permits h permits)"
    and "out = Retry err \<Longrightarrow> retryable plan route (ur_status ur) \<or> refused_in_stream ad (tc_out_dialect ctx) route ur"
proof -
  define renewed where "renewed = renews wd t a h route key (ur_status ur)"
  define h1 where "h1 = (if renewed = None then h else wd_meanwhile wd t a Renewing h)"
  define h2 where
    "h2 = (if renewed = Some True
           then on_breaker (\<lambda>b. br_record_success b (wd_clock wd t a Restoring)) h1 route key else h1)"
  have auth: "retryable plan route (ur_status ur)" if "renewed = Some True"
    using that unfolding renewed_def
    by (intro seat_auth_retryable) (auto simp: renews_def seat_auth_failure_def split: if_splits)
  define e1 where "e1 = provider_error route UpstreamError
    (''seat credential of provider `'' @ pr_name (rr_provider route) @ ''` was renewed; retrying'')"
  define e2 where "e2 = ge_with_upstream_status (provider_error route UpstreamError
    (''provider `'' @ pr_name (rr_provider route) @ ''` returned '' @ ad_status_text ad (ur_status ur)))
    (ur_status ur)"
  have eq: "after_answer ad wd t a route key permits plan is_last ctx ur h =
      (if renewed = Some True \<and> \<not> is_last then Some (release_permits h1 permits, Retry e1)
       else if retryable plan route (ur_status ur) \<and> \<not> is_last then Some (release_permits h2 permits, Retry e2)
       else if tc_passthrough ctx then Some (h2, Serve (forward_response ur permits))
       else translated_response ad wd t a route key permits is_last ctx ur h2)"
    by (simp only: after_answer_def Let_def renewed_def h1_def h2_def e1_def e2_def)
  consider (again) e h3 where "h3 = h1 \<or> h3 = h2" "out = Retry e" "h' = release_permits h3 permits"
      "retryable plan route (ur_status ur)"
    | (forward) "h' = h2" "out = Serve (forward_response ur permits)"
    | (translate) "translated_response ad wd t a route key permits is_last ctx ur h2 = Some (h', out)"
  proof (cases "renewed = Some True \<and> \<not> is_last")
    case True
    with run eq have "Some (release_permits h1 permits, Retry e1) = Some (h', out)" by simp
    with auth True show thesis by (intro again [of h1 e1]) simp_all
  next
    case declined: False
    show thesis
    proof (cases "retryable plan route (ur_status ur) \<and> \<not> is_last")
      case True
      with declined run eq have "Some (release_permits h2 permits, Retry e2) = Some (h', out)" by simp
      with True show thesis by (intro again [of h2 e2]) simp_all
    next
      case False
      have rest: "(if tc_passthrough ctx then Some (h2, Serve (forward_response ur permits))
          else translated_response ad wd t a route key permits is_last ctx ur h2) = Some (h', out)"
        using run by (simp only: eq if_not_P [OF declined] if_not_P [OF False])
      show thesis
      proof (cases "tc_passthrough ctx")
        case True
        with rest show thesis by (intro forward) simp_all
      next
        case False
        with rest show thesis by (intro translate) simp
      qed
    qed
  qed
  note cases = this
  show "same_house h h'" if pools: "keeps_pools wd"
  proof -
    have h1: "same_house h h1" using pools by (simp add: h1_def keeps_pools_def)
    have h2: "same_house h h2" by (rule same_house_trans [OF h1]) (simp add: h2_def)
    from cases show ?thesis
    proof cases
      case again
      with h1 h2 show ?thesis by auto
    next
      case forward
      with h2 show ?thesis by simp
    next
      case translate
      from same_house_trans [OF h2 translated_response_cases(1) [OF this pools]] show ?thesis .
    qed
  qed
  show "given_back h' out = hs_slots (release_permits h permits)" if slots: "keeps_slots wd"
  proof -
    have h1: "hs_slots h1 = hs_slots h" using slots by (simp add: h1_def keeps_slots_def)
    have h2: "hs_slots h2 = hs_slots h" by (simp add: h2_def h1)
    show ?thesis
      using cases h1 h2 translated_response_cases(2) [OF _ slots]
      by cases (auto simp: given_back_def release_permits_def)
  qed
  show "retryable plan route (ur_status ur) \<or> refused_in_stream ad (tc_out_dialect ctx) route ur" if "out = Retry err"
    using cases that translated_response_cases(3) by cases auto
qed

lemma upstream_attempt_cases:
  assumes run: "attempt ad wd t a route rq key permits plan is_last ctx h = Some (h', out)"
  shows "keeps_pools wd \<Longrightarrow> same_house h h'"
    and "keeps_slots wd \<Longrightarrow> given_back h' out = hs_slots (release_permits h permits)"
    and "out = Retry err \<Longrightarrow> worth_retrying ad plan (tc_out_dialect ctx) route (wd_send wd t a rq)"
proof -
  let ?sent = "wd_meanwhile wd t a Sending h"
  consider (unsent) err f where "wd_send wd t a rq = Inl err" "out = Retry err"
      "h' = release_permits (on_breaker f ?sent route key) permits"
    | (answered) ur f h2 where "wd_send wd t a rq = Inr ur"
      "same_house (on_breaker f ?sent route key) h2 \<and> hs_slots h2 = hs_slots ?sent"
      "after_answer ad wd t a route key permits plan is_last ctx ur h2 = Some (h', out)"
  proof (cases "wd_send wd t a rq")
    case (Inl err)
    with run show thesis by (intro unsent) (auto simp: attempt_def Let_def)
  next
    case (Inr ur)
    define h1 where
      "h1 = on_breaker (record_answer (wd_clock wd t a Recording) route (ur_status ur)) ?sent route key"
    have eq: "attempt ad wd t a route rq key permits plan is_last ctx h =
        Option.bind
          (if is_subscription (pr_kind (rr_provider route))
           then bench_exhausted_seat (wd_clock wd t a Benching) (wd_epoch_secs wd t a) (wd_jitter wd t a)
                  (ur_headers ur) (ur_status ur) h1 route key
           else Some h1)
          (after_answer ad wd t a route key permits plan is_last ctx ur)"
      using Inr by (simp add: attempt_def Let_def h1_def)
    obtain h2 where h2: "after_answer ad wd t a route key permits plan is_last ctx ur h2 = Some (h', out)"
      "(if is_subscription (pr_kind (rr_provider route))
        then bench_exhausted_seat (wd_clock wd t a Benching) (wd_epoch_secs wd t a) (wd_jitter wd t a)
               (ur_headers ur) (ur_status ur) h1 route key
        else Some h1) = Some h2"
      using run unfolding eq bind_eq_Some_conv by blast
    from h2(2) have "same_house h1 h2 \<and> hs_slots h2 = hs_slots h1"
      by (auto dest: bench_exhausted_cases split: if_splits)
    with Inr h2(1) show thesis
      by (intro answered [of ur "record_answer (wd_clock wd t a Recording) route (ur_status ur)" h2])
        (simp_all add: h1_def)
  qed
  note cases = this
  show "same_house h h'" if pools: "keeps_pools wd"
  proof -
    have "same_house h ?sent" using pools by (simp add: keeps_pools_def)
    then have "same_house h (on_breaker f ?sent route key)" for f
      by (rule same_house_trans) simp
    note sent = this
    from cases show ?thesis
    proof cases
      case unsent
      with sent show ?thesis by simp
    next
      case (answered ur f h2)
      from answered(2) have "same_house h h2" by (blast intro: same_house_trans [OF sent])
      then show ?thesis by (rule same_house_trans) (rule after_answer_cases(1) [OF answered(3) pools])
    qed
  qed
  show "given_back h' out = hs_slots (release_permits h permits)" if slots: "keeps_slots wd"
  proof -
    have "hs_slots ?sent = hs_slots h" using slots by (simp add: keeps_slots_def)
    with cases show ?thesis
      using after_answer_cases(2) [OF _ slots]
      by cases (auto simp: given_back_def release_permits_def)
  qed
  show "worth_retrying ad plan (tc_out_dialect ctx) route (wd_send wd t a rq)" if "out = Retry err"
    using cases that after_answer_cases(3) by cases (auto simp: worth_retrying_def)
qed

section \<open>The attempts against one target\<close>

lemma release_take_slot [simp]: "0 < slots ! a \<Longrightarrow> release_slot (take_slot slots a) (Some a) = slots"
  by (cases "a < length slots") (auto simp: release_slot_def take_slot_def list_update_beyond)

text \<open>The account a request rode on: one of the caller's, or none where the provider has no keys.\<close>

definition spends_own :: "string option \<Rightarrow> house \<Rightarrow> sent \<Rightarrow> bool" where
  "spends_own tenant h e \<longleftrightarrow>
     (let p = live h (se_route e) in
      case se_key e of
        None \<Rightarrow> pr_keys p = []
      | Some i \<Rightarrow> i \<in> set (pr_mine p (Some (rr_upstream_model (se_route e))) tenant))"

lemma spends_own_same:
  assumes "same_house h h'" shows "spends_own tenant h' e = spends_own tenant h e"
proof -
  have same: "same_pool (live h (se_route e)) (live h' (se_route e))" using assms by (rule same_house_live)
  then have like: "pr_like (live h (se_route e)) (live h' (se_route e))"
    and "pr_managed (live h' (se_route e)) = pr_managed (live h (se_route e))"
    by (simp_all add: same_pool_def pr_static_def)
  from pr_mine_like [OF this] like show ?thesis
    by (auto simp: spends_own_def Let_def pr_like_def split: option.splits)
qed

lemma pr_admit_key_outcome:
  assumes "pr_admit_key draw digest p slots model tenant affinity now = (p', slots', choice)"
  shows "case choice of
      None \<Rightarrow> slots' = slots
    | Some c \<Rightarrow> release_slot slots' (kc_permit c) = slots
        \<and> (case kc_key c of None \<Rightarrow> pr_keys p = [] | Some i \<Rightarrow> i \<in> set (pr_mine p (Some model) tenant))"
proof (cases "pr_keys p = []")
  case True
  with assms show ?thesis
    by (auto simp: pr_admit_key_def pr_admit_for_def release_slot_def split: prod.splits if_splits)
next
  case False
  note run = assms [unfolded pr_admit_key_def]
  from a_permit_is_one_slot [OF run False] pr_admit_for_outcome [OF run False]
  show ?thesis by (cases choice) (auto simp: chosen_ok_def)
qed

definition worth_it :: "adapters \<Rightarrow> world \<Rightarrow> route_plan \<Rightarrow> sent \<Rightarrow> bool" where
  "worth_it ad wd plan e \<longleftrightarrow>
     (\<exists>d. wire_dialect (pr_kind (rr_provider (se_route e))) = Some d
        \<and> worth_retrying ad plan d (se_route e) (wd_send wd (se_target e) (se_attempt e) (se_request e)))"

text \<open>What is free once the result has ended: a served response gives its permits back when it does.\<close>

definition settled :: "house \<Rightarrow> (gateway_error + response) option \<Rightarrow> slots" where
  "settled h r = (case r of Some (Inr resp) \<Rightarrow> hs_slots (release_permits h (rs_permits resp)) | _ \<Rightarrow> hs_slots h)"

text \<open>The report of a walk: what it sent, and what it left.\<close>

definition walked ::
    "adapters \<Rightarrow> world \<Rightarrow> route_plan \<Rightarrow> string option \<Rightarrow> nat \<Rightarrow> walk \<Rightarrow> walk \<Rightarrow>
       (gateway_error + response) option \<Rightarrow> bool" where
  "walked ad wd plan tenant n wk wk' r \<longleftrightarrow>
     (\<exists>new. wk_sent wk' = wk_sent wk @ new \<and> length new \<le> n
        \<and> (r = None \<longrightarrow> (\<forall>e \<in> set new. worth_it ad wd plan e))
        \<and> (\<forall>e \<in> set (butlast new). worth_it ad wd plan e)
        \<and> (keeps_pools wd \<longrightarrow> (\<forall>e \<in> set new. spends_own tenant (wk_house wk) e)))
     \<and> (keeps_pools wd \<longrightarrow> same_house (wk_house wk) (wk_house wk'))
     \<and> (keeps_slots wd \<longrightarrow> settled (wk_house wk') r = hs_slots (wk_house wk))"

lemma walked_none:
  assumes "wk_sent wk' = wk_sent wk" "keeps_pools wd \<Longrightarrow> same_house (wk_house wk) (wk_house wk')"
    "keeps_slots wd \<Longrightarrow> settled (wk_house wk') r = hs_slots (wk_house wk)"
  shows "walked ad wd plan tenant n wk wk' r"
  unfolding walked_def using assms by simp

lemma walked_trans:
  assumes first: "walked ad wd plan tenant m wk wk1 None" and rest: "walked ad wd plan tenant n wk1 wk2 r"
  shows "walked ad wd plan tenant (m + n) wk wk2 r"
proof -
  obtain new1 where new1: "wk_sent wk1 = wk_sent wk @ new1" "length new1 \<le> m"
    "\<forall>e \<in> set new1. worth_it ad wd plan e" "keeps_pools wd \<longrightarrow> (\<forall>e \<in> set new1. spends_own tenant (wk_house wk) e)"
    using first by (auto simp: walked_def)
  obtain new2 where new2: "wk_sent wk2 = wk_sent wk1 @ new2" "length new2 \<le> n"
    "r = None \<longrightarrow> (\<forall>e \<in> set new2. worth_it ad wd plan e)" "\<forall>e \<in> set (butlast new2). worth_it ad wd plan e"
    "keeps_pools wd \<longrightarrow> (\<forall>e \<in> set new2. spends_own tenant (wk_house wk1) e)"
    using rest by (auto simp: walked_def)
  have pools: "same_house (wk_house wk) (wk_house wk1)" if "keeps_pools wd"
    using first that by (simp add: walked_def)
  have last: "\<forall>e \<in> set (butlast (new1 @ new2)). worth_it ad wd plan e"
    using new1(3) new2(4) by (auto simp: butlast_append dest: in_set_butlastD)
  show ?thesis
    unfolding walked_def
  proof (intro conjI impI exI [of _ "new1 @ new2"])
    show "same_house (wk_house wk) (wk_house wk2)" if "keeps_pools wd"
      using pools [OF that] rest that by (auto simp: walked_def intro: same_house_trans)
    show "settled (wk_house wk2) r = hs_slots (wk_house wk)" if "keeps_slots wd"
      using first rest that by (auto simp: walked_def settled_def)
    show "\<forall>e \<in> set (new1 @ new2). spends_own tenant (wk_house wk) e" if "keeps_pools wd"
      using new1(4) new2(5) spends_own_same [OF pools [OF that]] that by auto
  qed (use new1 new2 last in auto)
qed

text \<open>The admission of one turn of the loop, with the permits it leaves in hand.\<close>

lemma turn_admits:
  assumes "pr_admit_key draw digest (live h route) (hs_slots h) (rr_upstream_model route) tenant None now = (p, slots, choice)"
    and "h1 = (put h route p)\<lparr>hs_slots := slots\<rparr>"
  shows "same_house h h1"
    and "choice = None \<Longrightarrow> hs_slots h1 = hs_slots h"
    and "choice = Some c \<Longrightarrow> seat = (case kc_permit c of None \<Rightarrow> [] | Some s \<Rightarrow> [s]) \<Longrightarrow>
           hs_slots (release_permits h1 seat) = hs_slots h"
    and "choice = Some c \<Longrightarrow> seat = (case kc_permit c of None \<Rightarrow> [] | Some s \<Rightarrow> [s]) \<Longrightarrow>
           hs_slots h1 ! a \<noteq> 0 \<Longrightarrow>
           hs_slots (release_permits (h1\<lparr>hs_slots := take_slot (hs_slots h1) a\<rparr>) (a # seat)) = hs_slots h"
    and "choice = Some c \<Longrightarrow> spends_own tenant h
           \<lparr>se_target = t, se_attempt = i, se_request = rq, se_route = route, se_key = kc_key c\<rparr>"
proof -
  have "same_house h (put h route p)" by (rule same_house_put) (rule pr_admit_key_same [OF assms(1)])
  then show "same_house h h1" by (simp add: assms(2))
  note outcome = pr_admit_key_outcome [OF assms(1)]
  show "choice = None \<Longrightarrow> hs_slots h1 = hs_slots h" using outcome by (simp add: assms(2))
  assume c: "choice = Some c"
  then have restored: "release_slot slots (kc_permit c) = hs_slots h" using outcome by simp
  show "spends_own tenant h \<lparr>se_target = t, se_attempt = i, se_request = rq, se_route = route, se_key = kc_key c\<rparr>"
    using outcome c by (auto simp: spends_own_def Let_def split: option.splits)
  assume seat: "seat = (case kc_permit c of None \<Rightarrow> [] | Some s \<Rightarrow> [s])"
  show released: "hs_slots (release_permits h1 seat) = hs_slots h"
    using restored by (auto simp: assms(2) seat release_permits_def release_slot_def [of _ None] split: option.splits)
  show "hs_slots (release_permits (h1\<lparr>hs_slots := take_slot (hs_slots h1) a\<rparr>) (a # seat)) = hs_slots h"
    if "hs_slots h1 ! a \<noteq> 0"
    using that released by (simp add: release_permits_def)
qed

lemma attempts_loop_walked:
  assumes dialect: "wire_dialect (pr_kind (rr_provider route)) = Some (tc_out_dialect (og_ctx og))"
  shows "attempts_loop ad digest wd tenant plan t last_target route og a n wk = Some (wk', r) \<Longrightarrow>
           walked ad wd plan tenant n wk wk' r"
proof (induction n arbitrary: a wk)
  case 0
  then show ?case by (intro walked_none) (simp_all add: settled_def)
next
  case (Suc n)
  define is_last where "is_last = (last_target \<and> n = 0)"
  define now where "now = wd_clock wd t a Admitting"
  define h where "h = wk_house wk"
  obtain p slots choice where admitted:
    "pr_admit_key (wd_draw wd t a) digest (live h route) (hs_slots h) (rr_upstream_model route) tenant None now
       = (p, slots, choice)" by (metis prod_cases3)
  define h1 where "h1 = (put h route p)\<lparr>hs_slots := slots\<rparr>"
  note turn = turn_admits [OF admitted h1_def]
  show ?case
  proof (cases choice)
    case None
    with Suc.prems admitted have "wk_house wk' = h1" "wk_sent wk' = wk_sent wk" "r = None"
      by (auto simp: attempts_loop.simps(2) Let_def is_last_def now_def h_def h1_def)
    with turn(1, 2) None show ?thesis by (intro walked_none) (simp_all add: settled_def h_def)
  next
    case (Some c)
    define seat where "seat = (case kc_permit c of None \<Rightarrow> [] | Some s \<Rightarrow> [s])"
    note held = turn(3-4) [OF Some seat_def]
    show ?thesis
    proof (cases "hs_slots h1 ! pr_semaphore p = 0")
      case True
      with Suc.prems admitted Some
      have "wk_house wk' = release_permits h1 seat" "wk_sent wk' = wk_sent wk" "r = None"
        by (auto simp: attempts_loop.simps(2) Let_def is_last_def now_def h_def h1_def seat_def)
      with turn(1) held(1) show ?thesis by (intro walked_none) (simp_all add: settled_def h_def)
    next
      case free: False
      define h2 where "h2 = h1\<lparr>hs_slots := take_slot (hs_slots h1) (pr_semaphore p)\<rparr>"
      define h3 where "h3 = (if is_subscription (pr_kind (rr_provider route)) \<and> kc_key c \<noteq> None
        then wd_meanwhile wd t a Refreshing h2 else h2)"
      define permits where "permits = pr_semaphore p # seat"
      have h3: "same_house h h3" if "keeps_pools wd"
      proof -
        have "same_house h h2" using turn(1) by (simp add: h2_def)
        then show ?thesis
          using that by (auto simp: h3_def keeps_pools_def intro: same_house_trans)
      qed
      have restored: "hs_slots (release_permits h3 permits) = hs_slots h" if "keeps_slots wd"
      proof -
        have "hs_slots h3 = hs_slots h2" using that by (simp add: h3_def keeps_slots_def)
        then have "hs_slots (release_permits h3 permits) = hs_slots (release_permits h2 permits)"
          by (rule release_permits_cong)
        also have "\<dots> = hs_slots h" unfolding h2_def permits_def by (rule held(2) [OF free])
        finally show ?thesis .
      qed
      define wk1 where "wk1 = wk\<lparr>wk_attempts := wk_attempts wk + 1\<rparr>"
      obtain ob where ob: "og_outbound og = Some ob"
        using Suc.prems admitted Some free
        by (cases "og_outbound og")
          (auto simp: attempts_loop.simps(2) Let_def is_last_def now_def h_def h1_def seat_def)
      show ?thesis
      proof (cases "ad_request ad route (og_dialect og) (ob_path ob) (kc_key c) (ob_body ob)")
        case (Inl err)
        with Suc.prems admitted Some free ob
        have "wk_house wk' = release_permits h3 permits" "wk_sent wk' = wk_sent wk" "r = Some (Inl err)"
          by (auto simp: attempts_loop.simps(2) Let_def is_last_def now_def h_def h1_def h2_def h3_def seat_def
              permits_def)
        with h3 restored show ?thesis by (intro walked_none) (simp_all add: settled_def h_def)
      next
        case (Inr rq)
        define e where "e = \<lparr>se_target = t, se_attempt = a, se_request = rq, se_route = route, se_key = kc_key c\<rparr>"
        define wk2 where "wk2 = wk1\<lparr>wk_sent := wk_sent wk @ [e]\<rparr>"
        have eq: "attempts_loop ad digest wd tenant plan t last_target route og a (Suc n) wk =
            (case attempt ad wd t a route rq (kc_key c) permits plan is_last (og_ctx og) h3 of
               None \<Rightarrow> None
             | Some (h, Serve r) \<Rightarrow> Some (wk2\<lparr>wk_house := h\<rparr>, Some (Inr (finalize r route (wk_attempts wk2))))
             | Some (h, Retry err) \<Rightarrow>
                 attempts_loop ad digest wd tenant plan t last_target route og (Suc a) n
                   (wk2\<lparr>wk_house := h, wk_last_error := Some err\<rparr>))"
          using admitted Some free ob Inr
          by (cases "is_subscription (pr_kind (rr_provider route)) \<and> kc_key c \<noteq> None")
            (auto simp: attempts_loop.simps(2) Let_def is_last_def now_def h_def h1_def h2_def h3_def seat_def
              permits_def wk1_def wk2_def e_def cong: option.case_cong prod.case_cong attempt_outcome.case_cong)
        from Suc.prems obtain h4 out where att:
          "attempt ad wd t a route rq (kc_key c) permits plan is_last (og_ctx og) h3 = Some (h4, out)"
          unfolding eq by (auto split: option.splits)
        note attempt = upstream_attempt_cases [OF att]
        have pools: "same_house h h4" if "keeps_pools wd"
          by (rule same_house_trans [OF h3 [OF that] attempt(1) [OF that]])
        have given: "given_back h4 out = hs_slots h" if "keeps_slots wd"
          using attempt(2) [OF that] restored [OF that] by simp
        have own: "spends_own tenant (wk_house wk) e" using turn(5) [OF Some] by (simp add: e_def h_def)
        show ?thesis
        proof (cases out)
          case (Serve resp)
          with Suc.prems att have "wk' = wk2\<lparr>wk_house := h4\<rparr>"
            "r = Some (Inr (finalize resp route (wk_attempts wk2)))" unfolding eq by auto
          with pools given own Serve show ?thesis
            unfolding walked_def
            by (intro conjI exI [of _ "[e]"])
              (auto simp: wk2_def wk1_def h_def settled_def given_back_def)
        next
          case (Retry err)
          let ?wk3 = "wk2\<lparr>wk_house := h4, wk_last_error := Some err\<rparr>"
          have "worth_it ad wd plan e"
            using dialect attempt(3) [OF Retry] by (auto simp: worth_it_def e_def)
          then have "walked ad wd plan tenant 1 wk ?wk3 None"
            unfolding walked_def using pools given own Retry
            by (intro conjI exI [of _ "[e]"])
              (auto simp: wk2_def wk1_def h_def settled_def given_back_def)
          moreover have "attempts_loop ad digest wd tenant plan t last_target route og (Suc a) n ?wk3 = Some (wk', r)"
            using Suc.prems att Retry unfolding eq by simp
          ultimately show ?thesis using walked_trans [OF _ Suc.IH] by fastforce
        qed
      qed
    qed
  qed
qed

section \<open>The walk\<close>

locale dispatcher =
  fixes prepare :: "nat \<Rightarrow> resolved_route \<Rightarrow> prepared option"
  assumes prepared_dialect:
    "prepare t route = Some (Ready og) \<Longrightarrow> wire_dialect (pr_kind (rr_provider route)) = Some (tc_out_dialect (og_ctx og))"
begin

lemma walk_walked:
  "walk_targets prepare ad digest wd tenant plan t routes wk = Some (wk', result) \<Longrightarrow>
     walked ad wd plan tenant (8 * length routes) wk wk' (Some result)"
proof (induction routes arbitrary: t wk)
  case Nil
  then show ?case by (auto simp: settled_def intro!: walked_none)
next
  case (Cons route routes)
  from Cons.prems obtain what where what: "prepare t route = Some what" by (cases "prepare t route") auto
  show ?case
  proof (cases what)
    case (PassOver err)
    with Cons.prems what have "walk_targets prepare ad digest wd tenant plan (Suc t) routes
        (wk\<lparr>wk_last_error := Some err\<rparr>) = Some (wk', result)" by simp
    from Cons.IH [OF this] have "walked ad wd plan tenant (8 * length routes) (wk\<lparr>wk_last_error := Some err\<rparr>) wk' (Some result)" .
    moreover have "walked ad wd plan tenant 8 wk (wk\<lparr>wk_last_error := Some err\<rparr>) None"
      by (intro walked_none) (simp_all add: settled_def)
    ultimately show ?thesis using walked_trans by fastforce
  next
    case (Refuse err)
    with Cons.prems what show ?thesis by (auto simp: settled_def intro!: walked_none)
  next
    case (Ready og)
    let ?wk = "wk\<lparr>wk_house := wd_meanwhile wd t 0 Building (wk_house wk)\<rparr>"
    define budget where "budget = attempt_budget (wk_house ?wk) route plan tenant (wd_clock wd t 0 Budgeting)"
    have eq: "walk_targets prepare ad digest wd tenant plan t (route # routes) wk =
        (case attempts_loop ad digest wd tenant plan t (routes = []) route og 0 budget ?wk of
           None \<Rightarrow> None
         | Some (wk, Some result) \<Rightarrow> Some (wk, result)
         | Some (wk, None) \<Rightarrow> walk_targets prepare ad digest wd tenant plan (Suc t) routes wk)"
      using what Ready by (simp add: Let_def budget_def)
    obtain wk1 r where loop:
      "attempts_loop ad digest wd tenant plan t (routes = []) route og 0 budget ?wk = Some (wk1, r)"
      using Cons.prems unfolding eq by (cases "attempts_loop ad digest wd tenant plan t (routes = []) route og 0 budget ?wk") auto
    have dialect: "wire_dialect (pr_kind (rr_provider route)) = Some (tc_out_dialect (og_ctx og))"
      using prepared_dialect what Ready by blast
    have waited: "walked ad wd plan tenant (8 - budget) wk ?wk None"
      by (intro walked_none) (auto simp: settled_def keeps_pools_def keeps_slots_def)
    have "budget \<le> 8" by (simp add: budget_def attempt_budget_def MAX_ATTEMPTS_PER_TARGET_def)
    with walked_trans [OF waited attempts_loop_walked [OF dialect loop]]
    have target: "walked ad wd plan tenant 8 wk wk1 r" by simp
    show ?thesis
    proof (cases r)
      case None
      then have "walk_targets prepare ad digest wd tenant plan (Suc t) routes wk1 = Some (wk', result)"
        using Cons.prems loop unfolding eq by simp
      from walked_trans [OF target [unfolded None] Cons.IH [OF this]] show ?thesis by simp
    next
      case (Some res)
      then have "wk' = wk1" "result = res" using Cons.prems loop unfolding eq by simp_all
      with target Some show ?thesis by (auto simp: walked_def)
    qed
  qed
qed

lemma run_planned_walked:
  assumes "run_planned prepare ad digest wd store cl requested planned h = Some (vk, wk, result)"
    and "wk0 = \<lparr>wk_house = h, wk_attempts = 0, wk_last_error = None, wk_sent = []\<rparr>"
  shows "case planned of
      Inl err \<Rightarrow> wk = wk0 \<and> result = Inl err
    | Inr plan \<Rightarrow> walked ad wd plan (cl_tenant cl) (8 * length (rp_targets plan)) wk0 wk (Some result)"
proof (cases planned)
  case (Inl err)
  with assms show ?thesis by (simp add: run_planned_def)
next
  case (Inr plan)
  have "wk = wk0 \<and> (\<exists>err. result = Inl err)
      \<or> walk_targets prepare ad digest wd (cl_tenant cl) plan 0 (rp_targets plan) wk0 = Some (wk, result)"
    using assms Inr by (auto simp: run_planned_def Let_def split: prod.splits sum.splits)
  then show ?thesis
  proof
    assume "wk = wk0 \<and> (\<exists>err. result = Inl err)"
    with Inr show ?thesis by (auto simp: settled_def intro!: walked_none)
  next
    assume "walk_targets prepare ad digest wd (cl_tenant cl) plan 0 (rp_targets plan) wk0 = Some (wk, result)"
    from walk_walked [OF this] Inr show ?thesis by simp
  qed
qed

end

interpretation chat: dispatcher "prepare_chat encode show_kind ad ib" for encode show_kind ad ib
  by unfold_locales (auto simp: prepare_chat_def Let_def split: option.splits if_splits sum.splits)

interpretation relay: dispatcher "prepare_relay ad endpoint body place" for ad endpoint body place
  by unfold_locales (auto simp: prepare_relay_def Let_def split: if_splits)

end
