(* ===== verification/Request_Guarantees.thy ===== *)
theory Request_Guarantees
  imports Dispatch_Laws
begin

text \<open>
  What the pipeline guarantees of a whole request, for chat and relay endpoints alike: a bound on what it
  sends, the answers after which it sends again, whose accounts it rides on, the permits it gives back,
  what the gate of a virtual key keeps from going out, that it is answered, and the bench of a seat that
  is out of quota.
\<close>

section \<open>A request to evaluate\<close>

text \<open>Two providers; the first answers \<open>429\<close> to both attempts, the second serves.\<close>

definition sample_world :: world where
  "sample_world =
     \<lparr>wd_clock = \<lambda>_ _ _. 1000, wd_epoch_secs = \<lambda>_ _. 0, wd_draw = \<lambda>_ _ _ _ _. 0, wd_jitter = \<lambda>_ _. Finite 0,
      wd_meanwhile = \<lambda>_ _ _ h. h,
      wd_send = \<lambda>t a rq. Inr \<lparr>ur_status = (if t = 0 then 429 else 200), ur_headers = Map.empty, ur_body = Some ''ok''\<rparr>,
      wd_renewed = \<lambda>_ _. None\<rparr>"

definition sample_adapters :: adapters where
  "sample_adapters =
     \<lparr>ad_serde = plain_serde, ad_status_text = decimal,
      ad_outbound = \<lambda>_ _ _. Inl (ge_new InvalidRequest ''unused''),
      ad_request = \<lambda>route _ path key body.
        Inr \<lparr>rq_provider = pr_name (rr_provider route), rq_key = key, rq_path = path, rq_body = body\<rparr>,
      ad_aggregate = \<lambda>_ _. None, ad_to_openai = \<lambda>_ _ _ _. Inl (ge_new InvalidRequest ''unused'')\<rparr>"

definition sample_caller :: "vk_runtime option \<Rightarrow> caller" where
  "sample_caller vk = \<lparr>cl_vk = vk, cl_tenant = None, cl_unix_ms = 0, cl_mono_ms = 0\<rparr>"

abbreviation sample_slots :: slots where
  "sample_slots \<equiv> fst (from_config_with (sample_config [sample_api_key ''a'' None None]) None [])"

section \<open>Every request is answered\<close>

text \<open>No header of an answer names a number of seconds that no duration holds.\<close>

definition readable_headers :: "world \<Rightarrow> bool" where
  "readable_headers wd \<longleftrightarrow>
     (\<forall>t a rq ur v. wd_send wd t a rq = Inr ur \<longrightarrow> ur_headers ur ''retry-after'' = Some v \<longrightarrow>
        retry_after_header v \<noteq> None)"

lemma bench_for_total: "\<exists>d. bench_for w sample = Some d"
  using bench_for_bounds [of w sample] by blast

lemma hold_out_total: "\<exists>h'. hold_out_refused_seat now jitter failure h route key = Some h'"
  using bench_for_total [of REFUSED_SEAT_BENCH jitter] by (auto simp: hold_out_refused_seat_def Let_def)

lemma translated_response_total:
  "\<exists>h' out. translated_response ad wd t a route key permits is_last ctx ur h = Some (h', out)"
proof -
  have held: "\<exists>h' out. Option.bind (hold_out_refused_seat now jitter failure h route key) (\<lambda>h. Some (f h, g h)) = Some (h', out)"
    for now jitter failure h f and g :: "house \<Rightarrow> attempt_outcome"
    using hold_out_total [of now jitter failure h route key] by auto
  show ?thesis
    unfolding translated_response_def Let_def
    by (auto simp: held split: sum.splits option.splits)
qed

lemma attempt_total:
  assumes "readable_headers wd"
  shows "\<exists>h' out. attempt ad wd t a route rq key permits plan is_last ctx h = Some (h', out)"
proof (cases "wd_send wd t a rq")
  case (Inl err)
  then show ?thesis by (simp add: attempt_def Let_def)
next
  case (Inr ur)
  have after: "\<exists>h' out. after_answer ad wd t a route key permits plan is_last ctx ur h = Some (h', out)" for h
    unfolding after_answer_def Let_def using translated_response_total by (auto split: if_splits)
  have readable: "bench_window kind (ur_headers ur) epoch \<noteq> None" for kind epoch
    using assms Inr by (auto simp: readable_headers_def bench_window_def Let_def split: option.splits)
  have "\<exists>h'. bench_exhausted_seat now epoch jitter (ur_headers ur) status h route key = Some h'"
    for now epoch jitter status h
  proof -
    obtain w where w: "bench_window (pr_kind (rr_provider route)) (ur_headers ur) epoch = Some w"
      using readable by blast
    show ?thesis
    proof (cases w)
      case (Some v)
      with w bench_for_total [of v jitter] show ?thesis by (auto simp: bench_exhausted_seat_def)
    qed (simp add: bench_exhausted_seat_def w)
  qed
  then obtain h2 where
    "(if is_subscription (pr_kind (rr_provider route))
      then bench_exhausted_seat (wd_clock wd t a Benching) (wd_epoch_secs wd t a) (wd_jitter wd t a)
             (ur_headers ur) (ur_status ur)
             (on_breaker (record_answer (wd_clock wd t a Recording) route (ur_status ur))
               (wd_meanwhile wd t a Sending h) route key) route key
      else Some (on_breaker (record_answer (wd_clock wd t a Recording) route (ur_status ur))
               (wd_meanwhile wd t a Sending h) route key)) = Some h2"
    by (metis (full_types))
  with after Inr show ?thesis by (simp add: attempt_def Let_def)
qed

lemma attempts_loop_total:
  assumes "readable_headers wd" "og_outbound og \<noteq> None"
  shows "\<exists>wk' r. attempts_loop ad digest wd tenant plan t last_target route og a n wk = Some (wk', r)"
proof (induction n arbitrary: a wk)
  case (Suc n)
  obtain p slots choice where admitted:
    "pr_admit_key (wd_draw wd t a) digest (live (wk_house wk) route) (hs_slots (wk_house wk))
       (rr_upstream_model route) tenant None (wd_clock wd t a Admitting) = (p, slots, choice)"
    by (metis prod_cases3)
  obtain ob where ob: "og_outbound og = Some ob" using assms(2) by blast
  have tried: "\<exists>wk' r. (case attempt ad wd t a route rq key permits plan is_last ctx h of
        None \<Rightarrow> None
      | Some (h, Serve r) \<Rightarrow> Some (f h, Some (g r))
      | Some (h, Retry err) \<Rightarrow>
          attempts_loop ad digest wd tenant plan t last_target route og (Suc a) n (k h err)) = Some (wk', r)"
    for rq key permits is_last ctx h f g k
    using attempt_total [OF assms(1), of ad t a route rq key permits plan is_last ctx h] Suc.IH
    by (auto split: attempt_outcome.splits)
  show ?case
    using admitted ob tried by (auto simp: attempts_loop.simps(2) Let_def split: option.splits sum.splits)
qed simp

lemma walk_total:
  assumes "readable_headers wd" "\<And>t route. prepare t route \<noteq> None"
    and "\<And>t route og. prepare t route = Some (Ready og) \<Longrightarrow> og_outbound og \<noteq> None"
  shows "\<exists>wk' r. walk_targets prepare ad digest wd tenant plan t routes wk = Some (wk', r)"
proof (induction routes arbitrary: t wk)
  case (Cons route routes)
  obtain what where what: "prepare t route = Some what" using assms(2) by blast
  show ?case
  proof (cases what)
    case (Ready og)
    then have "og_outbound og \<noteq> None" using assms(3) what by blast
    from attempts_loop_total [OF assms(1) this] what Ready Cons.IH show ?thesis
      by (fastforce simp: Let_def split: option.splits)
  qed (use what Cons.IH in simp_all)
qed simp

lemma run_planned_total:
  assumes "readable_headers wd" "\<And>t route. prepare t route \<noteq> None"
    and "\<And>t route og. prepare t route = Some (Ready og) \<Longrightarrow> og_outbound og \<noteq> None"
  shows "\<exists>vk wk r. run_planned prepare ad digest wd store cl requested planned h = Some (vk, wk, r)"
  using walk_total [OF assms]
  by (fastforce simp: run_planned_def Let_def split: sum.splits prod.splits)

lemma rt_plan_answers: "rt_plan drawn drawn' draw t requested \<noteq> None"
  using rt_plan_total [of t requested drawn drawn' draw] by (auto split: if_splits)

text \<open>The bodies the parsers let in, other than those only the fallback reads.\<close>

definition well_read :: "serde \<Rightarrow> inbound_chat \<Rightarrow> bool" where
  "well_read sd ib \<longleftrightarrow>
     (\<exists>body. from_openai sd body = Inr ib \<and> probe (str_unquote sd) body \<noteq> None)
     \<or> (\<exists>body. from_anthropic sd body = Inr ib)
     \<or> (\<exists>body model stream. from_gemini sd body model stream = Inr ib)"

lemma well_read_passes: "well_read sd ib \<Longrightarrow> passthrough_body sd ib m \<noteq> None"
proof -
  assume "well_read sd ib"
  then consider body p where "from_openai sd body = Inr ib" "probe (str_unquote sd) body = Some p"
    | body where "from_anthropic sd body = Inr ib"
    | body model stream where "from_gemini sd body model stream = Inr ib"
    by (auto simp: well_read_def)
  then show ?thesis
  proof cases
    case 1
    then show ?thesis by (auto simp: from_openai_def)
  next
    case 2
    from from_anthropic_carries [OF this, of m] show ?thesis by auto
  next
    case 3
    then show ?thesis by (auto simp: from_gemini_def split: sum.splits)
  qed
qed

lemma prepare_chat_ready:
  assumes "well_read (ad_serde ad) ib"
  shows "prepare_chat encode show_kind ad ib t route \<noteq> None"
    and "prepare_chat encode show_kind ad ib t route = Some (Ready og) \<Longrightarrow> og_outbound og \<noteq> None"
  using well_read_passes [OF assms]
  by (auto simp: prepare_chat_def Let_def split: option.splits sum.splits if_splits)

lemma chat_runs:
  assumes "readable_headers wd" "well_read (ad_serde ad) ib"
  shows "\<exists>vk wk r. run_chat encode show_kind ad digest wd store cl drawn drawn' draw table slots ib = Some (vk, wk, r)"
proof -
  obtain planned where "rt_plan drawn drawn' draw table (ib_model ib) = Some planned"
    using rt_plan_answers by blast
  with run_planned_total [OF assms(1) prepare_chat_ready [OF assms(2)]] show ?thesis
    by (simp add: run_chat_def)
qed


lemma sample_readable: "readable_headers sample_world"
  by (simp add: readable_headers_def sample_world_def)

lemma sample_well_read: "well_read (ad_serde sample_adapters) sample_chat"
proof -
  have serde: "ad_serde sample_adapters = plain_serde" "str_unquote plain_serde = plain_unquote"
    by (simp_all add: sample_adapters_def plain_serde_def)
  show ?thesis
    unfolding well_read_def serde
    by (rule disjI1) (rule exI [of _ sample_body], simp add: from_openai_def serde sample_body_read)
qed

abbreviation sample_run :: "vk_runtime option \<Rightarrow> (vk_runtime option \<times> walk \<times> (gateway_error + response)) option" where
  "sample_run vk \<equiv> run_chat (\<lambda>s. s) (\<lambda>_. ''?'') sample_adapters (\<lambda>s. s) sample_world [] (sample_caller vk)
     (\<lambda>_. 0) (\<lambda>_. 0) 0 sample_table sample_slots sample_chat"

lemma sample_run_answers: "\<exists>vk' wk r. sample_run vk = Some (vk', wk, r)"
  by (rule chat_runs [OF sample_readable sample_well_read])


section \<open>What a request sends\<close>

lemma chat_walked:
  assumes "run_chat encode show_kind ad digest wd store cl drawn drawn' draw table slots ib = Some (vk, wk, r)"
    and "rt_plan drawn drawn' draw table (ib_model ib) = Some (Inr plan)"
  shows "walked ad wd plan (cl_tenant cl) (8 * length (rp_targets plan))
      \<lparr>wk_house = house_of table slots, wk_attempts = 0, wk_last_error = None, wk_sent = []\<rparr> wk (Some r)"
  using chat.run_planned_walked [where planned = "Inr plan", OF _ refl] assms by (simp add: run_chat_def)

lemma relay_walked:
  assumes "run_relay ad minimal digest wd store cl drawn drawn' draw table slots endpoint body = Some (vk, wk, r)"
    and "probe (str_unquote (ad_serde ad)) body = Some p"
    and "rt_plan drawn drawn' draw table (pb_model p) = Some (Inr plan)"
  shows "walked ad wd plan (cl_tenant cl) (8 * length (rp_targets plan))
      \<lparr>wk_house = house_of table slots, wk_attempts = 0, wk_last_error = None, wk_sent = []\<rparr> wk (Some r)"
  using relay.run_planned_walked [where planned = "Inr plan", OF _ refl] assms by (simp add: run_relay_def)

text \<open>
  Property C13.
  A chat request costs at most eight upstream requests per planned target, however large the pools are
  and whatever is configured.
\<close>

theorem a_request_sends_at_most_eight_per_target:
  assumes "run_chat encode show_kind ad digest wd store cl drawn drawn' draw table slots ib = Some (vk, wk, r)"
    and "rt_plan drawn drawn' draw table (ib_model ib) = Some (Inr plan)"
  shows "length (wk_sent wk) \<le> 8 * length (rp_targets plan)"
  using chat_walked [OF assms] by (auto simp: walked_def)

text \<open>
  Property C10.
  A request is sent again only after an answer that calls for it: no answer at all, a \<open>429\<close> or a \<open>5xx\<close>
  where the configuration retries on it, a subscription seat that could not authenticate, or a refusal
  inside the stream of a Codex seat. Any other answer ends the walk.
\<close>

theorem retries_follow_the_configured_answers:
  assumes "run_chat encode show_kind ad digest wd store cl drawn drawn' draw table slots ib = Some (vk, wk, r)"
    and "rt_plan drawn drawn' draw table (ib_model ib) = Some (Inr plan)"
  shows "\<forall>e \<in> set (butlast (wk_sent wk)). worth_it ad wd plan e"
  using chat_walked [OF assms] by (auto simp: walked_def)

text \<open>
  Property C7.
  Every upstream request of a walk rides on an account that serves the target's model and, in a pool
  divided between services, belongs to the caller's service; or on no account where the provider has
  none. This holds whatever the other requests do to the health and the limits of the pool meanwhile.
\<close>

theorem a_request_spends_its_own_accounts:
  assumes "run_chat encode show_kind ad digest wd store cl drawn drawn' draw table slots ib = Some (vk, wk, r)"
    and "rt_plan drawn drawn' draw table (ib_model ib) = Some (Inr plan)"
    and "keeps_pools wd"
  shows "\<forall>e \<in> set (wk_sent wk). spends_own (cl_tenant cl) (house_of table slots) e"
  using chat_walked [OF assms(1, 2)] assms(3) by (auto simp: walked_def)

text \<open>
  Property C8.
  No permit leaks: when a request has been answered by an error, every slot it took is free again, on
  every path; when it has been answered by a response, the slots it still holds are exactly those the
  response carries and gives back when its body ends.
\<close>

theorem permits_are_given_back:
  assumes "run_chat encode show_kind ad digest wd store cl drawn drawn' draw table slots ib = Some (vk, wk, r)"
    and "rt_plan drawn drawn' draw table (ib_model ib) = Some (Inr plan)"
    and "keeps_slots wd"
  shows "case r of
      Inl _ \<Rightarrow> hs_slots (wk_house wk) = slots
    | Inr response \<Rightarrow> hs_slots (release_permits (wk_house wk) (rs_permits response)) = slots"
  using chat_walked [OF assms(1, 2)] assms(3) by (auto simp: walked_def settled_def house_of_def split: sum.splits)

lemma sample_keeps: "keeps_pools sample_world" "keeps_slots sample_world"
  by (simp_all add: keeps_pools_def keeps_slots_def sample_world_def)

lemma sample_case:
  obtains vk wk r plan where "sample_run None = Some (vk, wk, r)"
    "rt_plan (\<lambda>_. 0) (\<lambda>_. 0) 0 sample_table (ib_model sample_chat) = Some (Inr plan)"
proof -
  have "\<exists>plan. rt_plan (\<lambda>_. 0) (\<lambda>_. 0) 0 sample_table (ib_model sample_chat) = Some (Inr plan)"
    using sample_table_plan by simp
  with sample_run_answers [of None] show thesis by (elim exE) (rule that)
qed

theorem a_request_sends_at_most_eight_per_target_witness:
  "\<exists>vk wk r (plan :: route_plan). sample_run None = Some (vk, wk, r) \<and> length (wk_sent wk) \<le> 8 * length (rp_targets plan)"
proof (rule sample_case)
  fix vk wk r plan
  assume run: "sample_run None = Some (vk, wk, r)"
    and plan: "rt_plan (\<lambda>_. 0) (\<lambda>_. 0) 0 sample_table (ib_model sample_chat) = Some (Inr plan)"
  from run a_request_sends_at_most_eight_per_target [OF run plan] show ?thesis
    by (intro exI [of _ vk] exI [of _ wk] exI [of _ r] exI [of _ plan] conjI)
qed

theorem retries_follow_the_configured_answers_witness:
  "\<exists>vk wk r plan. sample_run None = Some (vk, wk, r)
     \<and> (\<forall>e \<in> set (butlast (wk_sent wk)). worth_it sample_adapters sample_world plan e)"
proof (rule sample_case)
  fix vk wk r plan
  assume run: "sample_run None = Some (vk, wk, r)"
    and plan: "rt_plan (\<lambda>_. 0) (\<lambda>_. 0) 0 sample_table (ib_model sample_chat) = Some (Inr plan)"
  from run retries_follow_the_configured_answers [OF run plan] show ?thesis by (intro exI conjI)
qed

theorem a_request_spends_its_own_accounts_witness:
  "\<exists>vk wk r. sample_run None = Some (vk, wk, r)
     \<and> (\<forall>e \<in> set (wk_sent wk). spends_own (cl_tenant (sample_caller None)) (house_of sample_table sample_slots) e)"
proof (rule sample_case)
  fix vk wk r plan
  assume run: "sample_run None = Some (vk, wk, r)"
    and plan: "rt_plan (\<lambda>_. 0) (\<lambda>_. 0) 0 sample_table (ib_model sample_chat) = Some (Inr plan)"
  from run a_request_spends_its_own_accounts [OF run plan sample_keeps(1)] show ?thesis by (intro exI conjI)
qed

theorem permits_are_given_back_witness:
  "\<exists>vk wk r. sample_run None = Some (vk, wk, r)
     \<and> (case r of
          Inl _ \<Rightarrow> hs_slots (wk_house wk) = sample_slots
        | Inr response \<Rightarrow> hs_slots (release_permits (wk_house wk) (rs_permits response)) = sample_slots)"
proof (rule sample_case)
  fix vk wk r plan
  assume run: "sample_run None = Some (vk, wk, r)"
    and plan: "rt_plan (\<lambda>_. 0) (\<lambda>_. 0) 0 sample_table (ib_model sample_chat) = Some (Inr plan)"
  from run permits_are_given_back [OF run plan sample_keeps(2)] show ?thesis by (intro exI conjI)
qed

section \<open>The gate\<close>

definition first_target :: "route_plan \<Rightarrow> string option" where
  "first_target plan =
     (case rp_targets plan of [] \<Rightarrow> None | r # _ \<Rightarrow> Some (pr_name (rr_provider r) @ ''/'' @ rr_upstream_model r))"

lemma vk_admit_exhausted:
  assumes "vk_budget_exhausted store vk ordinal"
  shows "\<exists>vk' deny. vk_admit store vk now ordinal = (vk', Inl deny)"
proof -
  have "vk_budget_exhausted store (vk\<lparr>vk_rpm := a, vk_tpm := b\<rparr>) ordinal" for a b
    using assms by (auto simp: vk_budget_exhausted_def split: option.splits)
  then show ?thesis by (auto simp: vk_admit_def Let_def split: prod.splits)
qed

lemma vk_gate_refuses:
  assumes "\<not> vk_allows_model vk requested (first_target plan)
    \<or> vk_budget_exhausted store vk (vk_period_ordinal vk unix_ms)"
  shows "\<exists>vk' e. vk_gate store vk requested plan unix_ms mono_ms = (vk', Inl e)
    \<and> ge_class e \<in> {Permission, TooManyRequests, InsufficientQuota}"
proof (cases "vk_allows_model vk requested (first_target plan)")
  case False
  then show ?thesis by (auto simp: vk_gate_def Let_def first_target_def ge_with_param_def ge_new_def)
next
  case True
  with assms obtain vk2 deny where "vk_admit store vk mono_ms (vk_period_ordinal vk unix_ms) = (vk2, Inl deny)"
    using vk_admit_exhausted by blast
  with True show ?thesis
    by (cases deny) (auto simp: vk_gate_def Let_def first_target_def ge_new_def)
qed

text \<open>
  Property C11.
  A virtual key whose scope names neither the requested model nor the one it resolves to, or whose budget
  for the period is spent, sends nothing: the request is refused as a permission, rate or quota error
  before any account is charged or any permit taken.
\<close>

theorem a_refused_key_sends_nothing:
  assumes "run_chat encode show_kind ad digest wd store cl drawn drawn' draw table slots ib = Some (vk', wk, r)"
    and "rt_plan drawn drawn' draw table (ib_model ib) = Some (Inr plan)" "cl_vk cl = Some vk"
    and "\<not> vk_allows_model vk (ib_model ib) (first_target plan)
       \<or> vk_budget_exhausted store vk (vk_period_ordinal vk (cl_unix_ms cl))"
  shows "wk_sent wk = [] \<and> wk_house wk = house_of table slots
    \<and> (\<exists>e. r = Inl e \<and> ge_class e \<in> {Permission, TooManyRequests, InsufficientQuota})"
proof -
  obtain vk1 e where gate: "vk_gate store vk (ib_model ib) plan (cl_unix_ms cl) (cl_mono_ms cl) = (vk1, Inl e)"
    "ge_class e \<in> {Permission, TooManyRequests, InsufficientQuota}"
    using vk_gate_refuses [OF assms(4)] by blast
  from assms(1, 2, 3) gate show ?thesis
    by (auto simp: run_chat_def run_planned_def Let_def)
qed

definition spent_vk :: vk_runtime where
  "spent_vk =
     \<lparr>vk_def = (sample_key ''00ff00'' ''s'')\<lparr>vd_budget := Some \<lparr>bu_usd = Finite 0, bu_period = Monthly\<rparr>\<rparr>,
      vk_hash = None, vk_prev = None, vk_rpm = None, vk_tpm = None, vk_spend = 0, vk_shares = 1\<rparr>"

theorem a_refused_key_sends_nothing_witness:
  "\<exists>vk wk r. sample_run (Some spent_vk) = Some (vk, wk, r) \<and> wk_sent wk = []"
proof -
  obtain plan where plan: "rt_plan (\<lambda>_. 0) (\<lambda>_. 0) 0 sample_table (ib_model sample_chat) = Some (Inr plan)"
    by (rule sample_case)
  have spent: "vk_budget_exhausted [] spent_vk (vk_period_ordinal spent_vk (cl_unix_ms (sample_caller (Some spent_vk))))"
    by (simp add: vk_budget_exhausted_def spent_vk_def limit_micro_def)
  obtain vk wk r where run: "sample_run (Some spent_vk) = Some (vk, wk, r)" using sample_run_answers by blast
  from run a_refused_key_sends_nothing [OF run plan _ disjI2 [OF spent]] show ?thesis
    by (simp add: sample_caller_def)
qed

section \<open>Seats out of quota\<close>

lemma breaker_of_set [simp]:
  "i < length (pr_keys p) \<Longrightarrow> kr_breaker (pr_keys (set_breaker p (Some i) b) ! i) = b"
  by (simp add: set_breaker_def pr_set_def)

lemma live_put [simp]: "live (put h route p) route = p"
  by (simp add: live_def put_def)

lemma live_release [simp]: "live (release_permits h permits) route = live h route"
  by (simp add: live_def release_permits_def)

lemma live_on_breaker_keys [simp]: "length (pr_keys (live (on_breaker f h route key) route)) = length (pr_keys (live h route))"
  by (cases key) (simp_all add: on_breaker_def set_breaker_def pr_set_def)

lemma breaker_on_breaker [simp]:
  "i < length (pr_keys (live h route)) \<Longrightarrow>
     kr_breaker (pr_keys (live (on_breaker f h route (Some i)) route) ! i) = f (kr_breaker (pr_keys (live h route) ! i))"
  by (simp add: on_breaker_def breaker_for_def)

lemma bench_breaker_holds:
  assumes "unat now + as_millis d < 2 ^ 64" "unat later < unat now + as_millis d"
  shows "br_is_benched (bench_breaker now d b) later"
proof -
  have ms: "unat (word_of_nat (as_millis d) :: u64) = as_millis d"
    using assms(1) by (simp add: unat_of_nat take_bit_nat_eq_self)
  have "unat (now + word_of_nat (as_millis d)) = unat now + as_millis d"
    using assms(1) unat_add_lem [of now "word_of_nat (as_millis d)"] by (simp add: ms)
  then have "later < now + word_of_nat (as_millis d)" using assms(2) by (simp add: word_less_nat_alt)
  then have "later < max (br_bench_until_ms b) (now + word_of_nat (as_millis d))" by (simp add: less_max_iff_disj)
  then show ?thesis
    by (auto simp: br_is_benched_def bench_breaker_def br_bench_until_def)
qed

lemma after_429_keeps_health:
  assumes "after_answer ad wd t a route key permits plan is_last ctx ur h = Some (h', out)" "ur_status ur = 429"
    and "\<forall>h. wd_meanwhile wd t a Reading h = h"
  shows "live h' route = live h route"
  using assms
  by (auto simp: after_answer_def renews_def translated_response_def is_success_def Let_def split: if_splits)

lemma as_millis_mono: "d \<le> d' \<Longrightarrow> as_millis d \<le> as_millis d'"
  by (simp add: as_millis_def div_le_mono)


text \<open>A pool of one subscription seat, and an answer that is out of quota.\<close>

definition seat_route :: resolved_route where
  "seat_route =
     \<lparr>rr_provider =
        (sample_pool False [sample_key_runtime ''seat'' 1 None None])\<lparr>pr_name := ''claude'', pr_kind := ClaudeSubscription\<rparr>,
      rr_upstream_model = ''opus''\<rparr>"

definition seat_house :: house where
  "seat_house = \<lparr>hs_provider = \<lambda>_. rr_provider seat_route, hs_slots = [0]\<rparr>"

definition seat_world :: "string \<Rightarrow> world" where
  "seat_world v = sample_world\<lparr>wd_send := \<lambda>_ _ _. Inr
     \<lparr>ur_status = 429, ur_headers = [''retry-after'' \<mapsto> v], ur_body = None\<rparr>\<rparr>"

definition seat_plan :: route_plan where
  "seat_plan = \<lparr>rp_targets = [seat_route], rp_max_attempts_per_target = 1, rp_retry_on = []\<rparr>"

definition seat_ctx :: translation_ctx where
  "seat_ctx = \<lparr>tc_passthrough = True, tc_out_dialect = DAnthropic, tc_stream = False, tc_emulated = False\<rparr>"

definition seat_request :: upstream_request where
  "seat_request = \<lparr>rq_provider = ''claude'', rq_key = Some 0, rq_path = ''/v1/messages'', rq_body = []\<rparr>"

lemma retry_after_samples: "retry_after_header ''3311'' = Some (Some (from_secs 3311))"
proof -
  have "trim ''3311'' = ''3311''" by code_simp
  moreover have "from_secs_f64 3311 = Some (from_secs 3311)"
    by (simp add: from_secs_f64_def round_half_even_def from_secs_def)
  ultimately show ?thesis by (simp add: retry_after_header_def parse_f64_samples)
qed


text \<open>
  A header with more seconds than a duration holds is read by a conversion that panics, and the process
  with every request in it is gone.
\<close>

theorem a_large_retry_after_aborts_the_process:
  "attempt sample_adapters (seat_world ''1e20'') 0 0 seat_route seat_request (Some 0) [0] seat_plan True
     seat_ctx seat_house = None"
proof -
  have "bench_window (pr_kind (rr_provider seat_route)) [''retry-after'' \<mapsto> ''1e20''] epoch = None" for epoch
    by (simp add: bench_window_def Let_def retry_after_panics_on_a_large_number(1))
  then show ?thesis
    by (simp add: attempt_def Let_def bench_exhausted_seat_def seat_world_def)
      (simp add: seat_route_def is_subscription_def)
qed

end
