(* ===== verification/Sorted_Map.thy ===== *)
theory Sorted_Map
  imports RR_Prelude "HOL-Library.Multiset"
begin

text \<open>
  The ordered maps of the standard library (\<open>BTreeMap\<close>) as the program uses them to accumulate: an
  association list in ascending order of its keys, updated through the entry of a key. The locale
  states what folding records onto their keys needs of the records; under it the order of the records
  is irrelevant, folding what was folded changes nothing, and every additive measure is conserved.
\<close>

section \<open>Ordered association lists\<close>

definition bt_ok :: "('k :: linorder \<times> 'v) list \<Rightarrow> bool" where
  "bt_ok m = sorted_wrt (<) (map fst m)"

text \<open>\<open>entry(k)\<close> and what becomes of the vacant or the occupied slot.\<close>

fun bt_alter :: "'k :: linorder \<Rightarrow> ('v option \<Rightarrow> 'v) \<Rightarrow> ('k \<times> 'v) list \<Rightarrow> ('k \<times> 'v) list" where
  "bt_alter k f [] = [(k, f None)]"
| "bt_alter k f ((k', v) # m) =
     (if k < k' then (k, f None) # (k', v) # m
      else if k = k' then (k, f (Some v)) # m
      else (k', v) # bt_alter k f m)"

named_theorems bt_intros \<open>preservation of the order of a map\<close>

lemma bt_ok_Nil [bt_intros, simp]: "bt_ok []"
  by (simp add: bt_ok_def)

lemma bt_ok_Cons: "bt_ok ((k, v) # m) \<longleftrightarrow> (\<forall>k' \<in> fst ` set m. k < k') \<and> bt_ok m"
  by (simp add: bt_ok_def)

lemma keys_bt_alter: "fst ` set (bt_alter k f m) = insert k (fst ` set m)"
  by (induction k f m rule: bt_alter.induct) (simp_all add: insert_commute)

lemma bt_ok_alter [bt_intros]: "bt_ok m \<Longrightarrow> bt_ok (bt_alter k f m)"
  by (induction m) (force simp: bt_ok_Cons keys_bt_alter)+

lemma bt_ok_filter [bt_intros]: "bt_ok m \<Longrightarrow> bt_ok (filter P m)"
  by (induction m) (auto simp: bt_ok_def)

lemma bt_absent: "bt_ok m \<Longrightarrow> \<forall>k' \<in> fst ` set m. k < k' \<Longrightarrow> map_of m k = None"
  by (auto simp: map_of_eq_None_iff)

lemma map_of_bt_alter:
  "bt_ok m \<Longrightarrow> map_of (bt_alter k f m) = (map_of m)(k \<mapsto> f (map_of m k))"
proof (induction m)
  case (Cons e m)
  obtain k' v where e: "e = (k', v)" by (cases e)
  have "map_of (e # m) k = None" if "k < k'"
    using Cons.prems that by (intro bt_absent) (auto simp: e bt_ok_Cons)
  with Cons show ?case by (auto simp: e bt_ok_Cons)
qed auto

lemma bt_ok_distinct: "bt_ok m \<Longrightarrow> distinct (map fst m)"
  by (auto simp: bt_ok_def strict_sorted_iff)

lemma bt_ext:
  assumes "bt_ok m" "bt_ok n" "map_of m = map_of n"
  shows "m = n"
proof (rule map_sorted_distinct_set_unique [where f = fst])
  note d = bt_ok_distinct [OF assms(1)] bt_ok_distinct [OF assms(2)]
  show "set m = set n"
    using d assms(3) map_of_inject_set by blast
  then show "inj_on fst (set m \<union> set n)" using d by (simp add: distinct_map)
  show "distinct (map fst m)" "distinct (map fst n)" by (fact d)+
  show "sorted (map fst m)" "sorted (map fst n)"
    using assms by (auto simp: bt_ok_def strict_sorted_iff)
qed

text \<open>Where in the list an entry lands.\<close>

lemma bt_alter_split:
  assumes "bt_ok m"
  obtains (vacant) pre post where "m = pre @ post" "map_of m k = None"
      "bt_alter k f m = pre @ (k, f None) # post"
    | (occupied) pre v post where "m = pre @ (k, v) # post" "map_of m k = Some v"
      "bt_alter k f m = pre @ (k, f (Some v)) # post"
proof -
  have "(\<exists>pre post. m = pre @ post \<and> map_of m k = None \<and> bt_alter k f m = pre @ (k, f None) # post) \<or>
        (\<exists>pre v post. m = pre @ (k, v) # post \<and> map_of m k = Some v \<and>
           bt_alter k f m = pre @ (k, f (Some v)) # post)"
    using assms
  proof (induction m)
    case (Cons e m)
    obtain k' v where e: "e = (k', v)" by (cases e)
    consider "k < k'" | "k = k'" | "k' < k" by fastforce
    then show ?case
    proof cases
      case 1
      with Cons.prems have "map_of (e # m) k = None"
        by (intro bt_absent) (auto simp: e bt_ok_Cons)
      with 1 show ?thesis by (intro disjI1 exI [of _ "[]"] exI [of _ "e # m"]) (simp add: e)
    next
      case 2
      then show ?thesis by (intro disjI2 exI [of _ "[]"]) (auto simp: e)
    next
      case 3
      have "bt_ok m" using Cons.prems by (simp add: e bt_ok_Cons)
      from Cons.IH [OF this] show ?thesis
      proof (elim disjE exE conjE)
        fix pre post assume "m = pre @ post" "map_of m k = None" "bt_alter k f m = pre @ (k, f None) # post"
        with 3 show ?thesis by (intro disjI1 exI [of _ "e # pre"] exI [of _ post]) (auto simp: e)
      next
        fix pre w post assume "m = pre @ (k, w) # post" "map_of m k = Some w"
          "bt_alter k f m = pre @ (k, f (Some w)) # post"
        with 3 show ?thesis
          by (intro disjI2 exI [of _ "e # pre"] exI [of _ w] exI [of _ post]) (auto simp: e)
      qed
    qed
  qed auto
  then show ?thesis using that by blast
qed

lemma filter_bt_alter:
  "bt_ok m \<Longrightarrow> filter (\<lambda>e. P (fst e)) (bt_alter k f m) =
     (if P k then bt_alter k f (filter (\<lambda>e. P (fst e)) m) else filter (\<lambda>e. P (fst e)) m)"
proof (induction m)
  case (Cons e m)
  obtain k' v where e: "e = (k', v)" by (cases e)
  have front: "bt_alter k f m' = (k, f None) # m'" if "\<forall>x \<in> set m'. k < fst x" for m'
    using that by (cases m') auto
  have "\<forall>x \<in> set (filter (\<lambda>e. P (fst e)) m). k' < fst x" using Cons.prems by (auto simp: e bt_ok_Cons)
  then have "k < k' \<Longrightarrow> \<forall>x \<in> set (filter (\<lambda>e. P (fst e)) m). k < fst x" by auto
  with Cons front show ?case by (auto simp: e bt_ok_Cons)
qed simp

lemma bt_alter_Nil_iff [simp]: "bt_alter k f m \<noteq> []"
  by (induction k f m rule: bt_alter.induct) simp_all

lemma map_of_filter_key: "map_of (filter (\<lambda>e. P (fst e)) m) k = (if P k then map_of m k else None)"
  by (induction m) auto

section \<open>Folds that may be reordered\<close>

lemma foldl_any_order:
  assumes commute: "\<And>s x y. I s \<Longrightarrow> adm x \<Longrightarrow> adm y \<Longrightarrow> f (f s x) y = f (f s y) x"
    and keep: "\<And>s x. I s \<Longrightarrow> adm x \<Longrightarrow> I (f s x)"
  shows "I s \<Longrightarrow> \<forall>x \<in> set xs. adm x \<Longrightarrow> mset xs = mset ys \<Longrightarrow> foldl f s xs = foldl f s ys"
proof (induction xs arbitrary: s ys)
  case (Cons x xs)
  have front: "foldl f s (x # bs) = foldl f s (as @ x # cs)"
    if "bs = as @ cs" "I s" "\<forall>a \<in> set as. adm a" "adm x" for s as bs cs
    using that by (induction as arbitrary: s bs) (auto simp: commute keep)
  from Cons.prems obtain as cs where ys: "ys = as @ x # cs"
    by (metis list.set_intros(1) mset_eq_setD split_list)
  with Cons.prems have rest: "mset xs = mset (as @ cs)" by simp
  then have adm: "\<forall>a \<in> set (as @ cs). adm a" using Cons.prems using mset_eq_setD [OF rest] by auto
  have "I (f s x)" "\<forall>a \<in> set xs. adm a" using Cons.prems keep by auto
  from Cons.IH [OF this rest] have "foldl f (f s x) xs = foldl f (f s x) (as @ cs)" .
  with front [of "as @ cs" as cs s] adm Cons.prems ys show ?case by auto
qed simp

section \<open>Accumulating records by key\<close>

locale accumulator =
  fixes key :: "'v \<Rightarrow> 'k :: linorder" and absorb :: "'v \<Rightarrow> 'v \<Rightarrow> 'v" and ok :: "'v \<Rightarrow> bool"
  assumes key_absorb: "key (absorb a b) = key a"
    and ok_absorb: "ok a \<Longrightarrow> ok b \<Longrightarrow> ok (absorb a b)"
    and absorb_commute: "ok a \<Longrightarrow> ok b \<Longrightarrow> key a = key b \<Longrightarrow> absorb a b = absorb b a"
    and absorb_assoc: "ok a \<Longrightarrow> ok b \<Longrightarrow> ok c \<Longrightarrow> absorb (absorb a b) c = absorb a (absorb b c)"
begin

definition pour :: "('k \<times> 'v) list \<Rightarrow> 'v \<Rightarrow> ('k \<times> 'v) list" where
  "pour m r = bt_alter (key r) (\<lambda>slot. case slot of None \<Rightarrow> r | Some x \<Rightarrow> absorb x r) m"

definition good :: "('k \<times> 'v) list \<Rightarrow> bool" where
  "good m \<longleftrightarrow> bt_ok m \<and> (\<forall>k v. map_of m k = Some v \<longrightarrow> key v = k \<and> ok v)"

lemma good_Nil [simp]: "good []"
  by (simp add: good_def)

lemma map_of_pour:
  "good m \<Longrightarrow> map_of (pour m r) =
     (map_of m)(key r \<mapsto> (case map_of m (key r) of None \<Rightarrow> r | Some x \<Rightarrow> absorb x r))"
  by (simp add: pour_def good_def map_of_bt_alter)

lemma goodD: "good m \<Longrightarrow> map_of m k = Some v \<Longrightarrow> key v = k \<and> ok v"
  by (simp add: good_def)

lemma good_bt_ok [simp]: "good m \<Longrightarrow> bt_ok m"
  by (simp add: good_def)

lemma good_pour:
  assumes "good m" "ok r"
  shows "good (pour m r)"
  unfolding good_def
proof (intro conjI allI impI)
  show "bt_ok (pour m r)" using assms by (simp add: pour_def bt_ok_alter)
  fix k v assume "map_of (pour m r) k = Some v"
  then show "key v = k" "ok v"
    using assms by (auto simp: map_of_pour key_absorb ok_absorb dest: goodD split: if_splits option.splits)
qed

lemma absorb_swap:
  assumes "ok x" "ok a" "ok b" "key a = key b"
  shows "absorb (absorb x a) b = absorb (absorb x b) a"
  using assms by (simp add: absorb_assoc absorb_commute [of a b])

lemma pour_commute:
  assumes "good m" "ok a" "ok b"
  shows "pour (pour m a) b = pour (pour m b) a"
proof (rule bt_ext)
  note g = good_pour [OF assms(1,2)] good_pour [OF assms(1,3)]
  show "bt_ok (pour (pour m a) b)" "bt_ok (pour (pour m b) a)"
    using g assms(2,3) by (simp_all add: good_pour)
  show "map_of (pour (pour m a) b) = map_of (pour (pour m b) a)"
  proof (cases "key a = key b")
    case True
    show ?thesis
    proof (cases "map_of m (key b)")
      case None
      with True g assms absorb_commute [OF assms(2,3) True] show ?thesis by (simp add: map_of_pour)
    next
      case (Some x)
      then have "ok x" using assms(1) goodD by blast
      from absorb_swap [OF this assms(2,3) True] True g assms Some show ?thesis by (simp add: map_of_pour)
    qed
  next
    case False
    then have "key b \<noteq> key a" by simp
    with False g assms(1) show ?thesis by (simp add: map_of_pour fun_upd_twist)
  qed
qed

lemma good_pours: "good m \<Longrightarrow> \<forall>r \<in> set rows. ok r \<Longrightarrow> good (foldl pour m rows)"
  by (induction rows arbitrary: m) (auto simp: good_pour)

theorem any_order:
  assumes "good m" "\<forall>r \<in> set rows. ok r" "mset rows = mset rows'"
  shows "foldl pour m rows = foldl pour m rows'"
  by (rule foldl_any_order [where I = good and adm = ok]) (use assms pour_commute good_pour in auto)

lemma pour_absorbed:
  assumes "good m" "ok a" "ok b" "key a = key b"
  shows "pour m (absorb a b) = pour (pour m a) b"
proof (rule bt_ext)
  note g = good_pour [OF assms(1,2)] good_pour [OF assms(1) ok_absorb [OF assms(2,3)]]
  show "bt_ok (pour m (absorb a b))" "bt_ok (pour (pour m a) b)"
    using g assms(3) by (simp_all add: good_pour)
  show "map_of (pour m (absorb a b)) = map_of (pour (pour m a) b)"
  proof (cases "map_of m (key b)")
    case None
    with g assms show ?thesis by (simp add: map_of_pour key_absorb)
  next
    case (Some x)
    then have "ok x" using assms(1) goodD by blast
    then have "absorb (absorb x a) b = absorb x (absorb a b)" using assms absorb_assoc by blast
    with Some g assms show ?thesis by (simp add: map_of_pour key_absorb)
  qed
qed

text \<open>Pouring a map that took one more record is pouring the map and then the record.\<close>

lemma pours_pour:
  assumes m: "good m" and n: "good n" and r: "ok r"
  shows "foldl pour m (map snd (pour n r)) = pour (foldl pour m (map snd n)) r"
proof -
  have okn: "ok v" if "(k, v) \<in> set n" for k v
    using goodD [OF n] n bt_ok_distinct [of n] that by simp
  have "bt_ok n" using n by (simp add: good_def)
  then show ?thesis
  proof (cases rule: bt_alter_split [where k = "key r" and f = "\<lambda>slot. case slot of None \<Rightarrow> r | Some x \<Rightarrow> absorb x r"])
    case (vacant pre post)
    have "foldl pour m (map snd (pour n r)) = foldl pour m (map snd n @ [r])"
      by (rule any_order) (use m r okn vacant in \<open>auto simp: pour_def intro: okn\<close>)
    then show ?thesis by simp
  next
    case (occupied pre v post)
    have v: "ok v" "key v = key r" using occupied n by (auto simp: good_def)
    have okpp: "\<forall>x \<in> set (map snd pre @ map snd post). ok x" using occupied by (auto intro: okn)
    have "foldl pour m (map snd (pour n r)) = foldl pour m (map snd pre @ map snd post @ [absorb v r])"
      by (rule any_order) (use m r v okpp ok_absorb occupied in \<open>auto simp: pour_def\<close>)
    also have "\<dots> = pour (foldl pour m (map snd pre @ map snd post)) (absorb v r)" by simp
    also have "\<dots> = pour (pour (foldl pour m (map snd pre @ map snd post)) v) r"
      by (rule pour_absorbed) (use m r v okpp good_pours in auto)
    also have "pour (foldl pour m (map snd pre @ map snd post)) v = foldl pour m (map snd pre @ map snd post @ [v])"
      by simp
    also have "\<dots> = foldl pour m (map snd n)"
      by (rule any_order) (use m v okpp occupied in auto)
    finally show ?thesis .
  qed
qed

text \<open>Folding rows that were already folded is folding them once.\<close>

theorem fold_twice:
  assumes "good m" "\<forall>r \<in> set rows. ok r"
  shows "foldl pour m (map snd (foldl pour [] rows)) = foldl pour m rows"
  using assms(2)
proof (induction rows rule: rev_induct)
  case (snoc r rows)
  then show ?case using pours_pour [of m "foldl pour [] rows" r] assms(1) good_pours [of "[]" rows] by simp
qed simp

text \<open>Restricting to some of the keys can be done before or after.\<close>

lemma good_filter: "good m \<Longrightarrow> good (filter (\<lambda>e. P (fst e)) m)"
  by (auto simp: good_def bt_ok_filter map_of_filter_key)

lemma filter_pours:
  "good m \<Longrightarrow> \<forall>r \<in> set rows. ok r \<Longrightarrow>
     filter (\<lambda>e. P (fst e)) (foldl pour m rows) =
     foldl pour (filter (\<lambda>e. P (fst e)) m) (filter (\<lambda>r. P (key r)) rows)"
proof (induction rows arbitrary: m)
  case (Cons r rows)
  then show ?case using Cons.IH [OF good_pour [OF Cons.prems(1)], of r] filter_bt_alter [of m P]
    by (auto simp: pour_def)
qed simp

lemma filter_folded:
  assumes "\<forall>r \<in> set rows. ok r"
  shows "filter (\<lambda>r. P (key r)) (map snd (foldl pour [] rows)) = map snd (foldl pour [] (filter (\<lambda>r. P (key r)) rows))"
proof -
  have g: "good (foldl pour [] rows)" using assms good_pours by simp
  have "P (key (snd e)) = P (fst e)" if "e \<in> set (foldl pour [] rows)" for e
    using goodD [OF g] bt_ok_distinct [of "foldl pour [] rows"] g that by (cases e) auto
  then have "filter (\<lambda>r. P (key r)) (map snd (foldl pour [] rows)) = map snd (filter (\<lambda>e. P (fst e)) (foldl pour [] rows))"
    unfolding filter_map by (intro arg_cong [where f = "map snd"] filter_cong) auto
  then show ?thesis using filter_pours [OF good_Nil assms, of P] by simp
qed

text \<open>An additive measure of the rows is conserved, restricted to any set of keys.\<close>

lemma conserved_pour:
  fixes w :: "'v \<Rightarrow> 'c :: comm_monoid_add"
  assumes "\<And>a b. w (absorb a b) = w a + w b" and "good m"
  shows "sum_list (map w (filter (\<lambda>v. P (key v)) (map snd (pour m r)))) =
    sum_list (map w (filter (\<lambda>v. P (key v)) (map snd m))) + (if P (key r) then w r else 0)"
proof -
  have "bt_ok m" using assms by (simp add: good_def)
  then show ?thesis
  proof (cases rule: bt_alter_split [where k = "key r" and f = "\<lambda>slot. case slot of None \<Rightarrow> r | Some x \<Rightarrow> absorb x r"])
    case (vacant pre post)
    then show ?thesis by (simp add: pour_def ac_simps)
  next
    case (occupied pre v post)
    then have "key v = key r" using assms(2) by (auto simp: good_def)
    with occupied show ?thesis by (simp add: pour_def assms(1) key_absorb ac_simps)
  qed
qed

theorem conserved:
  fixes w :: "'v \<Rightarrow> 'c :: comm_monoid_add"
  assumes "\<And>a b. w (absorb a b) = w a + w b" and "\<forall>r \<in> set rows. ok r"
  shows "sum_list (map w (filter (\<lambda>v. P (key v)) (map snd (foldl pour [] rows)))) =
    sum_list (map w (filter (\<lambda>v. P (key v)) rows))"
  using assms(2)
proof (induction rows rule: rev_induct)
  case (snoc r rows)
  then show ?case using conserved_pour [of w "foldl pour [] rows" P r] assms(1) good_pours [of "[]" rows]
    by simp
qed simp

end

end
