(* ===== verification/Usage_Tokens.thy ===== *)
theory Usage_Tokens
  imports Inbound_Chat Sorted_Map
begin

text \<open>
  What a response cost: token counts out of the bodies and streams of every dialect, and prices
  (\<open>crates/router-server/src/usage.rs\<close>, from \<open>TokenUsage\<close> to \<open>Pricing\<close>). The parser of JSON text is a
  parameter. Prices are rationals; a product or a sum beyond the finite range is not met by prices that
  passed validation.
\<close>

section \<open>Token counts\<close>

record token_usage =
  tu_input :: u64
  tu_output :: u64
  tu_cached :: u64

definition tu_default :: token_usage where
  "tu_default = \<lparr>tu_input = 0, tu_output = 0, tu_cached = 0\<rparr>"

definition tu_total :: "token_usage \<Rightarrow> u64" where
  "tu_total t = tu_input t + tu_output t"

definition tu_billable :: "token_usage \<Rightarrow> u64" where
  "tu_billable t = u64_saturating_sub (tu_input t) (tu_cached t) + tu_output t"

definition tu_is_empty :: "token_usage \<Rightarrow> bool" where
  "tu_is_empty t \<longleftrightarrow> tu_input t = 0 \<and> tu_output t = 0"

definition tu_merge_max :: "token_usage \<Rightarrow> token_usage \<Rightarrow> token_usage" where
  "tu_merge_max t other =
     \<lparr>tu_input = max (tu_input t) (tu_input other),
      tu_output = max (tu_output t) (tu_output other),
      tu_cached = max (tu_cached t) (tu_cached other)\<rparr>"

definition u_of :: "json \<Rightarrow> u64" where
  "u_of v = (case js_as_u64 v of Some n \<Rightarrow> n | None \<Rightarrow> 0)"

fun is_object :: "json \<Rightarrow> bool" where
  "is_object (JObject _) = True"
| "is_object _ = False"

definition js_path :: "json \<Rightarrow> string list \<Rightarrow> json" where
  "js_path v keys = foldl js_index v keys"

definition openai_usage :: "json \<Rightarrow> token_usage" where
  "openai_usage v =
     (let usage = (if is_object (js_index v ''usage'') then js_index v ''usage'' else js_path v [''response'', ''usage''])
      in \<lparr>tu_input = max (u_of (js_index usage ''prompt_tokens'')) (u_of (js_index usage ''input_tokens'')),
          tu_output = max (u_of (js_index usage ''completion_tokens'')) (u_of (js_index usage ''output_tokens'')),
          tu_cached = max (u_of (js_path usage [''prompt_tokens_details'', ''cached_tokens'']))
                          (u_of (js_path usage [''input_tokens_details'', ''cached_tokens'']))\<rparr>)"

fun usage_from_value :: "dialect \<Rightarrow> json \<Rightarrow> token_usage" where
  "usage_from_value DOpenAi v = openai_usage v"
| "usage_from_value CodexResponses v = openai_usage v"
| "usage_from_value DAnthropic v =
     (let usage = (if is_object (js_index v ''usage'') then js_index v ''usage'' else js_path v [''message'', ''usage''])
      in \<lparr>tu_input = u_of (js_index usage ''input_tokens''),
          tu_output = u_of (js_index usage ''output_tokens''),
          tu_cached = u_of (js_index usage ''cache_read_input_tokens'')\<rparr>)"
| "usage_from_value DGemini v =
     \<lparr>tu_input = u_of (js_path v [''usageMetadata'', ''promptTokenCount'']),
      tu_output = u_of (js_path v [''usageMetadata'', ''candidatesTokenCount'']),
      tu_cached = u_of (js_path v [''usageMetadata'', ''cachedContentTokenCount''])\<rparr>"
| "usage_from_value DBedrock v =
     \<lparr>tu_input = u_of (js_path v [''usage'', ''inputTokens'']),
      tu_output = u_of (js_path v [''usage'', ''outputTokens'']),
      tu_cached = u_of (js_path v [''usage'', ''cacheReadInputTokens''])\<rparr>"

text \<open>\<open>str::contains\<close> and \<open>memmem::find\<close>.\<close>

fun contains :: "string \<Rightarrow> string \<Rightarrow> bool" where
  "contains [] needle = (needle = [])"
| "contains (c # s) needle = (starts_with needle (c # s) \<or> contains s needle)"

definition extract_sync :: "serde \<Rightarrow> dialect \<Rightarrow> string \<Rightarrow> token_usage" where
  "extract_sync sd dialect body =
     (if \<not> contains body ''usage'' \<and> \<not> contains body ''usageMetadata'' then tu_default
      else case from_slice sd body of Inl _ \<Rightarrow> tu_default | Inr v \<Rightarrow> usage_from_value dialect v)"

text \<open>The scanner of a stream is its dialect and the largest counts seen so far.\<close>

definition on_event_data :: "serde \<Rightarrow> dialect \<Rightarrow> token_usage \<Rightarrow> string \<Rightarrow> token_usage" where
  "on_event_data sd dialect seen data =
     (if \<not> contains data ''usage'' \<and> \<not> contains data ''usageMetadata'' then seen
      else case from_slice sd data of
        Inl _ \<Rightarrow> seen
      | Inr v \<Rightarrow> tu_merge_max seen (usage_from_value dialect v))"

definition scan_events :: "serde \<Rightarrow> dialect \<Rightarrow> string list \<Rightarrow> token_usage" where
  "scan_events sd dialect events = foldl (on_event_data sd dialect) tu_default events"

section \<open>Prices\<close>

definition BUILTIN_PRICES :: "(string \<times> rat \<times> rat) list" where
  "BUILTIN_PRICES =
    [(''gpt-5-nano'', 5 / 100, 4 / 10),
     (''gpt-5-mini'', 25 / 100, 2),
     (''gpt-5-codex'', 125 / 100, 10),
     (''gpt-5-chat'', 125 / 100, 10),
     (''gpt-5'', 125 / 100, 10),
     (''gpt-4.1-nano'', 1 / 10, 4 / 10),
     (''gpt-4.1-mini'', 4 / 10, 16 / 10),
     (''gpt-4.1'', 2, 8),
     (''gpt-4o-mini'', 15 / 100, 6 / 10),
     (''gpt-4o'', 25 / 10, 10),
     (''gpt-4-turbo'', 10, 30),
     (''gpt-3.5-turbo'', 5 / 10, 15 / 10),
     (''o4-mini'', 11 / 10, 44 / 10),
     (''o3-mini'', 11 / 10, 44 / 10),
     (''o3-pro'', 20, 80),
     (''o3'', 2, 8),
     (''o1-mini'', 11 / 10, 44 / 10),
     (''o1-pro'', 150, 600),
     (''o1'', 15, 60),
     (''text-embedding-3-large'', 13 / 100, 0),
     (''text-embedding-3-small'', 2 / 100, 0),
     (''claude-haiku-4-5'', 1, 5),
     (''claude-3-5-haiku'', 8 / 10, 4),
     (''claude-3-haiku'', 25 / 100, 125 / 100),
     (''claude-haiku'', 1, 5),
     (''claude-sonnet-4-5'', 3, 15),
     (''claude-3-7-sonnet'', 3, 15),
     (''claude-3-5-sonnet'', 3, 15),
     (''claude-sonnet'', 3, 15),
     (''claude-opus-4-1'', 15, 75),
     (''claude-opus-4'', 15, 75),
     (''claude-3-opus'', 15, 75),
     (''claude-opus'', 15, 75),
     (''gemini-2.5-flash-lite'', 1 / 10, 4 / 10),
     (''gemini-2.5-flash'', 3 / 10, 25 / 10),
     (''gemini-2.5-pro'', 125 / 100, 10),
     (''gemini-2.0-flash-lite'', 75 / 1000, 3 / 10),
     (''gemini-2.0-flash'', 1 / 10, 4 / 10),
     (''gemini-1.5-flash'', 75 / 1000, 3 / 10),
     (''gemini-1.5-pro'', 125 / 100, 5),
     (''gemini-flash-lite'', 1 / 10, 4 / 10),
     (''gemini-flash'', 3 / 10, 25 / 10),
     (''gemini-pro'', 125 / 100, 10),
     (''llama-3.3-70b'', 59 / 100, 79 / 100),
     (''llama-3.1-405b'', 35 / 10, 35 / 10),
     (''llama-3.1-70b'', 59 / 100, 79 / 100),
     (''llama-3.1-8b'', 5 / 100, 8 / 100),
     (''mistral-large'', 2, 6),
     (''mistral-small'', 2 / 10, 6 / 10),
     (''mixtral-8x7b'', 24 / 100, 24 / 100),
     (''deepseek-reasoner'', 55 / 100, 219 / 100),
     (''deepseek-chat'', 27 / 100, 11 / 10),
     (''grok-4'', 3, 15),
     (''grok-3-mini'', 3 / 10, 5 / 10),
     (''grok-3'', 3, 15)]"

record pricing =
  pg_overrides :: "string \<rightharpoonup> price"
  pg_catalog :: "(string \<times> price) list"

definition pg_from_config :: "config \<Rightarrow> pricing" where
  "pg_from_config cf = \<lparr>pg_overrides = cf_pricing cf, pg_catalog = []\<rparr>"

definition pg_with_catalog :: "pricing \<Rightarrow> (string \<times> price) list \<Rightarrow> pricing" where
  "pg_with_catalog pg catalog = \<lparr>pg_overrides = pg_overrides pg, pg_catalog = catalog\<rparr>"

definition catalog_len :: "pricing \<Rightarrow> nat" where
  "catalog_len pg = length (pg_catalog pg)"

text \<open>\<open>Iterator::max_by_key\<close>: of equal keys the last wins.\<close>

fun max_by_key :: "('a \<Rightarrow> nat) \<Rightarrow> 'a list \<Rightarrow> 'a option" where
  "max_by_key f [] = None"
| "max_by_key f (x # xs) =
     (case max_by_key f xs of None \<Rightarrow> Some x | Some y \<Rightarrow> Some (if f x \<le> f y then y else x))"

definition bare_id :: "string \<Rightarrow> string" where
  "bare_id entry = last (split_on (CHR ''/'') entry)"

definition catalog_match :: "pricing \<Rightarrow> string \<Rightarrow> (string \<times> price) option" where
  "catalog_match pg model =
     max_by_key (\<lambda>(entry, _). length (bare_id entry))
       (filter (\<lambda>(entry, _). bare_id entry \<noteq> [] \<and> contains model (bare_id entry)) (pg_catalog pg))"

definition builtin_match :: "string \<Rightarrow> (string \<times> rat \<times> rat) option" where
  "builtin_match model =
     max_by_key (\<lambda>(needle, _). length needle) (filter (\<lambda>(needle, _). contains model needle) BUILTIN_PRICES)"

definition price_for :: "pricing \<Rightarrow> string \<Rightarrow> string \<Rightarrow> price option" where
  "price_for pg provider model =
     (let full = provider @ ''/'' @ model in
      case pg_overrides pg full of Some p \<Rightarrow> Some p | None \<Rightarrow>
     (case pg_overrides pg model of Some p \<Rightarrow> Some p | None \<Rightarrow>
     (case map_of (pg_catalog pg) model of Some p \<Rightarrow> Some p | None \<Rightarrow>
     (case map_of (pg_catalog pg) full of Some p \<Rightarrow> Some p | None \<Rightarrow>
     (case catalog_match pg model of Some (_, p) \<Rightarrow> Some p | None \<Rightarrow>
      map_option (\<lambda>(_, i, out). \<lparr>pc_input_per_mtok = Finite i, pc_output_per_mtok = Finite out\<rparr>)
        (builtin_match model))))))"

text \<open>\<open>parse_catalog\<close>; \<open>parse\<close> is the parser of \<open>serde_json\<close> into a map, in key order.\<close>

definition catalog_entry :: "string \<times> json \<Rightarrow> (string \<times> price) option" where
  "catalog_entry e =
     (case (Option.bind (js_get (snd e) ''input_cost_per_token'') js_as_f64,
            Option.bind (js_get (snd e) ''output_cost_per_token'') js_as_f64) of
        (Some i, Some out) \<Rightarrow>
          Some (fst e, \<lparr>pc_input_per_mtok = f64_of_rat (i * 1000000), pc_output_per_mtok = f64_of_rat (out * 1000000)\<rparr>)
      | _ \<Rightarrow> None)"

definition parse_catalog ::
    "(string \<Rightarrow> string + (string \<times> json) list) \<Rightarrow> string \<Rightarrow> string + (string \<times> price) list" where
  "parse_catalog parse body =
     (case parse body of Inl err \<Rightarrow> Inl err | Inr raw \<Rightarrow> Inr (List.map_filter catalog_entry raw))"

fun f64_times :: "nat \<Rightarrow> f64 \<Rightarrow> f64" where
  "f64_times n (Finite q) = f64_of_rat (of_nat n * q)"
| "f64_times n x = (if n = 0 then NaN else x)"

fun f64_plus :: "f64 \<Rightarrow> f64 \<Rightarrow> f64" where
  "f64_plus (Finite p) (Finite q) = f64_of_rat (p + q)"
| "f64_plus (Finite p) x = x"
| "f64_plus Infinity NegInfinity = NaN"
| "f64_plus NegInfinity Infinity = NaN"
| "f64_plus Infinity NaN = NaN"
| "f64_plus NegInfinity NaN = NaN"
| "f64_plus x _ = x"

text \<open>\<open>.round() as u64\<close>, half away from zero, of a number that is not negative.\<close>

definition f64_round_u64 :: "f64 \<Rightarrow> u64" where
  "f64_round_u64 x =
     (case x of
        Finite q \<Rightarrow> word_of_int (min (max \<lfloor>q + 1 / 2\<rfloor> 0) (2 ^ 64 - 1))
      | Infinity \<Rightarrow> - 1
      | _ \<Rightarrow> 0)"

definition cost_micro_usd :: "pricing \<Rightarrow> string \<Rightarrow> string \<Rightarrow> token_usage \<Rightarrow> u64" where
  "cost_micro_usd pg provider model usage =
     (case price_for pg provider model of
        None \<Rightarrow> 0
      | Some p \<Rightarrow>
          let micro = f64_plus (f64_times (unat (tu_input usage)) (pc_input_per_mtok p))
                               (f64_times (unat (tu_output usage)) (pc_output_per_mtok p))
          in f64_round_u64 (f64_max micro (Finite 0)))"

section \<open>What the scanner of a stream finds\<close>

definition event_usage :: "serde \<Rightarrow> dialect \<Rightarrow> string \<Rightarrow> token_usage" where
  "event_usage sd dialect data = on_event_data sd dialect tu_default data"

lemma tu_merge_max_default [simp]: "tu_merge_max tu_default t = t" "tu_merge_max t tu_default = t"
  by (simp_all add: tu_merge_max_def tu_default_def max_def)

lemma on_event_data_merges: "on_event_data sd dialect seen data = tu_merge_max seen (event_usage sd dialect data)"
  by (simp add: event_usage_def on_event_data_def split: sum.splits)

lemma foldl_max: "foldl max a xs = Max (insert a (set (xs :: u64 list)))"
proof (induction xs arbitrary: a)
  case (Cons x xs)
  have "Max (insert (max a x) (set xs)) = Max (insert a (insert x (set xs)))"
    by (cases "set xs = {}") (simp_all add: max.assoc)
  with Cons show ?case by simp
qed simp

lemma foldl_merge_max:
  "foldl tu_merge_max t us =
     \<lparr>tu_input = foldl max (tu_input t) (map tu_input us),
      tu_output = foldl max (tu_output t) (map tu_output us),
      tu_cached = foldl max (tu_cached t) (map tu_cached us)\<rparr>"
  by (induction us arbitrary: t) (simp_all add: tu_merge_max_def)

lemma scan_events_merge: "scan_events sd dialect events = foldl tu_merge_max tu_default (map (event_usage sd dialect) events)"
proof -
  have "foldl (on_event_data sd dialect) t events = foldl tu_merge_max t (map (event_usage sd dialect) events)" for t
    by (induction events arbitrary: t) (simp_all add: on_event_data_merges)
  then show ?thesis by (simp add: scan_events_def)
qed

text \<open>
  Providers repeat their counts cumulatively and in any order: each count of a stream is
  the largest any of its events reports, so neither repeating nor reordering events changes the charge.
\<close>

theorem a_stream_is_charged_its_largest_counts:
  "scan_events sd dialect events =
     \<lparr>tu_input = Max (insert 0 (tu_input ` event_usage sd dialect ` set events)),
      tu_output = Max (insert 0 (tu_output ` event_usage sd dialect ` set events)),
      tu_cached = Max (insert 0 (tu_cached ` event_usage sd dialect ` set events))\<rparr>"
  by (simp add: scan_events_merge foldl_merge_max foldl_max tu_default_def image_image)

section \<open>Which price applies\<close>

lemma max_by_key_None [simp]: "max_by_key f xs = None \<longleftrightarrow> xs = []"
  by (cases xs) (auto split: option.splits)

lemma max_by_key_max: "max_by_key f xs = Some y \<Longrightarrow> y \<in> set xs \<and> (\<forall>x \<in> set xs. f x \<le> f y)"
proof (induction xs arbitrary: y)
  case (Cons x xs)
  show ?case
  proof (cases "max_by_key f xs")
    case None
    with Cons.prems show ?thesis by simp
  next
    case (Some z)
    from Cons.IH [OF this] Cons.prems Some show ?thesis
      by (auto split: if_splits dest: order.trans)
  qed
qed simp

text \<open>
  An operator's own price is never overridden: with an entry for the provider and the model
  the cost is that entry's, and without one, a model the catalog does not know is charged at the
  longest name of the built-in table that it contains.
\<close>

theorem prices_in_order_of_precedence:
  "(\<forall>p. pg_overrides pg (provider @ ''/'' @ model) = Some p \<longrightarrow> price_for pg provider model = Some p) \<and>
   (pg_overrides pg = Map.empty \<longrightarrow> pg_catalog pg = [] \<longrightarrow>
     (case price_for pg provider model of
        None \<Rightarrow> \<forall>(needle, _) \<in> set BUILTIN_PRICES. \<not> contains model needle
      | Some p \<Rightarrow> \<exists>(needle, i, out) \<in> set BUILTIN_PRICES.
          contains model needle \<and> p = \<lparr>pc_input_per_mtok = Finite i, pc_output_per_mtok = Finite out\<rparr> \<and>
          (\<forall>(other, _) \<in> set BUILTIN_PRICES. contains model other \<longrightarrow> length other \<le> length needle)))"
proof (intro conjI impI allI)
  show "pg_overrides pg (provider @ ''/'' @ model) = Some p \<Longrightarrow> price_for pg provider model = Some p" for p
    by (simp add: price_for_def)
next
  assume none: "pg_overrides pg = Map.empty" "pg_catalog pg = []"
  have eq: "price_for pg provider model =
      map_option (\<lambda>(_, i, out). \<lparr>pc_input_per_mtok = Finite i, pc_output_per_mtok = Finite out\<rparr>) (builtin_match model)"
    by (simp add: price_for_def catalog_match_def none)
  show "case price_for pg provider model of
        None \<Rightarrow> \<forall>(needle, _) \<in> set BUILTIN_PRICES. \<not> contains model needle
      | Some p \<Rightarrow> \<exists>(needle, i, out) \<in> set BUILTIN_PRICES.
          contains model needle \<and> p = \<lparr>pc_input_per_mtok = Finite i, pc_output_per_mtok = Finite out\<rparr> \<and>
          (\<forall>(other, _) \<in> set BUILTIN_PRICES. contains model other \<longrightarrow> length other \<le> length needle)"
  proof (cases "builtin_match model")
    case None
    then show ?thesis by (auto simp: eq builtin_match_def filter_empty_conv)
  next
    case (Some e)
    from max_by_key_max [OF this [unfolded builtin_match_def]] Some show ?thesis
      by (cases e) (force simp: eq)
  qed
qed

definition sample_pricing :: pricing where
  "sample_pricing =
     \<lparr>pg_overrides = [''openai/gpt-4o'' \<mapsto> \<lparr>pc_input_per_mtok = Finite 1, pc_output_per_mtok = Finite 2\<rparr>],
      pg_catalog = [(''gpt-4o'', \<lparr>pc_input_per_mtok = Finite 9, pc_output_per_mtok = Finite 9\<rparr>)]\<rparr>"

theorem prices_in_order_of_precedence_witness:
  "price_for sample_pricing ''openai'' ''gpt-4o'' = Some \<lparr>pc_input_per_mtok = Finite 1, pc_output_per_mtok = Finite 2\<rparr>"
  using prices_in_order_of_precedence [of sample_pricing "''openai''" "''gpt-4o''"]
  by (simp add: sample_pricing_def)

end
