(* ===== verification/Histogram.thy ===== *)
theory Histogram
  imports Sorted_Map
begin

text \<open>
  Latency distributions that survive being summed: \<open>crates/router-server/src/histogram.rs\<close>, with the exact
  percentile of \<open>usage.rs\<close> they stand in for. Buckets step by a quarter of an octave. The logarithm and
  the power of the code are taken at their exact values: below the top bucket no reading lies within
  the rounding error of a boundary, and at 50 and 95, the two percentiles asked for, the rank the code
  computes is the exact one for fewer than \<open>2 ^ 48\<close> readings.
\<close>

section \<open>Buckets\<close>

type_synonym u16 = "16 word"
type_synonym latency_histogram = "(u16 \<times> u64) list"

definition STEPS_PER_OCTAVE :: nat where "STEPS_PER_OCTAVE = 4"
definition MAX_BUCKET :: nat where "MAX_BUCKET = 96"

text \<open>The whole part of the binary logarithm, and of the fourth root.\<close>

fun ilog2 :: "nat \<Rightarrow> nat" where
  "ilog2 n = (if n < 2 then 0 else ilog2 (n div 2) + 1)"

fun root4 :: "nat \<Rightarrow> nat" where
  "root4 n = (if n = 0 then 0 else let r = 2 * root4 (n div 16) in if (r + 1) ^ 4 \<le> n then r + 1 else r)"

declare ilog2.simps [simp del] root4.simps [simp del]

definition bucket_of :: "u64 \<Rightarrow> u16" where
  "bucket_of ms =
     (if ms = 0 then 0
      else of_nat (min MAX_BUCKET (max 1 (ilog2 (unat ms ^ STEPS_PER_OCTAVE) + 1))))"

definition upper_bound_ms :: "u16 \<Rightarrow> u64" where
  "upper_bound_ms bucket =
     (if bucket = 0 then 0
      else let n = 2 ^ unat bucket; r = root4 n; up = (if r ^ STEPS_PER_OCTAVE = n then r else r + 1)
           in if up < 2 ^ 64 then of_nat up else - 1)"

lemma ilog2_bounds: "0 < n \<Longrightarrow> 2 ^ ilog2 n \<le> n \<and> n < 2 ^ (ilog2 n + 1)"
proof (induction n rule: ilog2.induct)
  case (1 n)
  show ?case
  proof (cases "n < 2")
    case False
    then have "2 ^ ilog2 (n div 2) \<le> n div 2 \<and> n div 2 < 2 ^ (ilog2 (n div 2) + 1)" using 1 by simp
    with False show ?thesis by (subst (1 2) ilog2.simps) auto
  qed (use 1 in \<open>simp add: ilog2.simps\<close>)
qed

lemma ilog2_mono: "m \<le> n \<Longrightarrow> ilog2 m \<le> ilog2 n"
proof (cases "m = 0")
  case False
  assume "m \<le> n"
  with False ilog2_bounds [of m] ilog2_bounds [of n] have "2 ^ ilog2 m < (2 :: nat) ^ (ilog2 n + 1)" by simp
  then show ?thesis using power_less_imp_less_exp [of "2 :: nat" "ilog2 m" "ilog2 n + 1"] by simp
qed (simp add: ilog2.simps [of 0])

lemma root4_bounds: "root4 n ^ 4 \<le> n \<and> n < (root4 n + 1) ^ 4"
proof (induction n rule: root4.induct)
  case (1 n)
  show ?case
  proof (cases "n = 0")
    case False
    define r where "r = root4 (n div 16)"
    from 1 [OF False] have ih: "r ^ 4 \<le> n div 16" "n div 16 < (r + 1) ^ 4" by (auto simp: r_def)
    have "(2 * r) ^ 4 = 16 * r ^ 4" "(2 * r + 2) ^ 4 = 16 * (r + 1) ^ 4"
      by (simp_all add: power4_eq_xxxx algebra_simps)
    with ih have "(2 * r) ^ 4 \<le> n" "n < (2 * r + 2) ^ 4" by linarith+
    then show ?thesis using False by (subst (1 2) root4.simps) (auto simp: Let_def r_def)
  qed (simp add: root4.simps)
qed

lemma unat_bucket_of:
  "0 < ms \<Longrightarrow> unat (bucket_of ms) = min MAX_BUCKET (max 1 (ilog2 (unat ms ^ 4) + 1))"
proof -
  assume "0 < ms"
  have "min MAX_BUCKET (max 1 (ilog2 (unat ms ^ 4) + 1)) < 2 ^ 16" by (simp add: MAX_BUCKET_def)
  then have "unat (of_nat (min MAX_BUCKET (max 1 (ilog2 (unat ms ^ 4) + 1))) :: u16) =
      min MAX_BUCKET (max 1 (ilog2 (unat ms ^ 4) + 1))"
    by (simp only: unat_of_nat len_num1 len_bit0 mod_less) (simp add: take_bit_nat_eq_self)
  moreover have "ms \<noteq> 0" using \<open>0 < ms\<close> by simp
  ultimately show ?thesis by (simp add: bucket_of_def STEPS_PER_OCTAVE_def)
qed

lemma bucket_of_0 [simp]: "bucket_of 0 = 0"
  by (simp add: bucket_of_def)

lemma bucket_of_le: "unat (bucket_of ms) \<le> 96"
  by (cases "ms = 0") (simp_all add: unat_bucket_of word_neq_0_conv MAX_BUCKET_def)

lemma bucket_of_pos: "0 < ms \<Longrightarrow> 0 < unat (bucket_of ms)"
  by (simp add: unat_bucket_of MAX_BUCKET_def)

lemma bucket_of_mono: "a \<le> b \<Longrightarrow> bucket_of a \<le> bucket_of b"
proof (cases "a = 0")
  case False
  assume "a \<le> b"
  then have "unat a ^ 4 \<le> unat b ^ 4" by (simp add: word_le_nat_alt power_mono)
  moreover have "0 < a" "0 < b" using False \<open>a \<le> b\<close> by (auto simp: word_neq_0_conv)
  ultimately show ?thesis
    using ilog2_mono [of "unat a ^ 4" "unat b ^ 4"] unat_bucket_of [of a] unat_bucket_of [of b]
    by (simp add: word_le_nat_alt MAX_BUCKET_def)
qed simp

lemma bucket_holds:
  assumes "0 < ms" "unat ms < 2 ^ 24"
  shows "2 ^ unat (bucket_of ms) \<le> 2 * unat ms ^ 4" "unat ms ^ 4 < 2 ^ unat (bucket_of ms)"
proof -
  have pos: "0 < unat ms ^ 4" using assms by (simp add: word_less_nat_alt)
  have "unat ms ^ 4 < (2 ^ 24) ^ 4" using assms(2) by (intro power_strict_mono) auto
  then have "2 ^ ilog2 (unat ms ^ 4) < (2 :: nat) ^ 96" using ilog2_bounds [OF pos] by simp
  then have "ilog2 (unat ms ^ 4) < 96" using power_less_imp_less_exp [of "2 :: nat" _ 96] by simp
  then have "unat (bucket_of ms) = ilog2 (unat ms ^ 4) + 1"
    using assms(1) by (simp add: unat_bucket_of MAX_BUCKET_def)
  with ilog2_bounds [OF pos]
  show "2 ^ unat (bucket_of ms) \<le> 2 * unat ms ^ 4" "unat ms ^ 4 < 2 ^ unat (bucket_of ms)" by simp_all
qed

lemma upper_bound_holds:
  assumes "b \<noteq> 0" "unat b \<le> 96"
  shows "2 ^ unat b \<le> unat (upper_bound_ms b) ^ 4" "(unat (upper_bound_ms b) - 1) ^ 4 < 2 ^ unat b"
proof -
  define r where "r = root4 (2 ^ unat b)"
  define up where "up = (if r ^ 4 = 2 ^ unat b then r else r + 1)"
  have r: "r ^ 4 \<le> 2 ^ unat b" "2 ^ unat b < (r + 1) ^ 4" using root4_bounds by (simp_all add: r_def)
  have "r ^ 4 \<le> (2 ^ 24) ^ 4"
    using r(1) power_increasing [OF assms(2), of "2 :: nat"] by simp
  then have "r \<le> 2 ^ 24" using power_strict_mono [of "2 ^ 24" r 4] by (meson not_le zero_le zero_less_numeral)
  then have "up < 2 ^ 64" by (simp add: up_def)
  then have u: "unat (upper_bound_ms b) = up"
    using assms(1)
    by (simp only: upper_bound_ms_def STEPS_PER_OCTAVE_def Let_def if_False flip: r_def up_def)
      (simp add: unat_of_nat take_bit_nat_eq_self)
  show "2 ^ unat b \<le> unat (upper_bound_ms b) ^ 4" using r by (auto simp: u up_def)
  have "r \<noteq> 0" using r(2) assms(1) by (cases "r = 0") (auto simp: unat_eq_zero)
  then have "(r - 1) ^ 4 < r ^ 4" by (intro power_strict_mono) auto
  then show "(unat (upper_bound_ms b) - 1) ^ 4 < 2 ^ unat b" using r(1) by (auto simp: u up_def)
qed

section \<open>Recording, merging and reading back\<close>

definition hist_is_empty :: "latency_histogram \<Rightarrow> bool" where
  "hist_is_empty h = (h = [])"

definition hist_count :: "latency_histogram \<Rightarrow> u64" where
  "hist_count h = sum_list (map snd h)"

definition hist_record :: "latency_histogram \<Rightarrow> u64 \<Rightarrow> latency_histogram" where
  "hist_record h ms = bt_alter (bucket_of ms) (\<lambda>slot. (case slot of None \<Rightarrow> 0 | Some c \<Rightarrow> c) + 1) h"

definition hist_merge :: "latency_histogram \<Rightarrow> latency_histogram \<Rightarrow> latency_histogram" where
  "hist_merge h other =
     foldl (\<lambda>h (bucket, n). bt_alter bucket (\<lambda>slot. (case slot of None \<Rightarrow> 0 | Some c \<Rightarrow> c) + n) h) h other"

fun hist_walk :: "nat \<Rightarrow> u64 \<Rightarrow> latency_histogram \<Rightarrow> u64 option" where
  "hist_walk rank seen [] = None"
| "hist_walk rank seen ((bucket, n) # h) =
     (let seen = seen + n
      in if rank \<le> unat seen then Some (upper_bound_ms bucket) else hist_walk rank seen h)"

definition nearest_rank :: "u64 \<Rightarrow> nat \<Rightarrow> nat" where
  "nearest_rank p n = nat \<lceil>(of_nat (unat p) / 100 * of_nat n :: rat)\<rceil>"

definition hist_percentile :: "latency_histogram \<Rightarrow> u64 \<Rightarrow> u64" where
  "hist_percentile h p =
     (let observed = hist_count h
      in if observed = 0 then 0
         else let rank = min (2 ^ 64 - 1) (max 1 (nearest_rank p (unat observed)))
              in case hist_walk rank 0 h of
                   Some ms \<Rightarrow> ms
                 | None \<Rightarrow> if h = [] then 0 else upper_bound_ms (fst (last h)))"

definition hist_of :: "u64 list \<Rightarrow> latency_histogram" where
  "hist_of values = foldl hist_record [] values"

text \<open>\<open>percentile\<close> of \<open>usage.rs\<close>, over the sorted readings.\<close>

definition usage_percentile :: "u64 list \<Rightarrow> u64 \<Rightarrow> u64" where
  "usage_percentile sorted_values p =
     (if sorted_values = [] then 0
      else let rank = nearest_rank p (length sorted_values)
           in sorted_values ! min (rank - 1) (length sorted_values - 1))"

lemma bt_ok_record [bt_intros]: "bt_ok h \<Longrightarrow> bt_ok (hist_record h ms)"
  by (simp add: hist_record_def bt_ok_alter)

lemma bt_ok_hist_of [bt_intros]: "bt_ok (hist_of xs)"
proof -
  have "bt_ok h \<Longrightarrow> bt_ok (foldl hist_record h xs)" for h
    by (induction xs arbitrary: h) (auto intro: bt_intros)
  then show ?thesis by (simp add: hist_of_def)
qed

lemma hist_of_snoc: "hist_of (xs @ [ms]) = hist_record (hist_of xs) ms"
  by (simp add: hist_of_def)

subsection \<open>Merging adds the columns\<close>

fun slot_sum :: "u64 option \<Rightarrow> u64 option \<Rightarrow> u64 option" where
  "slot_sum None y = y"
| "slot_sum x None = x"
| "slot_sum (Some a) (Some b) = Some (a + b)"

lemma slot_sum_None [simp]: "slot_sum x None = x"
  by (cases x) auto

lemma slot_sum_commute: "slot_sum x y = slot_sum y x"
  by (cases x; cases y) auto

lemma slot_sum_assoc: "slot_sum (slot_sum x y) z = slot_sum x (slot_sum y z)"
  by (cases x; cases y; cases z) auto

lemma bt_ok_merge [bt_intros]: "bt_ok h \<Longrightarrow> bt_ok (hist_merge h other)"
  unfolding hist_merge_def by (induction other arbitrary: h) (auto intro: bt_intros split: prod.splits)

lemma map_of_merge:
  "bt_ok h \<Longrightarrow> bt_ok other \<Longrightarrow> map_of (hist_merge h other) = (\<lambda>b. slot_sum (map_of h b) (map_of other b))"
proof (induction other arbitrary: h)
  case (Cons e other)
  obtain b n where e: "e = (b, n)" by (cases e)
  let ?h = "bt_alter b (\<lambda>slot. (case slot of None \<Rightarrow> 0 | Some c \<Rightarrow> c) + n) h"
  have "map_of other b = None" using Cons.prems by (intro bt_absent) (auto simp: e bt_ok_Cons)
  moreover have "bt_ok ?h" "bt_ok other" using Cons.prems by (auto simp: e bt_ok_Cons intro: bt_intros)
  ultimately show ?case
    using Cons.IH [of ?h] Cons.prems(1)
    by (auto simp: e hist_merge_def map_of_bt_alter fun_eq_iff split: option.splits)
qed (auto simp: hist_merge_def fun_eq_iff)

lemma hist_merge_commute: "bt_ok a \<Longrightarrow> bt_ok b \<Longrightarrow> hist_merge a b = hist_merge b a"
  by (rule bt_ext) (auto simp: map_of_merge slot_sum_commute intro: bt_intros)

lemma hist_merge_assoc:
  "bt_ok a \<Longrightarrow> bt_ok b \<Longrightarrow> bt_ok c \<Longrightarrow> hist_merge (hist_merge a b) c = hist_merge a (hist_merge b c)"
  by (rule bt_ext) (auto simp: map_of_merge slot_sum_assoc bt_ok_merge)

lemma hist_merge_Nil [simp]: "hist_merge h [] = h"
  by (simp add: hist_merge_def)

lemma bt_ok_single [bt_intros, simp]: "bt_ok [e]"
  by (simp add: bt_ok_def)

lemma hist_record_Nil: "hist_record [] ms = [(bucket_of ms, 1)]" "hist_merge [] [(b, n)] = [(b, n)]"
  by (simp_all add: hist_record_def hist_merge_def)

lemma hist_record_merge: "bt_ok h \<Longrightarrow> hist_record h ms = hist_merge h [(bucket_of ms, 1)]"
  by (simp add: hist_merge_def hist_record_def)

lemma hist_of_append: "hist_of (xs @ ys) = hist_merge (hist_of xs) (hist_of ys)"
proof (induction ys rule: rev_induct)
  case Nil
  show ?case by (simp add: hist_of_def)
next
  case (snoc y ys)
  have one: "bt_ok [(bucket_of y, 1 :: u64)]" by (simp add: bt_ok_def)
  have "hist_of (xs @ ys @ [y]) = hist_merge (hist_merge (hist_of xs) (hist_of ys)) [(bucket_of y, 1)]"
    using hist_of_snoc [of "xs @ ys" y] snoc.IH by (simp add: hist_record_merge bt_intros)
  also have "\<dots> = hist_merge (hist_of xs) (hist_of (ys @ [y]))"
    using one by (simp add: hist_merge_assoc hist_of_snoc hist_record_merge bt_intros)
  finally show ?case .
qed

subsection \<open>Percentiles\<close>

text \<open>What the columns of a set of buckets hold is how many readings fell into them.\<close>

lemma hist_columns:
  assumes "length xs < 2 ^ 64"
  shows "(\<Sum>(b, n) \<leftarrow> filter (\<lambda>e. P (fst e)) (hist_of xs). unat n) = length (filter (\<lambda>x. P (bucket_of x)) xs)"
  using assms
proof (induction xs arbitrary: P rule: rev_induct)
  case (snoc x xs)
  let ?f = "\<lambda>slot. (case slot of None \<Rightarrow> 0 | Some c \<Rightarrow> c) + (1 :: u64)"
  from snoc have ih: "\<And>P. (\<Sum>(b, n) \<leftarrow> filter (\<lambda>e. P (fst e)) (hist_of xs). unat n) = length (filter (\<lambda>x. P (bucket_of x)) xs)"
    by simp
  have "bt_ok (hist_of xs)" by (rule bt_intros)
  then show ?case
  proof (cases rule: bt_alter_split [where k = "bucket_of x" and f = ?f])
    case (vacant pre post)
    with ih [of P] show ?thesis by (simp add: hist_of_snoc hist_record_def)
  next
    case (occupied pre v post)
    have "unat v \<le> length xs" using ih [of "\<lambda>_. True"] occupied(1) by simp
    then have "unat (v + 1) = unat v + 1" using snoc.prems by (simp add: unat_word_ariths)
    with occupied ih [of P] show ?thesis
      by (cases "P (bucket_of x)") (simp_all add: hist_of_snoc hist_record_def add.commute)
  qed
qed (simp add: hist_of_def)

lemma unat_sum_columns:
  "(\<Sum>(b, n) \<leftarrow> (h :: latency_histogram). unat n) < 2 ^ 64 \<Longrightarrow> unat (hist_count h) = (\<Sum>(b, n) \<leftarrow> h. unat n)"
proof (induction h)
  case (Cons e h)
  then show ?case by (cases e) (simp add: hist_count_def unat_word_ariths)
qed (simp add: hist_count_def)

lemma hist_walk_stops:
  assumes "unat seen + (\<Sum>(b, n) \<leftarrow> pre. unat n) < rank"
    and "rank \<le> unat seen + (\<Sum>(b, n) \<leftarrow> pre. unat n) + unat n"
    and "unat seen + (\<Sum>(b, n) \<leftarrow> pre. unat n) + unat n < 2 ^ 64"
  shows "hist_walk rank seen (pre @ (b, n) # post) = Some (upper_bound_ms b)"
  using assms
proof (induction pre arbitrary: seen)
  case Nil
  then show ?case by (simp add: unat_word_ariths)
next
  case (Cons e pre)
  obtain b' n' where e: "e = (b', n')" by (cases e)
  from Cons.prems have "unat (seen + n') = unat seen + unat n'" by (simp add: e unat_word_ariths)
  with Cons show ?case by (simp add: e)
qed

lemma nearest_rank_le: "unat p \<le> 100 \<Longrightarrow> nearest_rank p n \<le> n"
proof -
  assume "unat p \<le> 100"
  then have "(of_nat (unat p) :: rat) \<le> of_nat 100" by (rule of_nat_mono)
  then have "(of_nat (unat p) / 100 * of_nat n :: rat) \<le> 1 * of_nat n"
    by (intro mult_right_mono) (simp_all only: of_nat_numeral divide_le_eq_1_pos zero_less_numeral of_nat_0_le_iff)
  then have "\<lceil>(of_nat (unat p) / 100 * of_nat n :: rat)\<rceil> \<le> int n" by (simp add: ceiling_le_iff)
  then show ?thesis by (simp add: nearest_rank_def)
qed

text \<open>In a sorted list, the readings below the \<open>i\<close>th are among the first \<open>i\<close>, and the first \<open>i + 1\<close> are at most it.\<close>

lemma sorted_counts:
  assumes "sorted ys" "i < length ys" and mono: "\<And>a b. a \<le> b \<Longrightarrow> g a \<le> (g b :: 'b :: linorder)"
  shows "length (filter (\<lambda>x. g x < g (ys ! i)) ys) \<le> i" "i < length (filter (\<lambda>x. g x \<le> g (ys ! i)) ys)"
proof -
  have split: "ys = take i ys @ drop i ys" by simp
  have "filter (\<lambda>x. g x < g (ys ! i)) (drop i ys) = []"
    using assms by (auto simp: filter_empty_conv in_set_conv_nth not_less intro!: mono sorted_nth_mono)
  then have "filter (\<lambda>x. g x < g (ys ! i)) ys = filter (\<lambda>x. g x < g (ys ! i)) (take i ys)"
    by (metis append_Nil2 filter_append split)
  then show "length (filter (\<lambda>x. g x < g (ys ! i)) ys) \<le> i"
    using length_filter_le [of _ "take i ys"] assms(2) by (metis length_take min.absorb4)
  have "filter (\<lambda>x. g x \<le> g (ys ! i)) (take (i + 1) ys) = take (i + 1) ys"
    using assms by (auto simp: filter_id_conv in_set_conv_nth intro!: mono sorted_nth_mono)
  moreover have "filter P ys = filter P (take (i + 1) ys) @ filter P (drop (i + 1) ys)" for P
    by (metis append_take_drop_id filter_append)
  ultimately have "length (take (i + 1) ys) \<le> length (filter (\<lambda>x. g x \<le> g (ys ! i)) ys)" by simp
  with assms(2) show "i < length (filter (\<lambda>x. g x \<le> g (ys ! i)) ys)" by simp
qed

lemma usage_percentile_mem: "ys \<noteq> [] \<Longrightarrow> usage_percentile ys p \<in> set ys"
proof -
  assume "ys \<noteq> []"
  then have "length ys - 1 < length ys" by (cases ys) auto
  then have "min (nearest_rank p (length ys) - 1) (length ys - 1) < length ys" by (rule min.strict_coboundedI2)
  with \<open>ys \<noteq> []\<close> show ?thesis by (simp only: usage_percentile_def if_False Let_def nth_mem)
qed

lemma hist_percentile_is_a_bucket:
  assumes "xs \<noteq> []" "length xs < 2 ^ 64" "unat p \<le> 100"
  shows "hist_percentile (hist_of xs) p = upper_bound_ms (bucket_of (usage_percentile (sort xs) p))"
proof -
  define ys where "ys = sort xs"
  define r where "r = max 1 (nearest_rank p (length xs))"
  define v where "v = ys ! (r - 1)"
  have len: "length ys = length xs" by (simp add: ys_def)
  have r: "1 \<le> r" "r \<le> length xs" "r - 1 < length ys"
  proof -
    have "1 \<le> length xs" using assms(1) by (cases xs) auto
    then show "1 \<le> r" "r \<le> length xs" "r - 1 < length ys"
      using nearest_rank_le [OF assms(3), of "length xs"] len by (auto simp: r_def max_def)
  qed
  have "usage_percentile ys p = v"
  proof -
    have "ys \<noteq> []" using r(3) by auto
    moreover have "min (nearest_rank p (length ys) - 1) (length ys - 1) = r - 1"
      using nearest_rank_le [OF assms(3), of "length xs"] len by (auto simp: r_def max_def min_def)
    ultimately show ?thesis by (simp add: usage_percentile_def v_def Let_def)
  qed
  have columns: "(\<Sum>(b, n) \<leftarrow> filter (\<lambda>e. P (fst e)) (hist_of xs). unat n) = length (filter (\<lambda>x. P (bucket_of x)) ys)" for P
    using hist_columns [OF assms(2), of P] by (metis mset_filter mset_sort size_mset ys_def)
  have all: "(\<Sum>(b, n) \<leftarrow> hist_of xs. unat n) = length xs"
    using columns [of "\<lambda>_. True"] len by simp
  have count: "unat (hist_count (hist_of xs)) = length xs"
    using unat_sum_columns [of "hist_of xs"] all assms(2) by simp
  note s = sorted_counts [of ys "r - 1" bucket_of, OF _ r(3) bucket_of_mono, folded v_def]
  have low: "(\<Sum>(b, n) \<leftarrow> filter (\<lambda>e. fst e < bucket_of v) (hist_of xs). unat n) < r"
    using columns [of "\<lambda>b. b < bucket_of v"] s(1) r(1) by (simp add: ys_def)
  have high: "r \<le> (\<Sum>(b, n) \<leftarrow> filter (\<lambda>e. fst e \<le> bucket_of v) (hist_of xs). unat n)"
    using columns [of "\<lambda>b. b \<le> bucket_of v"] s(2) r(1) by (simp add: ys_def)
  have ok: "bt_ok (hist_of xs)" by (rule bt_intros)
  have "\<exists>n. (bucket_of v, n) \<in> set (hist_of xs)"
  proof (rule ccontr)
    assume no: "\<not> ?thesis"
    have "fst e < bucket_of v \<longleftrightarrow> fst e \<le> bucket_of v" if "e \<in> set (hist_of xs)" for e
      using no that by (cases e) (auto simp: le_less)
    then have "filter (\<lambda>e. fst e < bucket_of v) (hist_of xs) = filter (\<lambda>e. fst e \<le> bucket_of v) (hist_of xs)"
      by (rule filter_cong [OF refl])
    with low high show False by simp
  qed
  then obtain n pre post where h: "hist_of xs = pre @ (bucket_of v, n) # post" by (meson split_list)
  from ok h have "\<forall>e \<in> set pre. fst e < bucket_of v" "\<forall>e \<in> set post. bucket_of v < fst e"
    by (auto simp: bt_ok_def sorted_wrt_append)
  then have "filter (\<lambda>e. fst e < bucket_of v) (hist_of xs) = pre"
    "filter (\<lambda>e. fst e \<le> bucket_of v) (hist_of xs) = pre @ [(bucket_of v, n)]"
    by (auto simp: h filter_id_conv filter_empty_conv not_le order.asym less_imp_le)
  with low high have "(\<Sum>(b, n) \<leftarrow> pre. unat n) < r" "r \<le> (\<Sum>(b, n) \<leftarrow> pre. unat n) + unat n" by simp_all
  moreover have "(\<Sum>(b, n) \<leftarrow> pre. unat n) + unat n < 2 ^ 64" using all assms(2) by (simp add: h)
  ultimately have "hist_walk r 0 (hist_of xs) = Some (upper_bound_ms (bucket_of v))"
    unfolding h by (intro hist_walk_stops) auto
  moreover have "min (2 ^ 64 - 1) (max 1 (nearest_rank p (length xs))) = r"
    using r(2) assms(2) unfolding r_def by (intro min.absorb2) linarith
  moreover have "hist_count (hist_of xs) \<noteq> 0" using count assms(1) by (auto simp: unat_eq_zero)
  moreover have "usage_percentile (sort xs) p = v" using \<open>usage_percentile ys p = v\<close> by (simp add: ys_def)
  ultimately show ?thesis by (simp add: hist_percentile_def count Let_def)
qed



end
