(* ===== verification/Usage_Window.thy ===== *)
theory Usage_Window
  imports Usage_Tokens Histogram "HOL-Library.Char_ord" "HOL-Library.List_Lexorder"
    "HOL-Library.Product_Lexorder" "HOL-Library.Option_ord"
begin

text \<open>
  The record of a served request and the minute aggregate of the last day: \<open>UsageRecord\<close>, \<open>HistoryFilter\<close>,
  \<open>LatencyGrid\<close> and \<open>Aggregator\<close> of \<open>crates/router-server/src/usage.rs\<close>. The ring of slots is a function of
  the index, which the code always takes modulo \<open>MINUTES\<close>. The hash map of a slot is kept in key order: the
  code only sums over it.
\<close>

section \<open>Records and filters\<close>

record usage_record =
  ur_ts :: u64
  ur_request_id :: string
  ur_endpoint :: string
  ur_requested :: string
  ur_provider :: string
  ur_model :: string
  ur_vkey :: "string option"
  ur_status_code :: u16
  ur_stream :: bool
  ur_input_tokens :: u64
  ur_output_tokens :: u64
  ur_cached_tokens :: u64
  ur_cost_micro_usd :: u64
  ur_latency_ms :: u64
  ur_overhead_us :: u64
  ur_attempts :: u32
  ur_tag :: "string option"
  ur_prompt :: "string option"
  ur_account :: "string option"
  ur_reasoning_effort :: "string option"

record history_filter =
  hf_provider :: "string option"
  hf_model :: "string option"
  hf_vkey :: "string option"

definition is_none_or :: "'a option \<Rightarrow> ('a \<Rightarrow> bool) \<Rightarrow> bool" where
  "is_none_or x P = (case x of None \<Rightarrow> True | Some a \<Rightarrow> P a)"

definition matches_dims :: "history_filter \<Rightarrow> string \<Rightarrow> string \<Rightarrow> string option \<Rightarrow> bool" where
  "matches_dims f provider model vkey \<longleftrightarrow>
     is_none_or (hf_provider f) (\<lambda>p. provider = p) \<and> is_none_or (hf_model f) (\<lambda>m. model = m)
     \<and> is_none_or (hf_vkey f) (\<lambda>k. vkey = Some k)"

definition hf_matches :: "history_filter \<Rightarrow> usage_record \<Rightarrow> bool" where
  "hf_matches f r \<longleftrightarrow>
     is_none_or (hf_provider f) (\<lambda>p. ur_provider r = p) \<and> is_none_or (hf_model f) (\<lambda>m. ur_model r = m)
     \<and> is_none_or (hf_vkey f) (\<lambda>k. ur_vkey r = Some k)"

section \<open>Latency by model\<close>

definition model_name :: "string \<Rightarrow> string" where
  "model_name model = (if model = [] then ''(none)'' else model)"

type_synonym latency_grid = "(string \<times> (u64 \<times> u64 \<times> u64) list) list"

record latency_point =
  lp_ts :: u64
  lp_requests :: u64
  lp_latency_ms_sum :: u64

record model_latency =
  ml_name :: string
  ml_requests :: u64
  ml_points :: "latency_point list"

definition grid_add :: "latency_grid \<Rightarrow> string \<Rightarrow> u64 \<Rightarrow> u64 \<Rightarrow> u64 \<Rightarrow> latency_grid" where
  "grid_add grid model bucket requests latency_ms_sum =
     bt_alter model
       (\<lambda>buckets. bt_alter bucket
          (\<lambda>slot. case (case slot of None \<Rightarrow> (0, 0) | Some s \<Rightarrow> s) of (n, ms) \<Rightarrow> (n + requests, ms + latency_ms_sum))
          (case buckets of None \<Rightarrow> [] | Some b \<Rightarrow> b)) grid"

text \<open>\<open>sort_by\<close> on two keys: most requests first, then by name. It is stable, as \<open>sort_key\<close> is.\<close>

definition by_requests :: "('a \<Rightarrow> u64) \<Rightarrow> ('a \<Rightarrow> string) \<Rightarrow> 'a list \<Rightarrow> 'a list" where
  "by_requests requests name xs = sort_key (\<lambda>x. (- 1 - requests x, name x)) xs"

definition LATENCY_SERIES_CAP :: nat where "LATENCY_SERIES_CAP = 6"

definition grid_top :: "latency_grid \<Rightarrow> nat \<Rightarrow> model_latency list" where
  "grid_top grid limit =
     take limit (by_requests ml_requests ml_name
       (map (\<lambda>(name, buckets).
          \<lparr>ml_name = name,
           ml_requests = sum_list (map (\<lambda>(_, requests, _). requests) buckets),
           ml_points = map (\<lambda>(ts, requests, ms). \<lparr>lp_ts = ts, lp_requests = requests, lp_latency_ms_sum = ms\<rparr>) buckets\<rparr>)
        grid))"

section \<open>The minute aggregate\<close>

definition MINUTES :: nat where "MINUTES = 24 * 60"
definition MAX_KEYS_PER_MINUTE :: nat where "MAX_KEYS_PER_MINUTE = 512"
definition RECENT_CAP :: nat where "RECENT_CAP = 1000"

type_synonym agg_key = "string \<times> string \<times> string option"

record agg_cell =
  ac_requests :: u64
  ac_errors :: u64
  ac_input_tokens :: u64
  ac_output_tokens :: u64
  ac_cost_micro_usd :: u64
  ac_latency_ms_sum :: u64

definition ac_default :: agg_cell where
  "ac_default = \<lparr>ac_requests = 0, ac_errors = 0, ac_input_tokens = 0, ac_output_tokens = 0,
     ac_cost_micro_usd = 0, ac_latency_ms_sum = 0\<rparr>"

record minute_slot =
  ms_minute :: u64
  ms_cells :: "(agg_key \<times> agg_cell) list"

record aggregator =
  ag_slots :: "nat \<Rightarrow> minute_slot"
  ag_since :: u64

record usage_bucket =
  ub_ts :: u64
  ub_requests :: u64
  ub_failed :: u64
  ub_input_tokens :: u64
  ub_output_tokens :: u64
  ub_cost_micro_usd :: u64
  ub_latency_ms_sum :: u64

definition ub_empty :: "u64 \<Rightarrow> usage_bucket" where
  "ub_empty ts = \<lparr>ub_ts = ts, ub_requests = 0, ub_failed = 0, ub_input_tokens = 0, ub_output_tokens = 0,
     ub_cost_micro_usd = 0, ub_latency_ms_sum = 0\<rparr>"

definition agg_new :: "u64 \<Rightarrow> aggregator" where
  "agg_new unix_ms = \<lparr>ag_slots = (\<lambda>_. \<lparr>ms_minute = 0, ms_cells = []\<rparr>), ag_since = unix_ms div 60000\<rparr>"

definition floor_minute :: "aggregator \<Rightarrow> u64 \<Rightarrow> u64 option" where
  "floor_minute ag now_ms =
     Some (max (ag_since ag) (u64_saturating_sub (now_ms div 60000) (of_nat MINUTES - 1)))"

definition slot_of :: "aggregator \<Rightarrow> u64 \<Rightarrow> minute_slot" where
  "slot_of ag minute = ag_slots ag (unat minute mod MINUTES)"

definition agg_key_of :: "usage_record \<Rightarrow> agg_key" where
  "agg_key_of r = (ur_provider r, ur_model r, ur_vkey r)"

definition bump_cell :: "agg_cell \<Rightarrow> usage_record \<Rightarrow> agg_cell" where
  "bump_cell c r =
     \<lparr>ac_requests = ac_requests c + 1,
      ac_errors = ac_errors c + (if 400 \<le> ur_status_code r then 1 else 0),
      ac_input_tokens = ac_input_tokens c + ur_input_tokens r,
      ac_output_tokens = ac_output_tokens c + ur_output_tokens r,
      ac_cost_micro_usd = ac_cost_micro_usd c + ur_cost_micro_usd r,
      ac_latency_ms_sum = ac_latency_ms_sum c + ur_latency_ms r\<rparr>"

definition slot_record :: "minute_slot \<Rightarrow> u64 \<Rightarrow> usage_record \<Rightarrow> minute_slot" where
  "slot_record slot minute r =
     (let slot = (if ms_minute slot \<noteq> minute then \<lparr>ms_minute = minute, ms_cells = []\<rparr> else slot)
      in if MAX_KEYS_PER_MINUTE \<le> length (ms_cells slot) then slot
         else slot\<lparr>ms_cells :=
           bt_alter (agg_key_of r) (\<lambda>c. bump_cell (case c of None \<Rightarrow> ac_default | Some c \<Rightarrow> c) r) (ms_cells slot)\<rparr>)"

definition agg_record :: "aggregator \<Rightarrow> usage_record \<Rightarrow> aggregator" where
  "agg_record ag r =
     (let minute = ur_ts r div 60000
      in \<lparr>ag_slots = (ag_slots ag)(unat minute mod MINUTES := slot_record (slot_of ag minute) minute r),
          ag_since = min (ag_since ag) minute\<rparr>)"

definition add_cell :: "usage_bucket \<Rightarrow> agg_cell \<Rightarrow> usage_bucket" where
  "add_cell p c =
     p\<lparr>ub_requests := ub_requests p + ac_requests c,
       ub_failed := ub_failed p + ac_errors c,
       ub_input_tokens := ub_input_tokens p + ac_input_tokens c,
       ub_output_tokens := ub_output_tokens p + ac_output_tokens c,
       ub_cost_micro_usd := ub_cost_micro_usd p + ac_cost_micro_usd c,
       ub_latency_ms_sum := ub_latency_ms_sum p + ac_latency_ms_sum c\<rparr>"

text \<open>The inclusive range of two minutes.\<close>

definition minutes_between :: "u64 \<Rightarrow> u64 \<Rightarrow> u64 list" where
  "minutes_between a b = map of_nat [unat a ..< unat b + 1]"

definition series_cell ::
    "history_filter \<Rightarrow> u64 \<Rightarrow> u64 \<Rightarrow> (u64 \<times> usage_bucket) list \<times> latency_grid \<Rightarrow> agg_key \<times> agg_cell \<Rightarrow>
       (u64 \<times> usage_bucket) list \<times> latency_grid" where
  "series_cell f bucket_secs minute acc e =
     (case (acc, e) of ((out, grid), ((provider, model, vkey), cell)) \<Rightarrow>
        if \<not> matches_dims f provider model vkey then (out, grid)
        else let bucket = (minute * 60 div bucket_secs) * bucket_secs in
          (bt_alter bucket (\<lambda>p. add_cell (case p of None \<Rightarrow> ub_empty bucket | Some p \<Rightarrow> p) cell) out,
           grid_add grid (model_name model) bucket (ac_requests cell) (ac_latency_ms_sum cell)))"

definition series_minute ::
    "aggregator \<Rightarrow> history_filter \<Rightarrow> u64 \<Rightarrow> (u64 \<times> usage_bucket) list \<times> latency_grid \<Rightarrow> u64 \<Rightarrow>
       (u64 \<times> usage_bucket) list \<times> latency_grid" where
  "series_minute ag f bucket_secs acc minute =
     (if ms_minute (slot_of ag minute) \<noteq> minute then acc
      else foldl (series_cell f bucket_secs minute) acc (ms_cells (slot_of ag minute)))"

definition agg_series ::
    "aggregator \<Rightarrow> u64 \<Rightarrow> u64 \<Rightarrow> u64 \<Rightarrow> history_filter \<Rightarrow> usage_bucket list \<times> latency_grid" where
  "agg_series ag since_ms until_ms bucket_secs f =
     (let (out, grid) = foldl (series_minute ag f (max bucket_secs 60)) ([], [])
            (minutes_between (since_ms div 60000) (until_ms div 60000))
      in (map snd out, grid))"

text \<open>\<open>Aggregator::query\<close>: the trailing window, grouped by the dimensions asked for.\<close>

record group =
  gp_totals :: agg_cell
  gp_series :: "(u64 \<times> agg_cell) list"

definition cell_plus :: "agg_cell \<Rightarrow> agg_cell \<Rightarrow> agg_cell" where
  "cell_plus t c =
     \<lparr>ac_requests = ac_requests t + ac_requests c, ac_errors = ac_errors t + ac_errors c,
      ac_input_tokens = ac_input_tokens t + ac_input_tokens c,
      ac_output_tokens = ac_output_tokens t + ac_output_tokens c,
      ac_cost_micro_usd = ac_cost_micro_usd t + ac_cost_micro_usd c,
      ac_latency_ms_sum = ac_latency_ms_sum t + ac_latency_ms_sum c\<rparr>"

definition group_part :: "agg_key \<Rightarrow> string \<Rightarrow> string list" where
  "group_part key d =
     (case key of (provider, model, vkey) \<Rightarrow>
        if d = ''provider'' then [provider]
        else if d = ''model'' then [provider @ ''/'' @ model]
        else if d = ''key'' then [case vkey of None \<Rightarrow> ''-'' | Some k \<Rightarrow> k]
        else [])"

definition middle_dot :: string where
  "middle_dot = [CHR 0xC2, CHR 0xB7]"

definition group_cell ::
    "string list \<Rightarrow> string option \<Rightarrow> u64 \<Rightarrow> (string \<times> group) list \<Rightarrow> agg_key \<times> agg_cell \<Rightarrow> (string \<times> group) list" where
  "group_cell dims vkey minute groups e =
     (case e of (key, cell) \<Rightarrow>
        if \<not> is_none_or vkey (\<lambda>want. snd (snd key) = Some want) then groups
        else bt_alter (join middle_dot (concat (map (group_part key) dims)))
          (\<lambda>g. let g = (case g of None \<Rightarrow> \<lparr>gp_totals = ac_default, gp_series = []\<rparr> | Some g \<Rightarrow> g) in
             \<lparr>gp_totals = cell_plus (gp_totals g) cell,
              gp_series = bt_alter minute (\<lambda>c. cell_plus (case c of None \<Rightarrow> ac_default | Some c \<Rightarrow> c) cell) (gp_series g)\<rparr>)
          groups)"

definition group_minute ::
    "aggregator \<Rightarrow> string list \<Rightarrow> string option \<Rightarrow> (string \<times> group) list \<Rightarrow> u64 \<Rightarrow> (string \<times> group) list" where
  "group_minute ag dims vkey groups minute =
     (if ms_minute (slot_of ag minute) \<noteq> minute then groups
      else foldl (group_cell dims vkey minute) groups (ms_cells (slot_of ag minute)))"

definition agg_groups ::
    "aggregator \<Rightarrow> u64 \<Rightarrow> u64 \<Rightarrow> string list \<Rightarrow> string option \<Rightarrow> (string \<times> group) list" where
  "agg_groups ag now_ms window_secs dims vkey =
     (let window_minutes = min (max (window_secs div 60) 1) (of_nat MINUTES);
          end_minute = now_ms div 60000;
          start_minute = u64_saturating_sub end_minute (window_minutes - 1)
      in foldl (group_minute ag dims vkey) [] (minutes_between start_minute end_minute))"

definition cell_json :: "agg_cell \<Rightarrow> (string \<times> json) list" where
  "cell_json c =
     [(''requests'', JInt (uint (ac_requests c))), (''errors'', JInt (uint (ac_errors c))),
      (''input_tokens'', JInt (uint (ac_input_tokens c))), (''output_tokens'', JInt (uint (ac_output_tokens c))),
      (''cost_usd'', JFloat (of_int (uint (ac_cost_micro_usd c)) / 1000000)),
      (''avg_latency_ms'',
         JInt (if ac_requests c = 0 then 0 else uint (ac_latency_ms_sum c div ac_requests c)))]"

definition agg_query :: "aggregator \<Rightarrow> u64 \<Rightarrow> u64 \<Rightarrow> string list \<Rightarrow> string option \<Rightarrow> json" where
  "agg_query ag now_ms window_secs dims vkey =
     JObject
       [(''window_secs'', JInt (uint window_secs)),
        (''groups'', JArray (map (\<lambda>(name, g).
           JObject
             [(''group'', JString (if name = [] then ''all'' else name)),
              (''totals'', JObject (cell_json (gp_totals g))),
              (''series'', JArray (map (\<lambda>(minute, c).
                 JObject (cell_json c @ [(''minute_ts'', JInt (uint (minute * 60000)))])) (gp_series g)))])
           (agg_groups ag now_ms window_secs dims vkey)))]"

section \<open>What the slots hold\<close>

definition minute_of :: "usage_record \<Rightarrow> u64" where
  "minute_of r = ur_ts r div 60000"

definition cells_of :: "usage_record list \<Rightarrow> (agg_key \<times> agg_cell) list" where
  "cells_of rs =
     foldl (\<lambda>cells r. bt_alter (agg_key_of r) (\<lambda>c. bump_cell (case c of None \<Rightarrow> ac_default | Some c \<Rightarrow> c) r) cells) [] rs"

lemma cells_of_snoc:
  "cells_of (rs @ [r]) =
     bt_alter (agg_key_of r) (\<lambda>c. bump_cell (case c of None \<Rightarrow> ac_default | Some c \<Rightarrow> c) r) (cells_of rs)"
  by (simp add: cells_of_def)

lemma bt_ok_cells_of [bt_intros]: "bt_ok (cells_of rs)"
  by (induction rs rule: rev_induct) (auto simp: cells_of_snoc intro: bt_intros simp: cells_of_def)

lemma keys_cells_of: "fst ` set (cells_of rs) = agg_key_of ` set rs"
  by (induction rs rule: rev_induct) (simp_all add: cells_of_snoc keys_bt_alter cells_of_def)

lemma length_cells_of: "length (cells_of rs) = card (agg_key_of ` set rs)"
proof -
  have "card (fst ` set (cells_of rs)) = length (cells_of rs)"
    using distinct_card [OF bt_ok_distinct [OF bt_ok_cells_of [of rs]]] by simp
  then show ?thesis by (simp add: keys_cells_of)
qed

text \<open>Records of one day share no slot with records of another minute, and below the cap none is lost.\<close>

definition one_day :: "usage_record list \<Rightarrow> bool" where
  "one_day rs \<longleftrightarrow> (\<exists>first. \<forall>r \<in> set rs. first \<le> unat (minute_of r) \<and> unat (minute_of r) < first + MINUTES)"

definition under_the_cap :: "usage_record list \<Rightarrow> bool" where
  "under_the_cap rs \<longleftrightarrow>
     (\<forall>m. card (agg_key_of ` set (filter (\<lambda>r. minute_of r = m) rs)) < MAX_KEYS_PER_MINUTE)"

lemma one_day_slots:
  assumes "one_day rs" "r \<in> set rs" "q \<in> set rs" "unat (minute_of r) mod MINUTES = unat (minute_of q) mod MINUTES"
  shows "minute_of r = minute_of q"
proof -
  from assms(1) obtain first where "\<forall>r \<in> set rs. first \<le> unat (minute_of r) \<and> unat (minute_of r) < first + MINUTES"
    by (auto simp: one_day_def)
  with assms(2,3) have r: "first \<le> unat (minute_of r)" "unat (minute_of r) < first + MINUTES"
    and q: "first \<le> unat (minute_of q)" "unat (minute_of q) < first + MINUTES" by auto
  have "a = b" if "a \<le> b" "first \<le> a" "b < first + MINUTES" "a mod MINUTES = b mod MINUTES" for a b
  proof -
    have "MINUTES dvd b - a" using that by (metis mod_eq_dvd_iff_nat)
    moreover have "b - a < MINUTES" using that by simp
    ultimately show ?thesis using that(1) by (auto dest: dvd_imp_le)
  qed
  with r q assms(4) have "unat (minute_of r) = unat (minute_of q)" by (metis linear)
  then show ?thesis by (rule word_unat_eq_iff [THEN iffD2])
qed

lemma under_the_cap_prefix: "under_the_cap (rs @ [r]) \<Longrightarrow> under_the_cap rs"
  unfolding under_the_cap_def
proof (intro allI)
  fix m assume "\<forall>m. card (agg_key_of ` set (filter (\<lambda>r. minute_of r = m) (rs @ [r]))) < MAX_KEYS_PER_MINUTE"
  moreover have "card (agg_key_of ` set (filter (\<lambda>r. minute_of r = m) rs)) \<le>
      card (agg_key_of ` set (filter (\<lambda>r. minute_of r = m) (rs @ [r])))"
    by (intro card_mono) auto
  ultimately show "card (agg_key_of ` set (filter (\<lambda>r. minute_of r = m) rs)) < MAX_KEYS_PER_MINUTE"
    using le_less_trans by blast
qed

lemma slots_hold_the_records:
  fixes t0 :: u64
  assumes "one_day rs" "under_the_cap rs"
  defines "ag \<equiv> foldl agg_record (agg_new t0) rs"
  shows "ms_minute (slot_of ag m) = m \<Longrightarrow> ms_cells (slot_of ag m) = cells_of (filter (\<lambda>r. minute_of r = m) rs)"
    and "filter (\<lambda>r. minute_of r = m) rs \<noteq> [] \<Longrightarrow> ms_minute (slot_of ag m) = m"
proof -
  have "(ms_minute (slot_of ag m) = m \<longrightarrow> ms_cells (slot_of ag m) = cells_of (filter (\<lambda>r. minute_of r = m) rs)) \<and>
      (filter (\<lambda>r. minute_of r = m) rs \<noteq> [] \<longrightarrow> ms_minute (slot_of ag m) = m)"
    using assms(1,2) unfolding ag_def
  proof (induction rs arbitrary: m rule: rev_induct)
    case Nil
    show ?case by (simp add: agg_new_def slot_of_def cells_of_def)
  next
    case (snoc r rs)
    let ?ag = "foldl agg_record (agg_new t0) rs" and ?k = "minute_of r"
    have day: "one_day rs" using snoc.prems(1) by (auto simp: one_day_def)
    note ih = snoc.IH [OF day under_the_cap_prefix [OF snoc.prems(2)]]
    have slot: "slot_of (agg_record ?ag r) x =
        (if unat x mod MINUTES = unat ?k mod MINUTES then slot_record (slot_of ?ag ?k) ?k r else slot_of ?ag x)" for x
      by (simp add: agg_record_def slot_of_def Let_def minute_of_def)
    show ?case
    proof (cases "m = ?k")
      case True
      let ?prior = "filter (\<lambda>q. minute_of q = ?k) rs"
      have start: "(if ms_minute (slot_of ?ag ?k) \<noteq> ?k then \<lparr>ms_minute = ?k, ms_cells = []\<rparr> else slot_of ?ag ?k) =
          \<lparr>ms_minute = ?k, ms_cells = cells_of ?prior\<rparr>"
      proof (cases "ms_minute (slot_of ?ag ?k) = ?k")
        case True
        with ih [of ?k] show ?thesis by (cases "slot_of ?ag ?k") simp
      next
        case False
        with ih [of ?k] have "?prior = []" by blast
        with False show ?thesis by (simp add: cells_of_def)
      qed
      have "length (cells_of ?prior) < MAX_KEYS_PER_MINUTE"
        using under_the_cap_prefix [OF snoc.prems(2)] by (simp add: length_cells_of under_the_cap_def)
      then have "slot_record (slot_of ?ag ?k) ?k r =
          \<lparr>ms_minute = ?k, ms_cells = cells_of (?prior @ [r])\<rparr>"
        unfolding slot_record_def start by (simp add: Let_def cells_of_snoc)
      with True show ?thesis by (simp add: slot)
    next
      case False
      show ?thesis
      proof (cases "unat m mod MINUTES = unat ?k mod MINUTES")
        case True
        have "ms_minute (slot_record (slot_of ?ag ?k) ?k r) = ?k"
          by (simp add: slot_record_def Let_def)
        moreover have "filter (\<lambda>r. minute_of r = m) (rs @ [r]) = []"
          using one_day_slots [OF snoc.prems(1), of r] True False by (fastforce simp: filter_empty_conv)
        ultimately show ?thesis using True False by (simp add: slot)
      next
        case differ: False
        with ih [of m] False show ?thesis by (simp add: slot)
      qed
    qed
  qed
  then show "ms_minute (slot_of ag m) = m \<Longrightarrow> ms_cells (slot_of ag m) = cells_of (filter (\<lambda>r. minute_of r = m) rs)"
    "filter (\<lambda>r. minute_of r = m) rs \<noteq> [] \<Longrightarrow> ms_minute (slot_of ag m) = m" by blast+
qed

section \<open>The chart of the last day is complete\<close>

text \<open>A measure that every step of the aggregation adds up; the requests, the failures and the cost are three.\<close>

definition additive :: "(agg_cell \<Rightarrow> u64) \<Rightarrow> (usage_bucket \<Rightarrow> u64) \<Rightarrow> (usage_record \<Rightarrow> u64) \<Rightarrow> bool" where
  "additive wc wb wr \<longleftrightarrow>
     wc ac_default = 0 \<and> (\<forall>ts. wb (ub_empty ts) = 0) \<and> (\<forall>c r. wc (bump_cell c r) = wc c + wr r) \<and>
     (\<forall>p c. wb (add_cell p c) = wb p + wc c)"

lemma additive_measures:
  "additive ac_requests ub_requests (\<lambda>_. 1)"
  "additive ac_errors ub_failed (\<lambda>r. if 400 \<le> ur_status_code r then 1 else 0)"
  "additive ac_cost_micro_usd ub_cost_micro_usd ur_cost_micro_usd"
  by (simp_all add: additive_def ac_default_def ub_empty_def bump_cell_def add_cell_def)

lemma sum_bt_alter:
  assumes "bt_ok m"
  shows "(\<Sum>e \<leftarrow> bt_alter k' f m. g (fst e) (snd e)) + (case map_of m k' of None \<Rightarrow> 0 | Some v \<Rightarrow> g k' v) =
    (\<Sum>e \<leftarrow> m. g (fst e) (snd e)) + (g k' (f (map_of m k')) :: u64)"
  using assms
proof (cases rule: bt_alter_split [where k = k' and f = f])
  case (vacant pre post)
  from vacant(2) show ?thesis by (simp add: vacant(3) ac_simps) (simp add: vacant(1))
next
  case (occupied pre v post)
  from occupied(2) show ?thesis by (simp add: occupied(3) ac_simps) (simp add: occupied(1))
qed

definition shows_key :: "history_filter \<Rightarrow> agg_key \<Rightarrow> bool" where
  "shows_key f key = matches_dims f (fst key) (fst (snd key)) (snd (snd key))"

lemma sum_cells_of:
  assumes "additive wc wb wr"
  shows "(\<Sum>e \<leftarrow> cells_of rs. if shows_key f (fst e) then wc (snd e) else 0) =
    (\<Sum>r \<leftarrow> filter (hf_matches f) rs. wr r)"
proof (induction rs rule: rev_induct)
  case (snoc r rs)
  have m: "shows_key f (agg_key_of r) = hf_matches f r"
    by (simp add: shows_key_def agg_key_of_def matches_dims_def hf_matches_def)
  show ?case
    using sum_bt_alter [OF bt_ok_cells_of [of rs], where k' = "agg_key_of r"
        and g = "\<lambda>key c. if shows_key f key then wc c else 0"
        and f = "\<lambda>c. bump_cell (case c of None \<Rightarrow> ac_default | Some c \<Rightarrow> c) r"] snoc assms
    by (auto simp: cells_of_snoc m additive_def split: option.splits)
qed (simp add: cells_of_def)

lemma sum_series_cells:
  assumes "additive wc wb wr" "bt_ok (fst acc)"
  shows "bt_ok (fst (foldl (series_cell f w m) acc cells)) \<and>
    (\<Sum>e \<leftarrow> fst (foldl (series_cell f w m) acc cells). wb (snd e)) =
    (\<Sum>e \<leftarrow> fst acc. wb (snd e)) + (\<Sum>e \<leftarrow> cells. if shows_key f (fst e) then wc (snd e) else 0)"
  using assms(2)
proof (induction cells arbitrary: acc)
  case (Cons e cells)
  let ?b = "(m * 60 div w) * w"
  have "bt_ok (fst (series_cell f w m acc e))"
    using Cons.prems by (auto simp: series_cell_def Let_def split: prod.splits intro: bt_intros)
  moreover have "(\<Sum>x \<leftarrow> fst (series_cell f w m acc e). wb (snd x)) =
      (\<Sum>x \<leftarrow> fst acc. wb (snd x)) + (if shows_key f (fst e) then wc (snd e) else 0)"
    using sum_bt_alter [OF Cons.prems, where k' = ?b and g = "\<lambda>_. wb"
        and f = "\<lambda>p. add_cell (case p of None \<Rightarrow> ub_empty ?b | Some p \<Rightarrow> p) (snd e)"] assms(1)
    by (auto simp: series_cell_def Let_def shows_key_def additive_def split: prod.splits option.splits)
  ultimately show ?case using Cons.IH [of "series_cell f w m acc e"] by (simp add: ac_simps)
qed simp

lemma sum_series_minutes:
  assumes "additive wc wb wr" "bt_ok (fst acc)"
    and held: "\<And>m. ms_minute (slot_of ag m) = m \<Longrightarrow> ms_cells (slot_of ag m) = cells_of (filter (\<lambda>r. minute_of r = m) rs)"
    and seen: "\<And>m. filter (\<lambda>r. minute_of r = m) rs \<noteq> [] \<Longrightarrow> ms_minute (slot_of ag m) = m"
  shows "(\<Sum>e \<leftarrow> fst (foldl (series_minute ag f w) acc ms). wb (snd e)) =
    (\<Sum>e \<leftarrow> fst acc. wb (snd e)) + (\<Sum>m \<leftarrow> ms. \<Sum>r \<leftarrow> filter (\<lambda>r. minute_of r = m \<and> hf_matches f r) rs. wr r)"
  using assms(2)
proof (induction ms arbitrary: acc)
  case (Cons m ms)
  have two: "filter (hf_matches f) (filter (\<lambda>r. minute_of r = m) rs) = filter (\<lambda>r. minute_of r = m \<and> hf_matches f r) rs"
    by (simp add: filter_filter conj_commute)
  have "bt_ok (fst (series_minute ag f w acc m)) \<and>
      (\<Sum>e \<leftarrow> fst (series_minute ag f w acc m). wb (snd e)) =
      (\<Sum>e \<leftarrow> fst acc. wb (snd e)) + (\<Sum>r \<leftarrow> filter (\<lambda>r. minute_of r = m \<and> hf_matches f r) rs. wr r)"
  proof (cases "ms_minute (slot_of ag m) = m")
    case True
    with sum_series_cells [OF assms(1) Cons.prems, of f w m "ms_cells (slot_of ag m)"] held [OF True]
      sum_cells_of [OF assms(1), of f "filter (\<lambda>r. minute_of r = m) rs"] two
    show ?thesis by (simp add: series_minute_def)
  next
    case False
    then have "filter (\<lambda>r. minute_of r = m) rs = []" using seen by blast
    then have "filter (\<lambda>r. minute_of r = m \<and> hf_matches f r) rs = []" using two by simp
    with False Cons.prems show ?thesis by (simp add: series_minute_def)
  qed
  with Cons.IH [of "series_minute ag f w acc m"] show ?case by (simp add: ac_simps)
qed simp

lemma sum_over_minutes:
  "distinct ms \<Longrightarrow> (\<Sum>m \<leftarrow> ms. \<Sum>r \<leftarrow> filter (\<lambda>r. minute_of r = m \<and> P r) rs. (g r :: u64)) =
    (\<Sum>r \<leftarrow> filter (\<lambda>r. minute_of r \<in> set ms \<and> P r) rs. g r)"
proof (induction rs)
  case (Cons r rs)
  have "(\<Sum>m \<leftarrow> ms. \<Sum>q \<leftarrow> filter (\<lambda>q. minute_of q = m \<and> P q) (r # rs). g q) =
      (\<Sum>m \<leftarrow> ms. (if minute_of r = m \<and> P r then g r else 0)) +
      (\<Sum>m \<leftarrow> ms. \<Sum>q \<leftarrow> filter (\<lambda>q. minute_of q = m \<and> P q) rs. g q)"
    by (subst sum_list_addf [symmetric]) (intro arg_cong [of _ _ sum_list] map_cong; simp)
  moreover have "(\<Sum>m \<leftarrow> ms. (if minute_of r = m \<and> P r then g r else 0)) = (if minute_of r \<in> set ms \<and> P r then g r else 0)"
    using Cons.prems by (induction ms) auto
  ultimately show ?case using Cons by simp
qed simp

lemma minutes_between:
  "distinct (minutes_between a b)" "m \<in> set (minutes_between a b) \<longleftrightarrow> a \<le> m \<and> m \<le> b"
proof -
  have small: "n < 2 ^ 64" if "n < unat b + 1" for n using that unat_lt_2_64 [of b] by simp
  then have u: "unat (of_nat n :: u64) = n" if "n < unat b + 1" for n
    using that by (simp add: unat_of_nat take_bit_nat_eq_self)
  have "inj_on (of_nat :: nat \<Rightarrow> u64) {unat a ..< unat b + 1}" by (rule inj_onI) (metis u atLeastLessThan_iff)
  then show "distinct (minutes_between a b)" by (simp add: minutes_between_def distinct_map del: upt_Suc set_upt)
      (simp del: upt_Suc)
  show "m \<in> set (minutes_between a b) \<longleftrightarrow> a \<le> m \<and> m \<le> b"
  proof
    assume "m \<in> set (minutes_between a b)"
    then show "a \<le> m \<and> m \<le> b" by (auto simp: minutes_between_def word_le_nat_alt u simp del: upt_Suc)
  next
    assume "a \<le> m \<and> m \<le> b"
    then have "unat m \<in> {unat a ..< unat b + 1}" by (simp add: word_le_nat_alt)
    then show "m \<in> set (minutes_between a b)"
      unfolding minutes_between_def by (force simp del: upt_Suc simp: image_iff intro: bexI [of _ "unat m"])
  qed
qed

lemma series_total:
  assumes "additive wc wb wr" "one_day rs" "under_the_cap rs"
  shows "(\<Sum>p \<leftarrow> fst (agg_series (foldl agg_record (agg_new t0) rs) since_ms until_ms secs f). wb p) =
    (\<Sum>r \<leftarrow> filter (\<lambda>r. since_ms div 60000 \<le> minute_of r \<and> minute_of r \<le> until_ms div 60000 \<and> hf_matches f r) rs. wr r)"
  using sum_series_minutes [OF assms(1) _ slots_hold_the_records [OF assms(2,3), where ?t0.0 = t0], where acc = "([], [])"
      and f = f and w = "max secs 60" and ms = "minutes_between (since_ms div 60000) (until_ms div 60000)"]
  by (simp add: agg_series_def case_prod_beta comp_def sum_over_minutes minutes_between conj_assoc)


definition sample_record :: "u64 \<Rightarrow> string \<Rightarrow> string \<Rightarrow> u16 \<Rightarrow> u64 \<Rightarrow> usage_record" where
  "sample_record ts rid model status cost =
     \<lparr>ur_ts = ts, ur_request_id = rid, ur_endpoint = ''chat'', ur_requested = model, ur_provider = ''openai'',
      ur_model = model, ur_vkey = None, ur_status_code = status, ur_stream = False, ur_input_tokens = 10,
      ur_output_tokens = 5, ur_cached_tokens = 0, ur_cost_micro_usd = cost, ur_latency_ms = 800,
      ur_overhead_us = 90, ur_attempts = 1, ur_tag = None, ur_prompt = None, ur_account = None,
      ur_reasoning_effort = None\<rparr>"

definition no_filter :: history_filter where
  "no_filter = \<lparr>hf_provider = None, hf_model = None, hf_vkey = None\<rparr>"

lemma under_the_cap_few: "length rs < MAX_KEYS_PER_MINUTE \<Longrightarrow> under_the_cap rs"
  unfolding under_the_cap_def
proof
  fix m assume "length rs < MAX_KEYS_PER_MINUTE"
  moreover have "card (agg_key_of ` set (filter (\<lambda>r. minute_of r = m) rs)) \<le> length (filter (\<lambda>r. minute_of r = m) rs)"
    by (meson card_image_le card_length finite_set le_trans)
  ultimately show "card (agg_key_of ` set (filter (\<lambda>r. minute_of r = m) rs)) < MAX_KEYS_PER_MINUTE"
    using length_filter_le [of _ rs] by (meson le_less_trans le_trans)
qed


text \<open>
  Once a minute holds its 512 keys, nothing more of that minute is counted, the keys already in the
  slot included.
\<close>

lemma a_full_minute_counts_nothing:
  assumes "ms_minute (slot_of ag (minute_of r)) = minute_of r"
    and "MAX_KEYS_PER_MINUTE \<le> length (ms_cells (slot_of ag (minute_of r)))"
  shows "ag_slots (agg_record ag r) = ag_slots ag"
  using assms by (simp add: agg_record_def Let_def minute_of_def slot_record_def slot_of_def)

end
