(* ===== verification/Usage_Rollup.thy ===== *)
theory Usage_Rollup
  imports Usage_Window
begin

text \<open>
  Hourly rows and how they fold (\<open>RollupRow\<close>, \<open>fold_rows\<close>, \<open>roll_up\<close>, \<open>RecentRollups\<close> of
  \<open>crates/router-server/src/usage.rs\<close>, \<open>to_daily\<close> of \<open>rollup_cache.rs\<close>). The locale of \<open>Sorted_Map\<close> is
  interpreted on the rows: the flusher may cut the records into batches as it likes, and the files may
  be read in any order.
\<close>

section \<open>Rows\<close>

definition HOUR_MS :: u64 where "HOUR_MS = 3600000"
definition DAY_MS :: u64 where "DAY_MS = 86400000"

record rollup_row =
  rr_hour_ms :: u64
  rr_row_provider :: string
  rr_model :: string
  rr_vkey :: "string option"
  rr_requests :: u64
  rr_failed :: u64
  rr_input_tokens :: u64
  rr_output_tokens :: u64
  rr_cached_tokens :: u64
  rr_cost_micro_usd :: u64
  rr_latency_ms_sum :: u64
  rr_attempts :: u64
  rr_latency :: latency_histogram

type_synonym row_key = "u64 \<times> string \<times> string \<times> string option"

definition row_key :: "rollup_row \<Rightarrow> row_key" where
  "row_key row = (rr_hour_ms row, rr_row_provider row, rr_model row, rr_vkey row)"

definition row_absorb :: "rollup_row \<Rightarrow> rollup_row \<Rightarrow> rollup_row" where
  "row_absorb row other =
     row\<lparr>rr_requests := rr_requests row + rr_requests other,
         rr_failed := rr_failed row + rr_failed other,
         rr_input_tokens := rr_input_tokens row + rr_input_tokens other,
         rr_output_tokens := rr_output_tokens row + rr_output_tokens other,
         rr_cached_tokens := rr_cached_tokens row + rr_cached_tokens other,
         rr_cost_micro_usd := rr_cost_micro_usd row + rr_cost_micro_usd other,
         rr_latency_ms_sum := rr_latency_ms_sum row + rr_latency_ms_sum other,
         rr_attempts := rr_attempts row + rr_attempts other,
         rr_latency := hist_merge (rr_latency row) (rr_latency other)\<rparr>"

definition row_empty :: "u64 \<Rightarrow> string \<Rightarrow> string \<Rightarrow> string option \<Rightarrow> rollup_row" where
  "row_empty hour_ms provider model vkey =
     \<lparr>rr_hour_ms = hour_ms, rr_row_provider = provider, rr_model = model, rr_vkey = vkey, rr_requests = 0,
      rr_failed = 0, rr_input_tokens = 0, rr_output_tokens = 0, rr_cached_tokens = 0, rr_cost_micro_usd = 0,
      rr_latency_ms_sum = 0, rr_attempts = 0, rr_latency = []\<rparr>"

type_synonym row_map = "(row_key \<times> rollup_row) list"

definition absorb_row :: "row_map \<Rightarrow> rollup_row \<Rightarrow> row_map" where
  "absorb_row m row = bt_alter (row_key row) (\<lambda>slot. case slot of None \<Rightarrow> row | Some x \<Rightarrow> row_absorb x row) m"

definition fold_rows :: "rollup_row list \<Rightarrow> rollup_row list" where
  "fold_rows rows = map snd (foldl absorb_row [] rows)"

definition hour_of :: "usage_record \<Rightarrow> u64" where
  "hour_of r = ur_ts r - ur_ts r mod HOUR_MS"

definition row_count :: "rollup_row \<Rightarrow> usage_record \<Rightarrow> rollup_row" where
  "row_count row r =
     row\<lparr>rr_requests := rr_requests row + 1,
         rr_failed := rr_failed row + (if 400 \<le> ur_status_code r then 1 else 0),
         rr_input_tokens := rr_input_tokens row + ur_input_tokens r,
         rr_output_tokens := rr_output_tokens row + ur_output_tokens r,
         rr_cached_tokens := rr_cached_tokens row + ur_cached_tokens r,
         rr_cost_micro_usd := rr_cost_micro_usd row + ur_cost_micro_usd r,
         rr_latency_ms_sum := rr_latency_ms_sum row + ur_latency_ms r,
         rr_attempts := rr_attempts row + ucast (ur_attempts r),
         rr_latency := hist_record (rr_latency row) (ur_latency_ms r)\<rparr>"

definition roll_up :: "usage_record list \<Rightarrow> rollup_row list" where
  "roll_up batch =
     map snd (foldl (\<lambda>rows r.
       bt_alter (hour_of r, ur_provider r, ur_model r, ur_vkey r)
         (\<lambda>slot. row_count (case slot of None \<Rightarrow> row_empty (hour_of r) (ur_provider r) (ur_model r) (ur_vkey r)
                             | Some row \<Rightarrow> row) r) rows) [] batch)"

definition to_daily :: "rollup_row list \<Rightarrow> rollup_row list" where
  "to_daily rows = fold_rows (map (\<lambda>row. row\<lparr>rr_hour_ms := rr_hour_ms row - rr_hour_ms row mod 86400000\<rparr>) rows)"

section \<open>Folding is summing\<close>

definition row_ok :: "rollup_row \<Rightarrow> bool" where
  "row_ok row = bt_ok (rr_latency row)"

interpretation rows: accumulator row_key row_absorb row_ok
proof
  fix a b c :: rollup_row
  show "row_key (row_absorb a b) = row_key a" by (simp add: row_key_def row_absorb_def)
  show "row_ok a \<Longrightarrow> row_ok b \<Longrightarrow> row_ok (row_absorb a b)"
    by (simp add: row_ok_def row_absorb_def bt_ok_merge)
  show "row_ok a \<Longrightarrow> row_ok b \<Longrightarrow> row_key a = row_key b \<Longrightarrow> row_absorb a b = row_absorb b a"
    by (cases a; cases b) (simp add: row_ok_def row_key_def row_absorb_def hist_merge_commute add.commute)
  show "row_ok a \<Longrightarrow> row_ok b \<Longrightarrow> row_ok c \<Longrightarrow> row_absorb (row_absorb a b) c = row_absorb a (row_absorb b c)"
    by (simp add: row_ok_def row_absorb_def hist_merge_assoc add.assoc)
qed

lemma absorb_row_pour: "absorb_row = rows.pour"
  by (simp add: fun_eq_iff absorb_row_def rows.pour_def)

lemma fold_rows_pours: "fold_rows rs = map snd (foldl rows.pour [] rs)"
  by (simp add: fold_rows_def absorb_row_pour)

text \<open>A record counts as a row of its own.\<close>

definition row_of :: "usage_record \<Rightarrow> rollup_row" where
  "row_of r = row_count (row_empty (hour_of r) (ur_provider r) (ur_model r) (ur_vkey r)) r"

lemma row_of_ok [simp]: "row_ok (row_of r)"
  by (simp add: row_ok_def row_of_def row_count_def row_empty_def hist_record_Nil)

lemma row_key_row_of: "row_key (row_of r) = (hour_of r, ur_provider r, ur_model r, ur_vkey r)"
  by (simp add: row_key_def row_of_def row_count_def row_empty_def)

lemma row_count_absorb: "row_ok row \<Longrightarrow> row_count row r = row_absorb row (row_of r)"
  by (simp add: row_count_def row_of_def row_absorb_def row_empty_def row_ok_def hist_record_merge hist_record_Nil)

lemma bt_alter_cong:
  assumes "bt_ok m" "f (map_of m k) = g (map_of m k)"
  shows "bt_alter k f m = bt_alter k g m"
  by (rule bt_ext) (use assms in \<open>auto simp: map_of_bt_alter intro: bt_intros\<close>)

lemma roll_up_pours: "roll_up batch = map snd (foldl rows.pour [] (map row_of batch))"
proof -
  have "foldl (\<lambda>rows r.
       bt_alter (hour_of r, ur_provider r, ur_model r, ur_vkey r)
         (\<lambda>slot. row_count (case slot of None \<Rightarrow> row_empty (hour_of r) (ur_provider r) (ur_model r) (ur_vkey r)
                             | Some row \<Rightarrow> row) r) rows) m batch = foldl rows.pour m (map row_of batch)"
    if "rows.good m" for m
    using that
  proof (induction batch arbitrary: m)
    case (Cons r batch)
    have "bt_alter (hour_of r, ur_provider r, ur_model r, ur_vkey r)
         (\<lambda>slot. row_count (case slot of None \<Rightarrow> row_empty (hour_of r) (ur_provider r) (ur_model r) (ur_vkey r)
                             | Some row \<Rightarrow> row) r) m = rows.pour m (row_of r)"
      unfolding rows.pour_def row_key_row_of
    proof (rule bt_alter_cong)
      show "bt_ok m" using Cons.prems by simp
      show "row_count (case map_of m (hour_of r, ur_provider r, ur_model r, ur_vkey r) of
              None \<Rightarrow> row_empty (hour_of r) (ur_provider r) (ur_model r) (ur_vkey r) | Some row \<Rightarrow> row) r =
          (case map_of m (hour_of r, ur_provider r, ur_model r, ur_vkey r) of
             None \<Rightarrow> row_of r | Some x \<Rightarrow> row_absorb x (row_of r))"
        using rows.goodD [OF Cons.prems] by (auto simp: row_of_def [symmetric] row_count_absorb split: option.splits)
    qed
    with Cons rows.good_pour [OF Cons.prems row_of_ok] show ?case by simp
  qed simp
  from this [of "[]"] show ?thesis by (simp add: roll_up_def)
qed

lemma good_roll: "\<forall>r \<in> set rs. row_ok r \<Longrightarrow> rows.good (foldl rows.pour [] rs)"
  by (simp add: rows.good_pours)

lemma fold_rows_ok: "\<forall>r \<in> set rs. row_ok r \<Longrightarrow> \<forall>r \<in> set (fold_rows rs). row_ok r"
  using good_roll [of rs] rows.goodD [of "foldl rows.pour [] rs"] bt_ok_distinct [of "foldl rows.pour [] rs"]
  by (auto simp: fold_rows_pours)

text \<open>Rows that were folded, in any grouping, fold to the same rows.\<close>

lemma fold_rows_concat:
  assumes "\<forall>rs \<in> set groups. \<forall>r \<in> set rs. row_ok r"
  shows "foldl rows.pour [] (concat (map fold_rows groups)) = foldl rows.pour [] (concat groups)"
proof -
  have "foldl rows.pour m (concat (map fold_rows groups)) = foldl rows.pour m (concat groups)" if "rows.good m" for m
    using assms that
  proof (induction groups arbitrary: m)
    case (Cons rs groups)
    then show ?case using rows.fold_twice [of m rs] rows.good_pours [of m rs] by (simp add: fold_rows_pours)
  qed simp
  then show ?thesis by simp
qed

lemma fold_rows_any_order:
  "\<forall>r \<in> set rs. row_ok r \<Longrightarrow> mset rs = mset rs' \<Longrightarrow> fold_rows rs = fold_rows rs'"
  using rows.any_order [of "[]" rs rs'] by (simp add: fold_rows_pours)

lemma mset_concat_cong: "mset xs = mset ys \<Longrightarrow> mset (concat xs) = mset (concat ys)"
proof -
  have "mset (concat xs) = sum_mset (image_mset mset (mset xs))" for xs :: "'a list list"
    by (induction xs) simp_all
  then show "mset xs = mset ys \<Longrightarrow> mset (concat xs) = mset (concat ys)" by simp
qed

text \<open>
  Property C35. The flusher's batches are invisible: however the records of a period were cut into
  batches and in whatever order their rollup files are read back, folding the rows gives the rows of
  all the records rolled up at once.
\<close>

theorem rollups_do_not_depend_on_batches:
  assumes "mset (concat batches) = mset records"
    and "mset files = mset (map roll_up batches)"
  shows "fold_rows (concat files) = roll_up records"
proof -
  have ok: "\<forall>rs \<in> set (map (map row_of) bs). \<forall>r \<in> set rs. row_ok r" for bs by auto
  have rolled: "roll_up b = fold_rows (map row_of b)" for b
    by (simp add: roll_up_pours fold_rows_pours)
  have same: "mset (concat files) = mset (concat (map roll_up batches))" by (rule mset_concat_cong [OF assms(2)])
  have "\<forall>r \<in> set (roll_up b). row_ok r" for b
    unfolding rolled by (rule fold_rows_ok) simp
  then have "\<forall>r \<in> set (concat (map roll_up batches)). row_ok r" by auto
  then have "fold_rows (concat (map roll_up batches)) = fold_rows (concat files)"
    by (rule fold_rows_any_order) (simp add: same)
  then have "fold_rows (concat files) = fold_rows (concat (map roll_up batches))" by simp
  also have "\<dots> = fold_rows (concat (map (map row_of) batches))"
    using fold_rows_concat [OF ok, of batches] by (simp add: fold_rows_pours roll_up_pours [abs_def] comp_def)
  also have "\<dots> = fold_rows (map row_of (concat batches))" by (simp add: map_concat)
  also have "\<dots> = fold_rows (map row_of records)"
    by (rule fold_rows_any_order) (use assms(1) in \<open>auto simp: mset_map\<close>)
  finally show ?thesis by (simp add: rolled)
qed

theorem rollups_do_not_depend_on_batches_witness:
  "fold_rows (roll_up [sample_record 7200000 ''b'' ''o3'' 500 2] @
              roll_up [sample_record 60000 ''a'' ''o3'' 200 7, sample_record 7300000 ''c'' ''o3'' 200 1]) =
   roll_up [sample_record 60000 ''a'' ''o3'' 200 7, sample_record 7200000 ''b'' ''o3'' 500 2,
            sample_record 7300000 ''c'' ''o3'' 200 1]"
  using rollups_do_not_depend_on_batches
    [of "[[sample_record 60000 ''a'' ''o3'' 200 7, sample_record 7300000 ''c'' ''o3'' 200 1],
          [sample_record 7200000 ''b'' ''o3'' 500 2]]"
        "[sample_record 60000 ''a'' ''o3'' 200 7, sample_record 7200000 ''b'' ''o3'' 500 2,
          sample_record 7300000 ''c'' ''o3'' 200 1]"
        "[roll_up [sample_record 7200000 ''b'' ''o3'' 500 2],
          roll_up [sample_record 60000 ''a'' ''o3'' 200 7, sample_record 7300000 ''c'' ''o3'' 200 1]]"]
  by simp

section \<open>Days are sums of hours\<close>

lemma unat_word_floor: "unat (a - a mod k :: u64) = unat k * (unat a div unat k)"
proof -
  have "a mod k \<le> a" by (simp add: word_le_nat_alt unat_mod_distrib)
  then have "unat (a - a mod k) = unat a - unat a mod unat k"
    by (simp add: unat_sub_if' word_le_nat_alt unat_mod_distrib)
  then show ?thesis by (simp add: minus_mod_eq_mult_div)
qed

lemma word_floor_mod: "(a - a mod k) mod (k :: u64) = 0"
  by (rule word_unat_eq_iff [THEN iffD2]) (simp add: unat_mod_distrib unat_word_floor)

definition at_midnight :: "rollup_row \<Rightarrow> rollup_row" where
  "at_midnight row = row\<lparr>rr_hour_ms := rr_hour_ms row - rr_hour_ms row mod 86400000\<rparr>"

lemma to_daily_fold: "to_daily rs = fold_rows (map at_midnight rs)"
  by (simp add: to_daily_def at_midnight_def [abs_def])

lemma at_midnight_ok [simp]: "row_ok (at_midnight row) = row_ok row"
  by (simp add: at_midnight_def row_ok_def)

lemma at_midnight_absorb: "at_midnight (row_absorb a b) = row_absorb (at_midnight a) (at_midnight b)"
  by (simp add: at_midnight_def row_absorb_def)

lemma at_midnight_key: "row_key a = row_key b \<Longrightarrow> row_key (at_midnight a) = row_key (at_midnight b)"
  by (simp add: at_midnight_def row_key_def)

lemma pours_midnight_pour:
  assumes "rows.good m" "rows.good n" "row_ok r"
  shows "foldl rows.pour m (map at_midnight (map snd (rows.pour n r))) =
    rows.pour (foldl rows.pour m (map at_midnight (map snd n))) (at_midnight r)"
proof -
  have okn: "\<forall>e \<in> set n. row_ok (snd e)"
    using rows.goodD [OF assms(2)] assms(2) bt_ok_distinct [of n] by (auto simp: split_paired_all)
  have "bt_ok n" using assms(2) by simp
  then show ?thesis
  proof (cases rule: bt_alter_split [where k = "row_key r" and f = "\<lambda>slot. case slot of None \<Rightarrow> r | Some x \<Rightarrow> row_absorb x r"])
    case (vacant pre post)
    have "foldl rows.pour m (map at_midnight (map snd (rows.pour n r))) =
        foldl rows.pour m (map at_midnight (map snd n) @ [at_midnight r])"
      by (rule rows.any_order) (use assms vacant okn in \<open>simp_all add: rows.pour_def ball_Un\<close>)
    then show ?thesis by simp
  next
    case (occupied pre v post)
    have v: "row_ok v" "row_key v = row_key r" using occupied rows.goodD [OF assms(2)] by auto
    let ?rest = "map at_midnight (map snd pre @ map snd post)"
    have okr: "\<forall>x \<in> set ?rest. row_ok x" using occupied okn by (simp add: ball_Un)
    have g: "rows.good (foldl rows.pour m ?rest)" using assms(1) okr by (rule rows.good_pours)
    have "foldl rows.pour m (map at_midnight (map snd (rows.pour n r))) =
        foldl rows.pour m (?rest @ [row_absorb (at_midnight v) (at_midnight r)])"
      by (rule rows.any_order)
        (use assms v okr occupied in \<open>auto simp: rows.pour_def at_midnight_absorb [symmetric] rows.ok_absorb\<close>)
    also have "\<dots> = rows.pour (rows.pour (foldl rows.pour m ?rest) (at_midnight v)) (at_midnight r)"
      using rows.pour_absorbed [OF g, of "at_midnight v" "at_midnight r"] v assms(3) at_midnight_key [OF v(2)] by simp
    also have "rows.pour (foldl rows.pour m ?rest) (at_midnight v) = foldl rows.pour m (?rest @ [at_midnight v])" by simp
    also have "\<dots> = foldl rows.pour m (map at_midnight (map snd n))"
      by (rule rows.any_order) (use assms v okr occupied in auto)
    finally show ?thesis .
  qed
qed

text \<open>
  A month read from hourly rows and a month read from rows that were folded to days, or
  folded to hours first, are the same rows: the tiers of the cache agree.
\<close>

theorem tiers_agree:
  assumes "\<forall>r \<in> set rs. row_ok r"
  shows "to_daily (fold_rows rs) = to_daily rs \<and> to_daily (to_daily rs) = to_daily rs"
proof -
  have daily: "foldl rows.pour [] (map at_midnight (map snd (foldl rows.pour [] rs))) = foldl rows.pour [] (map at_midnight rs)"
    if "\<forall>r \<in> set rs. row_ok r" for rs
    using that
  proof (induction rs rule: rev_induct)
    case (snoc r rs)
    then show ?case using pours_midnight_pour [of "[]" "foldl rows.pour [] rs" r] good_roll [of rs] by simp
  qed simp
  have twice: "at_midnight (at_midnight r) = at_midnight r" for r
    by (simp add: at_midnight_def word_floor_mod)
  have "\<forall>r \<in> set (map at_midnight rs). row_ok r" using assms by simp
  from daily [OF assms] daily [OF this] show ?thesis
    by (simp add: to_daily_fold fold_rows_pours comp_def twice)
qed

theorem tiers_agree_witness:
  "to_daily (fold_rows (roll_up [sample_record 60000 ''a'' ''o3'' 200 7, sample_record 7300000 ''c'' ''o3'' 200 1])) =
   to_daily (roll_up [sample_record 60000 ''a'' ''o3'' 200 7, sample_record 7300000 ''c'' ''o3'' 200 1])"
proof -
  let ?b = "[sample_record 60000 ''a'' ''o3'' 200 7, sample_record 7300000 ''c'' ''o3'' 200 1]"
  have "\<forall>r \<in> set (fold_rows (map row_of ?b)). row_ok r" by (rule fold_rows_ok) simp
  then have "\<forall>r \<in> set (roll_up ?b). row_ok r" by (simp only: roll_up_pours fold_rows_pours)
  from tiers_agree [OF this] show ?thesis by blast
qed

section \<open>The hours in memory\<close>

definition RECENT_ROLLUP_SPAN_MS :: u64 where "RECENT_ROLLUP_SPAN_MS = 2 * 86400000"

record recent_rollups =
  rc_rows :: row_map
  rc_seeded :: bool

definition rc_default :: recent_rollups where
  "rc_default = \<lparr>rc_rows = [], rc_seeded = False\<rparr>"

definition rc_absorb :: "recent_rollups \<Rightarrow> rollup_row list \<Rightarrow> recent_rollups" where
  "rc_absorb rc rows = rc\<lparr>rc_rows := foldl absorb_row (rc_rows rc) rows\<rparr>"

definition rc_evict_before :: "recent_rollups \<Rightarrow> u64 \<Rightarrow> recent_rollups" where
  "rc_evict_before rc floor_ms = rc\<lparr>rc_rows := filter (\<lambda>((hour_ms, _), _). floor_ms \<le> hour_ms) (rc_rows rc)\<rparr>"

definition rc_floor_ms :: "recent_rollups \<Rightarrow> u64 \<Rightarrow> u64 option" where
  "rc_floor_ms rc now_ms =
     (if rc_seeded rc then Some (u64_saturating_sub now_ms RECENT_ROLLUP_SPAN_MS) else None)"

end
