(* ===== verification/Usage_Calendar.thy ===== *)
theory Usage_Calendar
  imports Usage_Rollup
begin

text \<open>
  Day and month partitions of the usage directory: \<open>civil\<close>, \<open>day_partition\<close>, \<open>day_start_ms\<close>,
  \<open>month_start_ms\<close>, \<open>month_end_ms\<close> and \<open>month_partition\<close> of \<open>crates/router-server/src/usage.rs\<close>, and \<open>month_of\<close>
  of \<open>rollup_cache.rs\<close>. Different days have different names, and the search for the end of a month ends.
\<close>

section \<open>Definitions\<close>

definition civil :: "int \<Rightarrow> int \<times> int \<times> int" where
  "civil z0 =
     (let z = i64 (z0 + 719468);
          era = i64_div (if z \<ge> 0 then z else i64 (z - 146096)) 146097;
          doe = z - era * 146097;
          yoe = (doe - doe div 1460 + doe div 36524 - doe div 146096) div 365;
          y = yoe + era * 400;
          doy = doe - (365 * yoe + yoe div 4 - yoe div 100);
          mp = (5 * doy + 2) div 153;
          d = doy - (153 * mp + 2) div 5 + 1;
          m = (if mp < 10 then mp + 3 else mp - 9)
      in (if m \<le> 2 then y + 1 else y, m, d))"

text \<open>\<open>{:04}\<close> and \<open>{:02}\<close> of a number that is not negative.\<close>

definition padded :: "nat \<Rightarrow> nat \<Rightarrow> string" where
  "padded w n = (let s = decimal n in replicate (w - length s) CHR ''0'' @ s)"

definition day_name :: "u64 \<Rightarrow> string" where
  "day_name day =
     (case civil (uint day) of (y, m, d) \<Rightarrow>
        ''dt='' @ padded 4 (nat y) @ ''-'' @ padded 2 (nat m) @ ''-'' @ padded 2 (nat d))"

definition day_partition :: "u64 \<Rightarrow> string" where
  "day_partition ts_ms = day_name (ts_ms div 86400000)"

definition month_partition :: "u64 \<Rightarrow> string" where
  "month_partition ts_ms = ''ym='' @ take 7 (drop 3 (day_partition ts_ms))"

definition month_of :: "string \<Rightarrow> string option" where
  "month_of day =
     Option.bind (strip_prefix ''dt='' day) (\<lambda>date.
       if 7 \<le> length date then Some (''ym='' @ take 7 date) else None)"

text \<open>The binary search over days, for a given bound on the remaining interval.\<close>

fun day_search :: "nat \<Rightarrow> string \<Rightarrow> u64 \<Rightarrow> u64 \<Rightarrow> u64" where
  "day_search 0 day low high = low"
| "day_search (Suc n) day low high =
     (if low < high then
        let mid = (low + high) div 2 in
        if day_partition (mid * DAY_MS) < day then day_search n day (mid + 1) high
        else day_search n day low mid
      else low)"

definition day_start_ms :: "string \<Rightarrow> u64 option" where
  "day_start_ms day =
     (if \<not> starts_with ''dt='' day then None
      else let low = day_search 17 day 0 65536
           in if day_partition (low * DAY_MS) = day then Some (low * DAY_MS) else None)"

definition month_start_ms :: "u64 \<Rightarrow> u64" where
  "month_start_ms ts_ms =
     (let day = ts_ms div DAY_MS in
      case civil (uint day) of (_, _, d) \<Rightarrow> (day - word_of_int (d - 1)) * DAY_MS)"

definition year_month :: "u64 \<Rightarrow> int \<times> int" where
  "year_month ms = (case civil (uint (ms div DAY_MS)) of (y, m, _) \<Rightarrow> (y, m))"

text \<open>The walk to the end of the month; \<open>None\<close> is a walk longer than the steps allowed.\<close>

fun month_walk :: "nat \<Rightarrow> int \<times> int \<Rightarrow> u64 \<Rightarrow> u64 option" where
  "month_walk 0 ym cursor = None"
| "month_walk (Suc n) ym cursor =
     (if year_month cursor \<noteq> ym then Some (cursor - cursor mod DAY_MS) else month_walk n ym (cursor + DAY_MS))"

definition month_end_ms :: "u64 \<Rightarrow> u64 option" where
  "month_end_ms ts_ms =
     (let start = month_start_ms ts_ms in month_walk 4 (year_month start) (start + 28 * DAY_MS))"

section \<open>The parts of a date\<close>

lemma era_year_bounds:
  assumes "0 \<le> doe" "doe \<le> 146096"
  shows "0 \<le> era_year doe" "era_year doe < 400" "era_start (era_year doe) \<le> doe" "doe \<le> era_ends (era_year doe)"
proof -
  have ends: "era_year 0 = 0" "era_year 146096 = 399" by (simp_all add: era_year_def)
  show lo: "0 \<le> era_year doe" and hi: "era_year doe < 400"
    using era_year_mono [OF assms(1)] era_year_mono [OF assms(2)] ends by simp_all
  show "era_start (era_year doe) \<le> doe"
  proof (rule ccontr)
    assume less: "\<not> ?thesis"
    have pos: "0 < era_year doe" using less lo assms(1) by (cases "era_year doe = 0") (auto simp: era_start_def)
    then have "era_ends (era_year doe - 1) = era_start (era_year doe) - 1" using hi by (simp add: era_ends_def)
    then have "era_year doe \<le> era_year (era_ends (era_year doe - 1))" using less by (intro era_year_mono) simp
    then show False using era_facts(2) [of "era_year doe - 1"] pos hi by simp
  qed
  show "doe \<le> era_ends (era_year doe)"
  proof (rule ccontr)
    assume more: "\<not> ?thesis"
    then have small: "era_year doe < 399" using hi assms(2) by (cases "era_year doe = 399") (auto simp: era_ends_def)
    then have "era_ends (era_year doe) = era_start (era_year doe + 1) - 1" by (simp add: era_ends_def)
    then have "era_year (era_start (era_year doe + 1)) \<le> era_year doe" using more by (intro era_year_mono) simp
    then show False using era_facts(1) [of "era_year doe + 1"] lo small by simp
  qed
qed

text \<open>A day is an era, a year of it and a day of that year; the date is read off these.\<close>

definition date_of :: "int \<Rightarrow> int \<Rightarrow> int \<Rightarrow> int \<times> int \<times> int" where
  "date_of era yoe doy =
     (let mp = (5 * doy + 2) div 153; m = (if mp < 10 then mp + 3 else mp - 9)
      in (if m \<le> 2 then yoe + era * 400 + 1 else yoe + era * 400, m, doy - (153 * mp + 2) div 5 + 1))"

lemma civil_parts:
  assumes "0 \<le> z" "z < 2 ^ 60"
  obtains era yoe doy where "z = era * 146097 + era_start yoe + doy - 719468" "0 \<le> era" "0 \<le> yoe" "yoe < 400"
    "0 \<le> doy" "doy \<le> 365" "era_start yoe + doy \<le> era_ends yoe" "civil z = date_of era yoe doy"
proof -
  define era where "era = (z + 719468) div 146097"
  define doe where "doe = (z + 719468) mod 146097"
  have doe: "0 \<le> doe" "doe \<le> 146096" using pos_mod_bound [of 146097 "z + 719468"] by (simp_all add: doe_def)
  have i: "i64 (z + 719468) = z + 719468" by (rule i64_id) (use assms in simp_all)
  have dv: "i64_div (z + 719468) 146097 = era" using assms by (simp add: i64_div_def era_def)
  have md: "z + 719468 - era * 146097 = doe" by (simp add: era_def doe_def minus_div_mult_eq_mod)
  define yoe where "yoe = era_year doe"
  define doy where "doy = doe - era_start yoe"
  note ey = era_year_bounds [OF doe, folded yoe_def]
  have "doe \<le> era_start yoe + 365"
    using ey(4) era_facts(3) [OF ey(1,2)] by (auto split: if_splits)
  then have doy: "0 \<le> doy" "doy \<le> 365" "era_start yoe + doy = doe" using ey(3) by (simp_all add: doy_def)
  have cond: "(if z + 719468 \<ge> 0 then z + 719468 else i64 (z + 719468 - 146096)) = z + 719468"
    using assms(1) by simp
  have y: "(doe - doe div 1460 + doe div 36524 - doe div 146096) div 365 = yoe"
    by (simp only: yoe_def era_year_def)
  have y': "doe - (365 * yoe + yoe div 4 - yoe div 100) = doy" by (simp only: doy_def era_start_def)
  have "civil z = date_of era yoe doy"
    unfolding civil_def Let_def i cond dv md y y' date_of_def by (rule refl)
  moreover have "z = era * 146097 + era_start yoe + doy - 719468" using md doy(3) by linarith
  moreover have "0 \<le> era" unfolding era_def using assms(1) by (intro pos_imp_zdiv_nonneg_iff [THEN iffD2]) simp_all
  moreover have "era_start yoe + doy \<le> era_ends yoe" using ey(4) doy(3) by simp
  ultimately show ?thesis using that ey(1,2) doy(1,2) by blast
qed

lemma month_starts: "list_all (\<lambda>mp. (5 * ((153 * mp + 2) div 5) + 2) div 153 = mp) [0..11]"
  by code_simp

lemma month_facts:
  assumes "0 \<le> doy" "doy \<le> (365 :: int)" "mp = (5 * doy + 2) div 153"
  shows "0 \<le> mp" "mp \<le> 11" "1 \<le> doy - (153 * mp + 2) div 5 + 1" "doy - (153 * mp + 2) div 5 + 1 \<le> 31"
    "(5 * ((153 * mp + 2) div 5) + 2) div 153 = mp"
proof -
  show mp: "0 \<le> mp" "mp \<le> 11" using assms by linarith+
  have "153 * mp \<le> 5 * doy + 2" "5 * doy + 2 < 153 * mp + 153" using assms(3) by linarith+
  then show "1 \<le> doy - (153 * mp + 2) div 5 + 1" "doy - (153 * mp + 2) div 5 + 1 \<le> 31" by linarith+
  show "(5 * ((153 * mp + 2) div 5) + 2) div 153 = mp" using month_starts mp by (simp add: list_all_iff)
qed

lemma date_of_inj:
  assumes "date_of era yoe doy = date_of era' yoe' doy'"
    and "0 \<le> yoe" "yoe < 400" "0 \<le> yoe'" "yoe' < 400" "0 \<le> doy" "doy \<le> 365" "0 \<le> doy'" "doy' \<le> 365"
  shows "era = era' \<and> yoe = yoe' \<and> doy = doy'"
proof -
  define mp where "mp = (5 * doy + 2) div 153"
  define mp' where "mp' = (5 * doy' + 2) div 153"
  note m = month_facts(1,2) [OF assms(6,7) mp_def] month_facts(1,2) [OF assms(8,9) mp'_def]
  have "mp = mp'" "yoe + era * 400 = yoe' + era' * 400"
    using assms(1) m by (auto simp: date_of_def Let_def mp_def [symmetric] mp'_def [symmetric] split: if_splits)
  moreover from this have "era = era'" using assms(2-5) by linarith
  moreover have "doy - (153 * mp + 2) div 5 = doy' - (153 * mp' + 2) div 5"
    using assms(1) by (simp add: date_of_def Let_def mp_def [symmetric] mp'_def [symmetric])
  ultimately show ?thesis by simp
qed


lemma civil_inj:
  assumes "0 \<le> z" "z < 2 ^ 60" "0 \<le> z'" "z' < 2 ^ 60" "civil z = civil z'"
  shows "z = z'"
proof -
  obtain era yoe doy where p: "z = era * 146097 + era_start yoe + doy - 719468" "0 \<le> yoe" "yoe < 400"
    "0 \<le> doy" "doy \<le> 365" "civil z = date_of era yoe doy"
    using assms(1,2) by (rule civil_parts)
  obtain era' yoe' doy' where q: "z' = era' * 146097 + era_start yoe' + doy' - 719468" "0 \<le> yoe'" "yoe' < 400"
    "0 \<le> doy'" "doy' \<le> 365" "civil z' = date_of era' yoe' doy'"
    using assms(3,4) by (rule civil_parts)
  from date_of_inj [of era yoe doy era' yoe' doy'] p q assms(5) show ?thesis by simp
qed

lemma civil_bounds:
  assumes "0 \<le> z" "z < 2 ^ 60" "civil z = (y, m, d)"
  shows "0 \<le> y" "1 \<le> m" "m \<le> 12" "1 \<le> d" "d \<le> 31"
proof -
  obtain era yoe doy where p: "0 \<le> era" "0 \<le> yoe" "0 \<le> doy" "doy \<le> 365" "civil z = date_of era yoe doy"
    using assms(1,2) by (rule civil_parts)
  define mp where "mp = (5 * doy + 2) div 153"
  note mf = month_facts(1-4) [OF p(3,4) mp_def]
  have date: "y = (if (if mp < 10 then mp + 3 else mp - 9) \<le> 2 then yoe + era * 400 + 1 else yoe + era * 400)"
    "m = (if mp < 10 then mp + 3 else mp - 9)" "d = doy - (153 * mp + 2) div 5 + 1"
    using p(5) assms(3) by (simp_all only: date_of_def Let_def mp_def [symmetric] prod.inject)
  show "0 \<le> y" unfolding date(1) using p(1,2) by simp
  show "1 \<le> m" "m \<le> 12" unfolding date(2) using mf(1,2) by simp_all
  show "1 \<le> d" "d \<le> 31" unfolding date(3) by (fact mf)+
qed

section \<open>Names of days\<close>

lemma digits_value_append: "digits_value (a @ b) = foldl (\<lambda>n c. 10 * n + int (byte c - 48)) (digits_value a) b"
  by (simp add: digits_value_def)

lemma digits_value_decimal: "digits_value (decimal n) = int n"
proof (induction n rule: decimal.induct)
  case (1 n)
  have byte: "byte (char_of (48 + k) :: char) = 48 + k" if "k < 10" for k :: nat
    using that by (simp add: byte_def)
  show ?case
  proof (cases "n < 10")
    case True
    then show ?thesis by (subst decimal.simps) (simp add: digits_value_def byte)
  next
    case False
    have "10 * int (n div 10) + int (n mod 10) = int (10 * (n div 10) + n mod 10)"
      by (simp only: of_nat_add of_nat_mult of_nat_numeral)
    also have "\<dots> = int n" by (simp only: mult_div_mod_eq)
    finally show ?thesis
      using 1 False by (subst decimal.simps) (simp add: digits_value_append byte)
  qed
qed

lemma decimal_digits: "list_all is_digit (decimal n)"
proof (induction n rule: decimal.induct)
  case (1 n)
  have digit: "is_digit (char_of (48 + k))" if "k < 10" for k :: nat
    using that by (simp add: is_digit_def byte_in_def byte_def)
  show ?case
    using 1 by (cases "n < 10"; subst decimal.simps) (simp_all add: digit)
qed

lemma digits_value_padded: "digits_value (padded w n) = int n"
proof -
  have "digits_value (replicate k CHR ''0'') = 0" for k
    by (induction k) (simp_all add: digits_value_def byte_def)
  then show ?thesis
    using digits_value_decimal [of n] by (simp add: padded_def Let_def digits_value_append) (simp add: digits_value_def)
qed

lemma padded_inj: "padded w m = padded w n \<Longrightarrow> m = n"
  by (metis digits_value_padded of_nat_eq_iff)

lemma padded_no_dash: "CHR ''-'' \<notin> set (padded w n)"
proof -
  have "\<not> is_digit CHR ''-''" by code_simp
  then have "CHR ''-'' \<notin> set (decimal n)" using decimal_digits [of n] unfolding list_all_iff by blast
  then show ?thesis by (simp add: padded_def Let_def)
qed

lemma day_name_inj:
  assumes "uint a < 2 ^ 60" "uint b < 2 ^ 60" "day_name a = day_name b"
  shows "a = b"
proof -
  obtain y m d where a: "civil (uint a) = (y, m, d)" by (cases "civil (uint a)")
  obtain y' m' d' where b: "civil (uint b) = (y', m', d')" by (cases "civil (uint b)")
  note bounds = civil_bounds [OF _ assms(1) a] civil_bounds [OF _ assms(2) b]
  have "split_on CHR ''-'' (padded 4 (nat y) @ ''-'' @ padded 2 (nat m) @ ''-'' @ padded 2 (nat d)) =
      split_on CHR ''-'' (padded 4 (nat y') @ ''-'' @ padded 2 (nat m') @ ''-'' @ padded 2 (nat d'))"
    using assms(3) by (simp add: day_name_def a b)
  then have "padded 4 (nat y) = padded 4 (nat y')" "padded 2 (nat m) = padded 2 (nat m')"
    "padded 2 (nat d) = padded 2 (nat d')"
    by (simp_all add: padded_no_dash)
  then have "nat y = nat y'" "nat m = nat m'" "nat d = nat d'" by (blast intro: padded_inj)+
  with bounds have "y = y'" "m = m'" "d = d'" by simp_all
  with a b have "civil (uint a) = civil (uint b)" by simp
  with assms(1,2) have "uint a = uint b" using civil_inj [of "uint a" "uint b"] by simp
  then show ?thesis by (rule word_uint_eq_iff [THEN iffD2])
qed

lemma unat_DAY_MS [simp]: "unat DAY_MS = 86400000"
  by (simp add: DAY_MS_def)

lemma day_lt: "uint (ms div 86400000 :: u64) < 2 ^ 60"
proof -
  have "unat (ms div 86400000) = unat ms div 86400000" by (simp add: unat_div_distrib)
  also have "\<dots> < 2 ^ 60" using unat_lt_2_64 [of ms] by (subst div_less_iff_less_mult) simp_all
  finally have "int (unat (ms div 86400000)) < int (2 ^ 60)" by (simp only: of_nat_less_iff)
  then show ?thesis unfolding uint_nat by (simp only: of_nat_power of_nat_numeral)
qed

text \<open>
  Two instants have the same day partition only when they are of the same day, so no
  file of one day is ever read for another.
\<close>

theorem day_partitions_are_distinct:
  "day_partition a = day_partition b \<longleftrightarrow> a div 86400000 = b div 86400000"
  using day_name_inj [OF day_lt day_lt, of a b] by (auto simp: day_partition_def)

section \<open>The ends of a month\<close>

lemma civil_of_parts:
  assumes "z = era * 146097 + era_start yoe + doy - 719468" "0 \<le> z" "z < 2 ^ 60"
    and "0 \<le> yoe" "yoe < 400" "0 \<le> doy" "era_start yoe + doy \<le> era_ends yoe"
  shows "civil z = date_of era yoe doy"
proof -
  define doe where "doe = era_start yoe + doy"
  have doe: "0 \<le> doe" "doe \<le> 146096" using era_facts(4,5) [OF assms(4,5)] assms(6,7) by (simp_all add: doe_def)
  have e: "(z + 719468) div 146097 = era" "z + 719468 - era * 146097 = doe"
    using assms(1) doe by (simp_all add: doe_def)
  have i: "i64 (z + 719468) = z + 719468" by (rule i64_id) (use assms in simp_all)
  have dv: "i64_div (z + 719468) 146097 = era" using assms(2) e(1) by (simp add: i64_div_def)
  have cond: "(if z + 719468 \<ge> 0 then z + 719468 else i64 (z + 719468 - 146096)) = z + 719468"
    using assms(2) by simp
  have y: "(doe - doe div 1460 + doe div 36524 - doe div 146096) div 365 = yoe"
    using era_year_of [OF assms(4,5), of doe] assms(6,7) by (simp add: era_year_def doe_def)
  have y': "doe - (365 * yoe + yoe div 4 - yoe div 100) = doy" by (simp add: doe_def era_start_def)
  show ?thesis unfolding civil_def Let_def i cond dv e(2) y y' date_of_def by (rule refl)
qed

lemma civil_earlier_in_month:
  assumes "0 \<le> z" "z < 2 ^ 60" "civil z = (y, m, d)" "0 \<le> i" "i < d" "i \<le> z"
  shows "civil (z - i) = (y, m, d - i)"
proof -
  obtain era yoe doy where p: "z = era * 146097 + era_start yoe + doy - 719468" "0 \<le> era" "0 \<le> yoe" "yoe < 400"
    "0 \<le> doy" "doy \<le> 365" "era_start yoe + doy \<le> era_ends yoe" "civil z = date_of era yoe doy"
    using assms(1,2) by (rule civil_parts)
  define mp where "mp = (5 * doy + 2) div 153"
  note mf = month_facts [OF p(5,6) mp_def]
  have d: "d = doy - (153 * mp + 2) div 5 + 1"
    using p(8) assms(3) by (simp add: date_of_def Let_def mp_def [symmetric])
  have "0 \<le> (153 * mp + 2) div 5" using mf(1) by (intro pos_imp_zdiv_nonneg_iff [THEN iffD2]) simp_all
  then have late: "(153 * mp + 2) div 5 \<le> doy - i" "0 \<le> doy - i" using d assms(5) by linarith+
  have "0 \<le> z - i" "z - i < 2 ^ 60" using assms(2,4,6) by linarith+
  then have parts: "civil (z - i) = date_of era yoe (doy - i)"
    using p(1,3,4,7) late assms(4) by (intro civil_of_parts) linarith+
  obtain st where st: "st = (153 * mp + 2) div 5" by blast
  have "153 * mp - 2 \<le> 5 * st" "5 * doy + 2 < 153 * mp + 153"
    unfolding mp_def st by linarith+
  moreover have "5 * st \<le> 5 * (doy - i)" "5 * (doy - i) \<le> 5 * doy" using late(1) [folded st] assms(4) by simp_all
  ultimately have "0 \<le> 5 * (doy - i) + 2 - 153 * mp" "5 * (doy - i) + 2 - 153 * mp < 153" by linarith+
  then have "(5 * (doy - i) + 2) div 153 = mp"
    by (intro int_div_pos_eq [where r = "5 * (doy - i) + 2 - 153 * mp"]) simp_all
  moreover have "date_of era yoe doy = (y, m, d)" using p(8) assms(3) by simp
  ultimately show ?thesis using parts by (auto simp: date_of_def Let_def mp_def [symmetric])
qed

lemma civil_first_of_month:
  assumes "0 \<le> z" "z < 2 ^ 60" "civil z = (y, m, d)" "d - 1 \<le> z"
  shows "civil (z - (d - 1)) = (y, m, 1)"
  using civil_earlier_in_month [OF assms(1-3), of "d - 1"] civil_bounds(4) [OF assms(1-3)] assms(4) by simp

lemma january_1970:
  assumes "0 \<le> z" "z \<le> 30"
  shows "civil z = (1970, 1, z + 1)"
proof -
  have "civil z = date_of 4 369 (z + 306)"
    by (rule civil_of_parts) (use assms in \<open>simp_all add: era_start_def era_ends_def\<close>)
  moreover have "(5 * (z + 306) + 2) div 153 = 10"
    by (rule int_div_pos_eq [where r = "5 * z + 2"]) (use assms in simp_all)
  ultimately show ?thesis by (simp add: date_of_def Let_def)
qed

lemma day_of_month_le:
  assumes "0 \<le> z" "z < 2 ^ 60" "civil z = (y, m, d)"
  shows "d - 1 \<le> z"
proof (cases "z \<le> 30")
  case True
  with january_1970 assms(1,3) show ?thesis by simp
next
  case False
  with civil_bounds(5) [OF assms] show ?thesis by simp
qed

text \<open>From the first of a month, 27 days on are of the month and the 31st day on is not.\<close>

lemma days_of_a_month:
  assumes "0 \<le> z" "z < 2 ^ 59" "civil z = (y, m, 1)"
  shows "0 \<le> k \<Longrightarrow> k \<le> 27 \<Longrightarrow> \<exists>d. civil (z + k) = (y, m, d)" "civil (z + 31) \<noteq> (y, m, d)"
proof -
  obtain era yoe doy where p: "z = era * 146097 + era_start yoe + doy - 719468" "0 \<le> era" "0 \<le> yoe" "yoe < 400"
    "0 \<le> doy" "doy \<le> 365" "era_start yoe + doy \<le> era_ends yoe" "civil z = date_of era yoe doy"
    by (rule civil_parts [of z]) (use assms(1,2) in simp_all)
  define mp where "mp = (5 * doy + 2) div 153"
  note mf = month_facts [OF p(5,6) mp_def]
  have doy: "doy = (153 * mp + 2) div 5"
    using p(8) assms(3) by (simp add: date_of_def Let_def mp_def [symmetric])
  then have range: "153 * mp - 2 \<le> 5 * doy" "5 * doy \<le> 153 * mp + 2" by linarith+
  have ym: "y = (if m \<le> 2 then yoe + era * 400 + 1 else yoe + era * 400)" "m = (if mp < 10 then mp + 3 else mp - 9)"
    using p(8) assms(3) by (auto simp: date_of_def Let_def mp_def [symmetric])
  show "\<exists>d. civil (z + k) = (y, m, d)" if k: "0 \<le> k" "k \<le> 27"
  proof -
    have "doy + k \<le> 364" using range mf(2) k by linarith
    then have "era_start yoe + (doy + k) \<le> era_ends yoe"
      using era_facts(3) [OF p(3,4)] by (auto split: if_splits)
    moreover have "z + k < 2 ^ 60" using assms(2) k by simp
    ultimately have "civil (z + k) = date_of era yoe (doy + k)"
      using p assms(1) k by (intro civil_of_parts) linarith+
    moreover have "(5 * (doy + k) + 2) div 153 = mp"
      by (rule int_div_pos_eq [where r = "5 * (doy + k) + 2 - 153 * mp"]) (use range k in simp_all)
    ultimately show ?thesis using ym by (auto simp: date_of_def Let_def)
  qed
  show "civil (z + 31) \<noteq> (y, m, d)"
  proof
    assume c: "civil (z + 31) = (y, m, d)"
    have "0 \<le> z + 31" "z + 31 < 2 ^ 60" using assms(1,2) by simp_all
    then obtain era' yoe' doy' where q: "z + 31 = era' * 146097 + era_start yoe' + doy' - 719468" "0 \<le> yoe'" "yoe' < 400"
      "0 \<le> doy'" "doy' \<le> 365" "civil (z + 31) = date_of era' yoe' doy'"
      by (rule civil_parts)
    define mp' where "mp' = (5 * doy' + 2) div 153"
    note mf' = month_facts(1,2) [OF q(4,5) mp'_def]
    have "m = (if mp' < 10 then mp' + 3 else mp' - 9)"
      "y = (if m \<le> 2 then yoe' + era' * 400 + 1 else yoe' + era' * 400)"
      using q(6) c by (auto simp: date_of_def Let_def mp'_def [symmetric])
    with ym mf(1,2) mf' have same: "mp' = mp" "yoe' + era' * 400 = yoe + era * 400" by (auto split: if_splits)
    then have "era' = era" using q(2,3) p(3,4) by linarith
    with same q(1) p(1) have "doy' = doy + 31" by simp
    then have "mp + 1 \<le> mp'" using range(1) unfolding mp'_def by linarith
    with same show False by simp
  qed
qed

lemma uint_day: "uint (ms div DAY_MS) = uint ms div 86400000"
  by (simp add: uint_div_distrib DAY_MS_def)

lemma month_walk_ends:
  assumes "year_month (cursor + of_nat k * DAY_MS) \<noteq> ym" "\<And>j. j < k \<Longrightarrow> year_month (cursor + of_nat j * DAY_MS) = ym"
    and "k < n"
  shows "month_walk n ym cursor = Some (cursor + of_nat k * DAY_MS - (cursor + of_nat k * DAY_MS) mod DAY_MS)"
  using assms
proof (induction k arbitrary: n cursor)
  case 0
  then show ?case by (cases n) simp_all
next
  case (Suc k)
  obtain n' where n: "n = Suc n'" using Suc.prems(3) by (cases n) auto
  have shift: "cursor + DAY_MS + of_nat j * DAY_MS = cursor + of_nat (Suc j) * DAY_MS" for j
    by (simp add: algebra_simps)
  have "year_month cursor = ym" using Suc.prems(2) [of 0] by simp
  moreover have "month_walk n' ym (cursor + DAY_MS) =
      Some (cursor + DAY_MS + of_nat k * DAY_MS - (cursor + DAY_MS + of_nat k * DAY_MS) mod DAY_MS)"
    by (rule Suc.IH) (use Suc.prems n in \<open>auto simp: shift simp del: of_nat_Suc\<close>)
  ultimately show ?case by (simp add: n shift del: of_nat_Suc)
qed

lemma day_of_ms: "uint (ms div DAY_MS) < 2 ^ 59"
proof -
  have "unat (ms div DAY_MS) = unat ms div 86400000" by (simp add: unat_div_distrib)
  also have "\<dots> < 2 ^ 59" using unat_lt_2_64 [of ms] by (subst div_less_iff_less_mult) simp_all
  finally have "int (unat (ms div DAY_MS)) < int (2 ^ 59)" by (simp only: of_nat_less_iff)
  then show ?thesis unfolding uint_nat by (simp only: of_nat_power of_nat_numeral)
qed

lemma month_start_day:
  assumes "civil (uint (ts div DAY_MS)) = (y, m, d)"
  shows "uint (month_start_ms ts) = (uint (ts div DAY_MS) - (d - 1)) * 86400000" "month_start_ms ts \<le> ts"
    "civil (uint (ts div DAY_MS) - (d - 1)) = (y, m, 1)"
proof -
  define z where "z = uint (ts div DAY_MS)"
  have z: "0 \<le> z" "z < 2 ^ 60" "z < 2 ^ 59" using day_of_ms [of ts] by (simp_all add: z_def)
  note c = assms [folded z_def]
  note d = civil_bounds(4) [OF z(1,2) c] day_of_month_le [OF z(1,2) c]
  have le: "z * 86400000 \<le> uint ts"
    unfolding z_def uint_day using pos_mod_sign [of 86400000 "uint ts"] minus_mod_eq_div_mult [of "uint ts" 86400000]
    by linarith
  have "uint (word_of_int (d - 1) :: u64) = d - 1"
    by (subst uint_word_of_int) (use d z in simp)
  then have "uint (ts div DAY_MS - word_of_int (d - 1)) = z - (d - 1)"
    using d by (simp add: uint_sub_if' z_def)
  moreover have "(z - (d - 1)) * 86400000 \<le> uint ts"
    using mult_right_mono [of "z - (d - 1)" z 86400000] le d by linarith
  moreover have "uint ts < 2 ^ 64" using uint_lt2p [of ts] by simp
  moreover have "uint (DAY_MS) = 86400000" by (simp add: DAY_MS_def)
  ultimately show u: "uint (month_start_ms ts) = (uint (ts div DAY_MS) - (d - 1)) * 86400000"
    using d assms by (simp add: month_start_ms_def Let_def uint_word_ariths z_def [symmetric])
  with \<open>(z - (d - 1)) * 86400000 \<le> uint ts\<close> show "month_start_ms ts \<le> ts"
    by (simp add: word_le_def z_def)
  show "civil (uint (ts div DAY_MS) - (d - 1)) = (y, m, 1)"
    using civil_first_of_month [OF z(1,2) c d(2)] by (simp add: z_def)
qed

text \<open>
  The walk to the end of a month always ends, within four steps, at the midnight that
  starts the next month: every day from the first of the month to it is of the month, and it is not.
\<close>

theorem months_end:
  assumes "ts < 2 ^ 63"
  shows "\<exists>e. month_end_ms ts = Some e \<and> year_month e \<noteq> year_month ts \<and> ts < e \<and>
    (\<forall>t. month_start_ms ts \<le> t \<and> t < e \<longrightarrow> year_month t = year_month ts)"
proof -
  define z where "z = uint (ts div DAY_MS)"
  obtain y m d where c: "civil z = (y, m, d)" by (cases "civil z")
  define s where "s = month_start_ms ts"
  define z1 where "z1 = z - (d - 1)"
  have z: "0 \<le> z" "z < 2 ^ 60" using day_of_ms [of ts] by (simp_all add: z_def)
  note start = month_start_day [OF c [unfolded z_def], folded z_def s_def z1_def]
  note dm = civil_bounds(4,5) [OF z c] day_of_month_le [OF z c]
  have small: "uint s < 2 ^ 63"
    using start(2) assms by (simp add: word_le_def word_less_def)
  have z1: "0 \<le> z1" "z1 < 2 ^ 59" using dm day_of_ms [of ts] by (simp_all add: z1_def z_def)
  have at: "uint (s + of_nat j * DAY_MS) = uint s + int j * 86400000" if "j \<le> 31" for j
  proof -
    have "uint (of_nat j :: u64) = int j" using that by (simp add: uint_nat unat_of_nat take_bit_nat_eq_self)
    moreover have "uint DAY_MS = 86400000" by (simp add: DAY_MS_def)
    moreover have "int j * 86400000 \<le> 31 * 86400000" using that by simp
    ultimately show ?thesis using small by (simp add: uint_word_ariths)
  qed
  have day: "uint ((s + of_nat j * DAY_MS) div DAY_MS) = z1 + int j" if "j \<le> 31" for j
    unfolding uint_day at [OF that] using start(1) by simp
  define ym where "ym j = (case civil (z1 + int j) of (y, m, _) \<Rightarrow> (y, m))" for j
  have ym: "year_month (s + of_nat j * DAY_MS) = ym j" if "j \<le> 31" for j
    by (simp only: year_month_def day [OF that] ym_def)
  have ts: "year_month ts = (y, m)" "year_month s = (y, m)"
    using c ym [of 0] start(3) by (simp_all add: year_month_def z_def ym_def)
  note month = days_of_a_month [OF z1 start(3)]
  have early: "ym j = (y, m)" if "j \<le> 27" for j
    using month(1) [of "int j"] that by (auto simp: ym_def)
  have late: "ym 31 \<noteq> (y, m)" using month(2) by (auto simp: ym_def split: prod.splits)
  define k where "k = (LEAST j. ym j \<noteq> (y, m))"
  have k: "ym k \<noteq> (y, m)" "k \<le> 31"
    unfolding k_def using LeastI [of "\<lambda>j. ym j \<noteq> (y, m)" 31] Least_le [of "\<lambda>j. ym j \<noteq> (y, m)" 31] late by simp_all
  have less: "ym j = (y, m)" if "j < k" for j
    using not_less_Least [of j "\<lambda>j. ym j \<noteq> (y, m)"] that by (simp add: k_def)
  have k28: "28 \<le> k" using early [of k] k(1) by (cases "k \<le> 27") auto
  define e where "e = s + of_nat k * DAY_MS"
  have ue: "uint e = (z1 + int k) * 86400000" using at [OF k(2)] start(1) by (simp add: e_def algebra_simps)
  have shift: "s + 28 * DAY_MS + of_nat j * DAY_MS = s + of_nat (28 + j) * DAY_MS" for j
    by (simp add: algebra_simps)
  have "month_walk 4 (y, m) (s + 28 * DAY_MS) =
      Some (s + 28 * DAY_MS + of_nat (k - 28) * DAY_MS - (s + 28 * DAY_MS + of_nat (k - 28) * DAY_MS) mod DAY_MS)"
  proof (rule month_walk_ends)
    show "year_month (s + 28 * DAY_MS + of_nat (k - 28) * DAY_MS) \<noteq> (y, m)"
      using ym [OF k(2)] k(1) by (simp add: shift le_add_diff_inverse [OF k28] del: of_nat_add)
    show "year_month (s + 28 * DAY_MS + of_nat j * DAY_MS) = (y, m)" if "j < k - 28" for j
      using ym [of "28 + j"] less [of "28 + j"] k(2) that by (simp only: shift)
    show "k - 28 < 4" using k(2) by simp
  qed
  moreover have "s + 28 * DAY_MS + of_nat (k - 28) * DAY_MS = e" using k28 by (simp only: shift e_def le_add_diff_inverse)
  moreover have "e mod DAY_MS = 0"
    using ue by (intro word_uint_eq_iff [THEN iffD2]) (simp add: uint_mod_distrib DAY_MS_def)
  ultimately have "month_end_ms ts = Some e"
    using ts(2) by (simp add: month_end_ms_def s_def [symmetric])
  moreover have "ts < e"
  proof -
    have "d - 1 < int k"
    proof (rule ccontr)
      assume "\<not> ?thesis"
      then have le: "0 \<le> d - 1 - int k" "d - 1 - int k < d" "d - 1 - int k \<le> z" using dm by linarith+
      have same: "z1 + int k = z - (d - 1 - int k)" by (simp add: z1_def)
      have "civil (z1 + int k) = (y, m, d - (d - 1 - int k))"
        unfolding same by (rule civil_earlier_in_month [OF z c le])
      with k(1) show False by (simp add: ym_def)
    qed
    then have "z + 1 \<le> z1 + int k" by (simp add: z1_def)
    then have "(z + 1) * 86400000 \<le> uint e" unfolding ue by (intro mult_right_mono) simp_all
    moreover have "uint ts < (z + 1) * 86400000"
      unfolding z_def uint_day using pos_mod_bound [of 86400000 "uint ts"] minus_mod_eq_div_mult [of "uint ts" 86400000]
      by (simp add: distrib_right)
    ultimately show ?thesis by (simp add: word_less_def)
  qed
  moreover have "year_month e \<noteq> (y, m)" using ym [OF k(2)] k(1) by (simp add: e_def)
  moreover have "year_month t = (y, m)" if "s \<le> t" "t < e" for t
  proof -
    have lo: "z1 * 86400000 \<le> uint t" and hi: "uint t < (z1 + int k) * 86400000"
      using that start(1) ue by (simp_all add: word_le_def word_less_def)
    define j where "j = nat (uint t div 86400000 - z1)"
    have "z1 \<le> uint t div 86400000" "uint t div 86400000 < z1 + int k"
      using lo hi pos_mod_sign [of 86400000 "uint t"] pos_mod_bound [of 86400000 "uint t"]
        minus_mod_eq_div_mult [of "uint t" 86400000] mult_right_mono [of "z1 + int k" "uint t div 86400000" 86400000]
      by linarith+
    then have j: "z1 + int j = uint t div 86400000" "j < k" by (simp_all add: j_def)
    have "year_month t = ym j" by (simp add: year_month_def uint_day ym_def j(1))
    with less [OF j(2)] show ?thesis by simp
  qed
  ultimately show ?thesis using ts by (auto simp: s_def)
qed

theorem months_end_witness:
  "\<exists>e. month_end_ms 1709164800000 = Some e \<and> year_month e \<noteq> year_month 1709164800000 \<and> 1709164800000 < e"
  using months_end [of 1709164800000] by auto

end
