(* ===== verification/Rollup_Cache.thy ===== *)
theory Rollup_Cache
  imports Usage_Calendar
begin

text \<open>
  The usage directory on disk and the caches derived from it: \<open>crates/router-server/src/rollup_cache.rs\<close>, and the
  writers of \<open>usage.rs\<close>. A file is its name and the rows or records the codecs give back; the files of a
  directory are listed in the order of their names, where the file system may list them in any. Reads and
  writes succeed; what a crash between the steps of a cache write leaves is modelled. Marker files are
  not modelled: every reader skips them.
\<close>

section \<open>The directory\<close>

type_synonym 'a day_dirs = "(string \<times> (string \<times> 'a list) list) list"

record cached =
  ca_stamp :: "string option"
  ca_rows :: "rollup_row list option"

record data_dir =
  dd_usage :: "usage_record day_dirs option"
  dd_rollup :: "rollup_row day_dirs option"
  dd_cache :: "string \<Rightarrow> cached"

definition dd_empty :: data_dir where
  "dd_empty = \<lparr>dd_usage = None, dd_rollup = None, dd_cache = (\<lambda>_. \<lparr>ca_stamp = None, ca_rows = None\<rparr>)\<rparr>"

definition dirs_of :: "'a day_dirs option \<Rightarrow> 'a day_dirs" where
  "dirs_of dirs = (case dirs of None \<Rightarrow> [] | Some d \<Rightarrow> d)"

text \<open>\<open>create_dir_all\<close>, then \<open>File::create\<close> and the rows.\<close>

definition put_file :: "'a day_dirs option \<Rightarrow> string \<Rightarrow> string \<Rightarrow> 'a list \<Rightarrow> 'a day_dirs option" where
  "put_file dirs day name content =
     Some (bt_alter day (\<lambda>files. bt_alter name (\<lambda>_. content) (case files of None \<Rightarrow> [] | Some f \<Rightarrow> f)) (dirs_of dirs))"

definition by_day :: "('a \<Rightarrow> u64) \<Rightarrow> 'a list \<Rightarrow> (string \<times> 'a list) list" where
  "by_day ts xs =
     foldl (\<lambda>m x. bt_alter (day_partition (ts x)) (\<lambda>slot. (case slot of None \<Rightarrow> [] | Some l \<Rightarrow> l) @ [x]) m) [] xs"

definition file_name :: "string \<Rightarrow> nat \<Rightarrow> string" where
  "file_name node seq = node @ ''-'' @ padded 8 seq @ ''.jsonl.zst''"

definition put_days :: "('a \<Rightarrow> u64) \<Rightarrow> string \<Rightarrow> nat \<Rightarrow> 'a day_dirs option \<Rightarrow> 'a list \<Rightarrow> 'a day_dirs option" where
  "put_days ts node seq dirs xs =
     foldl (\<lambda>dirs (day, part). put_file dirs day (file_name node seq) part) dirs (by_day ts xs)"

definition write_batch :: "data_dir \<Rightarrow> string \<Rightarrow> nat \<Rightarrow> usage_record list \<Rightarrow> data_dir" where
  "write_batch dd node seq batch = dd\<lparr>dd_usage := put_days ur_ts node seq (dd_usage dd) batch\<rparr>"

definition write_rollups :: "data_dir \<Rightarrow> string \<Rightarrow> nat \<Rightarrow> rollup_row list \<Rightarrow> data_dir" where
  "write_rollups dd node seq rows = dd\<lparr>dd_rollup := put_days rr_hour_ms node seq (dd_rollup dd) rows\<rparr>"

section \<open>Fingerprints\<close>

definition fnv :: "u64 \<Rightarrow> string \<Rightarrow> u64" where
  "fnv hash name = foldl (\<lambda>h b. (h XOR of_nat (byte b)) * 0x100000001b3) hash name"

definition hex16 :: "u64 \<Rightarrow> string" where
  "hex16 w = map (\<lambda>i. hex_digit (unat (drop_bit (4 * i) w AND 15))) (rev [0..<16])"

definition fingerprint :: "(string \<times> 'a) list \<Rightarrow> string" where
  "fingerprint files =
     (let names = sort (map fst files)
      in decimal (length names) @ '':'' @ hex16 (foldl fnv 0xcbf29ce484222325 names))"

definition dir_fingerprint :: "'a day_dirs option \<Rightarrow> string \<Rightarrow> string option" where
  "dir_fingerprint dirs day = map_option fingerprint (map_of (dirs_of dirs) day)"

definition month_fingerprint :: "rollup_row day_dirs option \<Rightarrow> string \<Rightarrow> string option" where
  "month_fingerprint dirs month =
     (let days = sort (filter (\<lambda>day. month_of day = Some month) (map fst (dirs_of dirs))) in
      if days = [] then None
      else map_option (join ''|'') (those (map (dir_fingerprint dirs) days)))"

section \<open>Reading and writing the caches\<close>

definition read_if_current :: "data_dir \<Rightarrow> string \<Rightarrow> string option \<Rightarrow> rollup_row list option" where
  "read_if_current dd name want =
     Option.bind want (\<lambda>want.
     Option.bind (ca_stamp (dd_cache dd name)) (\<lambda>have.
     if trim have \<noteq> want then None else ca_rows (dd_cache dd name)))"

text \<open>\<open>write_cache\<close> up to a crash after some of its steps: the temporary file, the old stamp removed, the
  rows renamed into place, the new stamp.\<close>

definition write_cache_until :: "nat \<Rightarrow> cached \<Rightarrow> string \<Rightarrow> rollup_row list \<Rightarrow> cached" where
  "write_cache_until steps c stamp rows =
     (let c = (if 2 \<le> steps then c\<lparr>ca_stamp := None\<rparr> else c);
          c = (if 3 \<le> steps then c\<lparr>ca_rows := Some rows\<rparr> else c)
      in if 4 \<le> steps then c\<lparr>ca_stamp := Some stamp\<rparr> else c)"

definition write_cache :: "data_dir \<Rightarrow> string \<Rightarrow> string \<Rightarrow> rollup_row list \<Rightarrow> data_dir" where
  "write_cache dd name stamp rows =
     dd\<lparr>dd_cache := (dd_cache dd)(name := write_cache_until 4 (dd_cache dd name) stamp rows)\<rparr>"

definition read_rollup_files :: "(string \<times> rollup_row list) list \<Rightarrow> rollup_row list" where
  "read_rollup_files files = concat (map snd files)"

definition read_records :: "(string \<times> usage_record list) list \<Rightarrow> usage_record list" where
  "read_records files = concat (map snd files)"

definition hourly_rows :: "data_dir \<Rightarrow> string \<Rightarrow> rollup_row list" where
  "hourly_rows dd day =
     (case map_of (dirs_of (dd_rollup dd)) day of
        Some files \<Rightarrow>
          (case read_if_current dd day (Some (fingerprint files)) of
             Some rows \<Rightarrow> rows
           | None \<Rightarrow> read_rollup_files files)
      | None \<Rightarrow>
          let stamp = map_option (\<lambda>s. ''records:'' @ s) (dir_fingerprint (dd_usage dd) day) in
          (case read_if_current dd day stamp of
             Some rows \<Rightarrow> rows
           | None \<Rightarrow>
               (case map_of (dirs_of (dd_usage dd)) day of
                  None \<Rightarrow> []
                | Some files \<Rightarrow> fold_rows (roll_up (read_records files)))))"

definition monthly_rows :: "data_dir \<Rightarrow> string \<Rightarrow> rollup_row list option" where
  "monthly_rows dd month = read_if_current dd month (month_fingerprint (dd_rollup dd) month)"

section \<open>Rebuilding and pruning\<close>

definition cache_day :: "string \<Rightarrow> data_dir \<Rightarrow> string \<Rightarrow> data_dir" where
  "cache_day today dd day =
     (if today \<le> day then dd
      else case map_of (dirs_of (dd_rollup dd)) day of
        None \<Rightarrow> dd
      | Some files \<Rightarrow>
          if read_if_current dd day (Some (fingerprint files)) \<noteq> None then dd
          else write_cache dd day (fingerprint files) (fold_rows (read_rollup_files files)))"

definition backfill_day :: "string \<Rightarrow> string list \<Rightarrow> data_dir \<Rightarrow> string \<Rightarrow> data_dir" where
  "backfill_day today have_rollups dd day =
     (if \<not> starts_with ''dt='' day \<or> today \<le> day \<or> day \<in> set have_rollups then dd
      else case map_of (dirs_of (dd_usage dd)) day of
        None \<Rightarrow> dd
      | Some files \<Rightarrow>
          let stamp = ''records:'' @ fingerprint files in
          if read_if_current dd day (Some stamp) \<noteq> None then dd
          else write_cache dd day stamp (fold_rows (roll_up (read_records files))))"

definition cache_month :: "string \<Rightarrow> string list \<Rightarrow> data_dir \<Rightarrow> string \<Rightarrow> data_dir" where
  "cache_month current_month days dd month =
     (if current_month \<le> month then dd
      else case month_fingerprint (dd_rollup dd) month of
        None \<Rightarrow> dd
      | Some stamp \<Rightarrow>
          if read_if_current dd month (Some stamp) \<noteq> None then dd
          else write_cache dd month stamp
            (fold_rows (concat (map (\<lambda>day. to_daily (hourly_rows dd day))
              (filter (\<lambda>day. month_of day = Some month) days)))))"

definition refresh :: "data_dir \<Rightarrow> string \<Rightarrow> string \<Rightarrow> data_dir" where
  "refresh dd today current_month =
     (case dd_rollup dd of
        None \<Rightarrow> dd
      | Some dirs \<Rightarrow>
          let days = sort (filter (starts_with ''dt='') (map fst dirs));
              dd = foldl (cache_day today) dd days;
              dd = foldl (backfill_day today days) dd (map fst (dirs_of (dd_usage dd)))
          in foldl (cache_month current_month days) dd (sort (remdups (List.map_filter month_of days))))"

definition prune_caches :: "data_dir \<Rightarrow> string \<Rightarrow> data_dir" where
  "prune_caches dd cutoff_day =
     dd\<lparr>dd_cache := (\<lambda>name.
       if (if starts_with ''dt='' name then name < cutoff_day
           else if starts_with ''ym='' name
           then (case month_of cutoff_day of None \<Rightarrow> False | Some m \<Rightarrow> name < m)
           else False)
       then \<lparr>ca_stamp = None, ca_rows = None\<rparr> else dd_cache dd name)\<rparr>"

definition prune_partitions :: "'a day_dirs option \<Rightarrow> string \<Rightarrow> 'a day_dirs option" where
  "prune_partitions dirs cutoff =
     map_option (filter (\<lambda>(day, _). \<not> (starts_with ''dt='' day \<and> day < cutoff))) dirs"

definition ROLLUP_RETENTION_FACTOR :: u32 where "ROLLUP_RETENTION_FACTOR = 4"

definition u32_saturating_mul :: "u32 \<Rightarrow> u32 \<Rightarrow> u32" where
  "u32_saturating_mul a b = (if unat a * unat b < 2 ^ 32 then a * b else - 1)"

definition days_before :: "u64 \<Rightarrow> u32 \<Rightarrow> string" where
  "days_before now days = day_partition (u64_saturating_sub now (ucast days * 86400000))"

definition prune :: "data_dir \<Rightarrow> u64 \<Rightarrow> u32 \<Rightarrow> data_dir" where
  "prune dd now retention_days =
     (let rollup_days = u32_saturating_mul retention_days ROLLUP_RETENTION_FACTOR;
          dd = dd\<lparr>dd_usage := prune_partitions (dd_usage dd) (days_before now retention_days)\<rparr>;
          dd = dd\<lparr>dd_rollup := prune_partitions (dd_rollup dd) (days_before now rollup_days)\<rparr>
      in prune_caches dd (days_before now rollup_days))"

section \<open>The flusher\<close>

record flusher =
  fl_dir :: data_dir
  fl_recent :: recent_rollups
  fl_seq :: nat

definition flush :: "string \<Rightarrow> flusher \<Rightarrow> usage_record list \<Rightarrow> flusher" where
  "flush node fl batch =
     (let rows = roll_up batch
      in \<lparr>fl_dir = write_rollups (write_batch (fl_dir fl) node (fl_seq fl) batch) node (fl_seq fl) rows,
          fl_recent = rc_absorb (fl_recent fl) rows,
          fl_seq = fl_seq fl + 1\<rparr>)"

definition maintain :: "u32 \<Rightarrow> flusher \<Rightarrow> u64 \<Rightarrow> flusher" where
  "maintain retention_days fl now =
     fl\<lparr>fl_dir := refresh (prune (fl_dir fl) now retention_days) (day_partition now) (month_partition now),
        fl_recent := rc_evict_before (fl_recent fl) (u64_saturating_sub now RECENT_ROLLUP_SPAN_MS)\<rparr>"

definition seed_recent :: "flusher \<Rightarrow> u64 \<Rightarrow> flusher" where
  "seed_recent fl now =
     (let rows = concat (map (\<lambda>k. hourly_rows (fl_dir fl) (day_partition (u64_saturating_sub now (k * 86400000)))) [0, 1]);
          rc = rc_evict_before (rc_absorb (fl_recent fl) rows) (u64_saturating_sub now RECENT_ROLLUP_SPAN_MS)
      in fl\<lparr>fl_recent := rc\<lparr>rc_seeded := True\<rparr>\<rparr>)"

text \<open>What happens to the flusher of a process that started on an empty directory.\<close>

datatype flush_event = Flushed "usage_record list" | Maintained u64

fun flush_step :: "string \<Rightarrow> u32 \<Rightarrow> flusher \<Rightarrow> flush_event \<Rightarrow> flusher" where
  "flush_step node retention fl (Flushed batch) = flush node fl batch"
| "flush_step node retention fl (Maintained now) = maintain retention fl now"

definition flusher_start :: "u64 \<Rightarrow> flusher" where
  "flusher_start now = seed_recent \<lparr>fl_dir = dd_empty, fl_recent = rc_default, fl_seq = 0\<rparr> now"

fun flushed_records :: "flush_event list \<Rightarrow> usage_record list" where
  "flushed_records [] = []"
| "flushed_records (Flushed batch # es) = batch @ flushed_records es"
| "flushed_records (Maintained _ # es) = flushed_records es"

end
