(* ===== verification/Usage_History.thy ===== *)
theory Usage_History
  imports Rollup_Cache
begin

text \<open>
  What the console reads back: the rows of a window from memory, the month caches and the days on disk
  (\<open>rollups_for_window\<close>), the daily history, the summary of a window from rows, and the pages of
  records (\<open>crates/router-server/src/usage.rs\<close>). \<open>now\<close> is the clock. A hash map of slices is kept in key
  order: it is sorted before it is shown.
\<close>

section \<open>The pipeline as a reader sees it\<close>

record usage_pipeline =
  up_data_dir :: "data_dir option"
  up_agg :: aggregator
  up_recent :: "usage_record list"
  up_fleet :: "rollup_row list"
  up_recent_rollups :: recent_rollups

definition set_fleet_rollups :: "usage_pipeline \<Rightarrow> rollup_row list \<Rightarrow> usage_pipeline" where
  "set_fleet_rollups up rows = up\<lparr>up_fleet := rows\<rparr>"

definition earliest_partition_ms :: "data_dir \<Rightarrow> u64 option" where
  "earliest_partition_ms dd =
     (case filter (starts_with ''dt='') (map fst (dirs_of (dd_rollup dd)) @ map fst (dirs_of (dd_usage dd))) of
        [] \<Rightarrow> None
      | n # ns \<Rightarrow> day_start_ms (foldl (\<lambda>oldest name. if name < oldest then name else oldest) n ns))"

section \<open>The rows of a window\<close>

definition memory_rows :: "recent_rollups \<Rightarrow> u64 option \<Rightarrow> u64 \<Rightarrow> rollup_row list" where
  "memory_rows rc memory_floor since_ms =
     (case memory_floor of
        None \<Rightarrow> []
      | Some floor_ms \<Rightarrow>
          filter (\<lambda>row. max floor_ms (u64_saturating_sub since_ms HOUR_MS) \<le> rr_hour_ms row) (map snd (rc_rows rc)))"

text \<open>A whole month from its cache, with the midnight after it, where the window and the resolution allow
  it. The outer option is that of \<^const>\<open>month_end_ms\<close>: the search for the end of the month ends.\<close>

definition month_step ::
    "data_dir \<Rightarrow> u64 \<Rightarrow> u64 option \<Rightarrow> bool \<Rightarrow> u64 \<Rightarrow> (rollup_row list \<times> u64) option option" where
  "month_step dd until_ms stop_at hourly cursor =
     (if hourly \<or> cursor \<noteq> month_start_ms cursor then Some None
      else map_option (\<lambda>month_end.
        if month_end \<le> u64_saturating_add until_ms 1 \<and> (case stop_at of None \<Rightarrow> True | Some c \<Rightarrow> month_end \<le> c)
        then map_option (\<lambda>monthly. (monthly, month_end)) (monthly_rows dd (month_partition cursor))
        else None) (month_end_ms cursor))"

text \<open>The walk over the days on disk; \<open>None\<close> is a walk longer than the steps allowed.\<close>

fun window_walk :: "nat \<Rightarrow> data_dir \<Rightarrow> u64 \<Rightarrow> u64 option \<Rightarrow> bool \<Rightarrow> u64 \<Rightarrow> rollup_row list option" where
  "window_walk 0 dd until_ms stop_at hourly cursor = None"
| "window_walk (Suc n) dd until_ms stop_at hourly cursor =
     (if until_ms < cursor \<or> (case stop_at of None \<Rightarrow> False | Some c \<Rightarrow> c \<le> cursor) then Some []
      else case month_step dd until_ms stop_at hourly cursor of
        None \<Rightarrow> None
      | Some (Some (monthly, month_end)) \<Rightarrow>
          map_option ((@) monthly) (window_walk n dd until_ms stop_at hourly month_end)
      | Some None \<Rightarrow>
          map_option ((@) (hourly_rows dd (day_partition cursor)))
            (window_walk n dd until_ms stop_at hourly (cursor + DAY_MS)))"

definition walk_steps :: "u64 \<Rightarrow> nat" where
  "walk_steps until_ms = unat (until_ms div DAY_MS) + 2"

definition rollups_for_window :: "usage_pipeline \<Rightarrow> u64 \<Rightarrow> u64 \<Rightarrow> u64 \<Rightarrow> bool \<Rightarrow> rollup_row list option" where
  "rollups_for_window up now since_ms until_ms hourly =
     (case up_data_dir up of
        None \<Rightarrow> Some []
      | Some dd \<Rightarrow>
          let until_ms = min until_ms now;
              since_ms = max since_ms (case earliest_partition_ms dd of None \<Rightarrow> now | Some ms \<Rightarrow> ms)
          in if until_ms < since_ms then Some []
          else let memory_floor = rc_floor_ms (up_recent_rollups up) now;
                   stop_at = map_option (\<lambda>ms. ms - ms mod DAY_MS) memory_floor;
                   width = (if hourly then HOUR_MS else DAY_MS)
          in map_option (\<lambda>disk.
               let rows = memory_rows (up_recent_rollups up) memory_floor since_ms @ disk @ up_fleet up;
                   rows = (if hourly then fold_rows rows else to_daily rows)
               in filter (\<lambda>row. rr_hour_ms row \<le> until_ms
                     \<and> since_ms < u64_saturating_add (rr_hour_ms row) width) rows)
             (window_walk (walk_steps until_ms) dd until_ms stop_at hourly (since_ms - since_ms mod DAY_MS)))"

section \<open>Daily history\<close>

record day_bucket =
  db_day :: string
  db_requests :: u64
  db_failed :: u64
  db_input_tokens :: u64
  db_output_tokens :: u64
  db_cost_micro_usd :: u64
  db_latency_ms_sum :: u64

definition db_empty :: "string \<Rightarrow> day_bucket" where
  "db_empty day = \<lparr>db_day = day, db_requests = 0, db_failed = 0, db_input_tokens = 0, db_output_tokens = 0,
     db_cost_micro_usd = 0, db_latency_ms_sum = 0\<rparr>"

definition db_add :: "day_bucket \<Rightarrow> rollup_row \<Rightarrow> day_bucket" where
  "db_add b row =
     b\<lparr>db_requests := db_requests b + rr_requests row,
       db_failed := db_failed b + rr_failed row,
       db_input_tokens := db_input_tokens b + rr_input_tokens row,
       db_output_tokens := db_output_tokens b + rr_output_tokens row,
       db_cost_micro_usd := db_cost_micro_usd b + rr_cost_micro_usd row,
       db_latency_ms_sum := db_latency_ms_sum b + rr_latency_ms_sum row\<rparr>"

type_synonym day_series = "(string \<times> day_bucket) list"
type_synonym groupings = "(string \<times> (string \<times> day_series) list) list"

definition row_groups :: "rollup_row \<Rightarrow> (string \<times> string) list" where
  "row_groups row =
     [('''', ''total''),
      (''provider'', rr_row_provider row),
      (''model'', rr_model row),
      (''key'', case rr_vkey row of None \<Rightarrow> ''(none)'' | Some k \<Rightarrow> k)]"

definition entry_or :: "'v \<Rightarrow> 'v option \<Rightarrow> 'v" where
  "entry_or d slot = (case slot of None \<Rightarrow> d | Some v \<Rightarrow> v)"

definition history_bucket :: "rollup_row \<Rightarrow> groupings \<Rightarrow> string \<times> string \<Rightarrow> groupings" where
  "history_bucket row out g =
     (let day = drop 3 (day_partition (rr_hour_ms row)) in
      bt_alter (fst g) (\<lambda>groups. bt_alter (snd g) (\<lambda>days.
        bt_alter day (\<lambda>bucket. db_add (entry_or (db_empty day) bucket) row) (entry_or [] days))
        (entry_or [] groups)) out)"

definition history_row :: "history_filter \<Rightarrow> groupings \<Rightarrow> rollup_row \<Rightarrow> groupings" where
  "history_row f out row =
     (if \<not> matches_dims f (rr_row_provider row) (rr_model row) (rr_vkey row) then out
      else foldl (history_bucket row) out (row_groups row))"

record history =
  hi_data :: "(string \<times> (string \<times> day_bucket list) list) list"
  hi_p50_latency_ms :: u64
  hi_p95_latency_ms :: u64

definition mean_or_percentile :: "latency_histogram \<Rightarrow> u64 \<Rightarrow> u64 \<Rightarrow> u64 \<Rightarrow> u64" where
  "mean_or_percentile latency latency_sum requests p =
     (if hist_is_empty latency then (if requests = 0 then 0 else latency_sum div requests)
      else hist_percentile latency p)"

definition rows_matching :: "history_filter \<Rightarrow> rollup_row list \<Rightarrow> rollup_row list" where
  "rows_matching f rows = filter (\<lambda>row. matches_dims f (rr_row_provider row) (rr_model row) (rr_vkey row)) rows"

definition history_of_rows :: "history_filter \<Rightarrow> rollup_row list \<Rightarrow> history" where
  "history_of_rows f rows =
     (let shown = rows_matching f rows;
          latency = foldl (\<lambda>h row. hist_merge h (rr_latency row)) [] shown;
          latency_sum = sum_list (map rr_latency_ms_sum shown);
          requests = sum_list (map rr_requests shown)
      in \<lparr>hi_data = map (\<lambda>(by, groups). (by, map (\<lambda>(series, days). (series, map snd days)) groups))
            (foldl (history_row f) [] rows),
          hi_p50_latency_ms = mean_or_percentile latency latency_sum requests 50,
          hi_p95_latency_ms = mean_or_percentile latency latency_sum requests 95\<rparr>)"

definition history_all :: "usage_pipeline \<Rightarrow> u64 \<Rightarrow> u32 \<Rightarrow> history_filter \<Rightarrow> history option" where
  "history_all up now days f =
     (if up_data_dir up = None then Some \<lparr>hi_data = [], hi_p50_latency_ms = 0, hi_p95_latency_ms = 0\<rparr>
      else map_option (history_of_rows f)
        (rollups_for_window up now (u64_saturating_sub now (ucast (max days 1) * DAY_MS)) now False))"

definition history_by :: "usage_pipeline \<Rightarrow> u64 \<Rightarrow> u32 \<Rightarrow> string \<Rightarrow> history_filter \<Rightarrow> (string \<times> day_bucket list) list option" where
  "history_by up now days by f = map_option (\<lambda>h. entry_or [] (map_of (hi_data h) by)) (history_all up now days f)"

end
