(* ===== verification/Usage_Summary.thy ===== *)
theory Usage_Summary
  imports Usage_History
begin

text \<open>
  The summary of a window behind the Usage page (\<open>usage_summary\<close>, from rows or from records), the header
  of the Logs page (\<open>summary\<close>) and the pages of records themselves (\<open>collect_page\<close>, \<open>page_from_disk\<close>):
  \<open>crates/router-server/src/usage.rs\<close>. An answer is an option where the walk over a window is.
\<close>

section \<open>Slices\<close>

record usage_slice =
  sl_name :: string
  sl_requests :: u64
  sl_failed :: u64
  sl_input_tokens :: u64
  sl_output_tokens :: u64
  sl_cost_micro_usd :: u64
  sl_latency_ms_sum :: u64
  sl_p95_latency_ms :: u64

type_synonym slices = "(string \<times> usage_slice \<times> latency_histogram) list"

definition sl_empty :: "string \<Rightarrow> usage_slice" where
  "sl_empty name = \<lparr>sl_name = name, sl_requests = 0, sl_failed = 0, sl_input_tokens = 0, sl_output_tokens = 0,
     sl_cost_micro_usd = 0, sl_latency_ms_sum = 0, sl_p95_latency_ms = 0\<rparr>"

definition slice_add :: "rollup_row \<Rightarrow> usage_slice \<times> latency_histogram \<Rightarrow> usage_slice \<times> latency_histogram" where
  "slice_add row e =
     ((fst e)\<lparr>sl_requests := sl_requests (fst e) + rr_requests row,
        sl_failed := sl_failed (fst e) + rr_failed row,
        sl_input_tokens := sl_input_tokens (fst e) + rr_input_tokens row,
        sl_output_tokens := sl_output_tokens (fst e) + rr_output_tokens row,
        sl_cost_micro_usd := sl_cost_micro_usd (fst e) + rr_cost_micro_usd row,
        sl_latency_ms_sum := sl_latency_ms_sum (fst e) + rr_latency_ms_sum row\<rparr>,
      hist_merge (snd e) (rr_latency row))"

definition failed_of :: "usage_record \<Rightarrow> u64" where
  "failed_of r = (if 400 \<le> ur_status_code r then 1 else 0)"

definition slice_count :: "usage_record \<Rightarrow> usage_slice \<times> latency_histogram \<Rightarrow> usage_slice \<times> latency_histogram" where
  "slice_count r e =
     ((fst e)\<lparr>sl_requests := sl_requests (fst e) + 1,
        sl_failed := sl_failed (fst e) + failed_of r,
        sl_input_tokens := sl_input_tokens (fst e) + ur_input_tokens r,
        sl_output_tokens := sl_output_tokens (fst e) + ur_output_tokens r,
        sl_cost_micro_usd := sl_cost_micro_usd (fst e) + ur_cost_micro_usd r,
        sl_latency_ms_sum := sl_latency_ms_sum (fst e) + ur_latency_ms r\<rparr>,
      hist_record (snd e) (ur_latency_ms r))"

definition slot_in ::
    "(usage_slice \<times> latency_histogram \<Rightarrow> usage_slice \<times> latency_histogram) \<Rightarrow> slices \<Rightarrow> string \<Rightarrow> slices" where
  "slot_in f m name = bt_alter name (\<lambda>e. f (entry_or (sl_empty name, []) e)) m"

definition ranked :: "slices \<Rightarrow> usage_slice list" where
  "ranked m =
     by_requests sl_requests sl_name (map (\<lambda>(_, sl, latency).
       sl\<lparr>sl_p95_latency_ms := mean_or_percentile latency (sl_latency_ms_sum sl) (sl_requests sl) 95\<rparr>) m)"

definition bucket_width_secs :: "u64 \<Rightarrow> u64" where
  "bucket_width_secs span_ms =
     (let span_secs = max (span_ms div 1000) 1; raw = max (u64_div_ceil span_secs 240) 60
      in case find (\<lambda>step. raw \<le> step) [60, 300, 900, 1800, 3600, 7200, 21600, 86400] of
           Some step \<Rightarrow> step | None \<Rightarrow> 86400)"

section \<open>The summary from rows\<close>

record usage_summary =
  us_requests :: u64
  us_errors :: u64
  us_attempts :: u64
  us_input_tokens :: u64
  us_output_tokens :: u64
  us_cached_tokens :: u64
  us_cost_micro_usd :: u64
  us_p50_latency_ms :: u64
  us_p95_latency_ms :: u64
  us_capped :: bool
  us_by_model :: "usage_slice list"
  us_by_provider :: "usage_slice list"
  us_by_key :: "usage_slice list"
  us_series :: "usage_bucket list"
  us_latency_by_model :: "model_latency list"
  us_bucket_secs :: u64

definition us_start :: "bool \<Rightarrow> u64 \<Rightarrow> usage_summary" where
  "us_start capped bucket_secs = \<lparr>us_requests = 0, us_errors = 0, us_attempts = 0, us_input_tokens = 0,
     us_output_tokens = 0, us_cached_tokens = 0, us_cost_micro_usd = 0, us_p50_latency_ms = 0, us_p95_latency_ms = 0,
     us_capped = capped, us_by_model = [], us_by_provider = [], us_by_key = [], us_series = [],
     us_latency_by_model = [], us_bucket_secs = bucket_secs\<rparr>"

text \<open>What the loops of both summaries carry.\<close>

record tally =
  ta_out :: usage_summary
  ta_latency :: latency_histogram
  ta_latency_sum :: u64
  ta_latencies :: "u64 list"
  ta_by_model :: slices
  ta_by_provider :: slices
  ta_by_key :: slices
  ta_series :: "(u64 \<times> usage_bucket) list"
  ta_grid :: latency_grid

definition ta_start :: "usage_summary \<Rightarrow> latency_grid \<Rightarrow> tally" where
  "ta_start out grid = \<lparr>ta_out = out, ta_latency = [], ta_latency_sum = 0, ta_latencies = [], ta_by_model = [],
     ta_by_provider = [], ta_by_key = [], ta_series = [], ta_grid = grid\<rparr>"

definition key_or_none :: "string option \<Rightarrow> string" where
  "key_or_none vkey = (case vkey of None \<Rightarrow> ''(none)'' | Some k \<Rightarrow> k)"

definition add_row_totals :: "usage_summary \<Rightarrow> rollup_row \<Rightarrow> usage_summary" where
  "add_row_totals out row =
     out\<lparr>us_requests := us_requests out + rr_requests row,
         us_errors := us_errors out + rr_failed row,
         us_attempts := us_attempts out + rr_attempts row,
         us_input_tokens := us_input_tokens out + rr_input_tokens row,
         us_output_tokens := us_output_tokens out + rr_output_tokens row,
         us_cached_tokens := us_cached_tokens out + rr_cached_tokens row,
         us_cost_micro_usd := us_cost_micro_usd out + rr_cost_micro_usd row\<rparr>"

definition add_row_point :: "usage_bucket \<Rightarrow> rollup_row \<Rightarrow> usage_bucket" where
  "add_row_point p row =
     p\<lparr>ub_requests := ub_requests p + rr_requests row,
       ub_failed := ub_failed p + rr_failed row,
       ub_input_tokens := ub_input_tokens p + rr_input_tokens row,
       ub_output_tokens := ub_output_tokens p + rr_output_tokens row,
       ub_cost_micro_usd := ub_cost_micro_usd p + rr_cost_micro_usd row,
       ub_latency_ms_sum := ub_latency_ms_sum p + rr_latency_ms_sum row\<rparr>"

definition tally_row :: "history_filter \<Rightarrow> bool \<Rightarrow> tally \<Rightarrow> rollup_row \<Rightarrow> tally" where
  "tally_row f minutes_drawn t row =
     (if \<not> matches_dims f (rr_row_provider row) (rr_model row) (rr_vkey row) then t
      else let model = model_name (rr_model row);
        t = t\<lparr>ta_out := add_row_totals (ta_out t) row,
              ta_latency := hist_merge (ta_latency t) (rr_latency row),
              ta_latency_sum := ta_latency_sum t + rr_latency_ms_sum row,
              ta_by_model := slot_in (slice_add row) (ta_by_model t) model,
              ta_by_provider := slot_in (slice_add row) (ta_by_provider t) (model_name (rr_row_provider row)),
              ta_by_key := slot_in (slice_add row) (ta_by_key t) (key_or_none (rr_vkey row))\<rparr>
      in if minutes_drawn then t
         else let width = us_bucket_secs (ta_out t); bucket = (rr_hour_ms row div 1000 div width) * width
         in t\<lparr>ta_series := bt_alter bucket (\<lambda>p. add_row_point (entry_or (ub_empty bucket) p) row) (ta_series t),
              ta_grid := grid_add (ta_grid t) model bucket (rr_requests row) (rr_latency_ms_sum row)\<rparr>)"

definition finish_tally :: "tally \<Rightarrow> u64 \<Rightarrow> u64 \<Rightarrow> usage_bucket list \<Rightarrow> usage_summary" where
  "finish_tally t p50 p95 series =
     (ta_out t)\<lparr>us_p50_latency_ms := p50,
                us_p95_latency_ms := p95,
                us_by_model := ranked (ta_by_model t),
                us_by_provider := ranked (ta_by_provider t),
                us_by_key := ranked (ta_by_key t),
                us_series := series,
                us_latency_by_model := grid_top (ta_grid t) LATENCY_SERIES_CAP\<rparr>"

definition minute_series ::
    "usage_pipeline \<Rightarrow> u64 \<Rightarrow> u64 \<Rightarrow> u64 \<Rightarrow> history_filter \<Rightarrow> u64 \<Rightarrow> (usage_bucket list \<times> latency_grid) option" where
  "minute_series up now since_ms until_ms f bucket_secs =
     (if bucket_secs < HOUR_MS div 1000
         \<and> (case floor_minute (up_agg up) now of None \<Rightarrow> False | Some floor_ms \<Rightarrow> floor_ms \<le> since_ms div 60000)
      then Some (agg_series (up_agg up) since_ms until_ms bucket_secs f)
      else None)"

definition summary_of_rows ::
    "history_filter \<Rightarrow> u64 \<Rightarrow> (usage_bucket list \<times> latency_grid) option \<Rightarrow> rollup_row list \<Rightarrow> usage_summary" where
  "summary_of_rows f bucket_secs minutes rows =
     (let width = (case minutes of Some _ \<Rightarrow> bucket_secs | None \<Rightarrow> max bucket_secs (HOUR_MS div 1000));
          grid = (case minutes of Some (_, g) \<Rightarrow> g | None \<Rightarrow> []);
          t = foldl (tally_row f (minutes \<noteq> None)) (ta_start (us_start False width) grid) rows
      in finish_tally t
           (mean_or_percentile (ta_latency t) (ta_latency_sum t) (us_requests (ta_out t)) 50)
           (mean_or_percentile (ta_latency t) (ta_latency_sum t) (us_requests (ta_out t)) 95)
           (case minutes of Some (s, _) \<Rightarrow> s | None \<Rightarrow> map snd (ta_series t)))"

definition usage_summary_from_rollups ::
    "usage_pipeline \<Rightarrow> u64 \<Rightarrow> u64 \<Rightarrow> u64 \<Rightarrow> history_filter \<Rightarrow> u64 \<Rightarrow> usage_summary option" where
  "usage_summary_from_rollups up now since_ms until_ms f bucket_secs =
     map_option (summary_of_rows f bucket_secs (minute_series up now since_ms until_ms f bucket_secs))
       (rollups_for_window up now since_ms until_ms (bucket_secs < 86400))"

section \<open>Pages of records\<close>

type_synonym page_cursor = "u64 \<times> string"

definition keep_record ::
    "u64 \<Rightarrow> u64 \<Rightarrow> history_filter \<Rightarrow> bool \<Rightarrow> page_cursor option \<Rightarrow> usage_record \<Rightarrow> bool" where
  "keep_record since_ms until_ms f errors_only after r \<longleftrightarrow>
     since_ms \<le> ur_ts r \<and> ur_ts r \<le> until_ms
     \<and> (case after of None \<Rightarrow> True | Some c \<Rightarrow> (ur_ts r, ur_request_id r) < c)
     \<and> hf_matches f r \<and> (errors_only \<longrightarrow> 400 \<le> ur_status_code r)"

definition partitions_since :: "usage_record day_dirs option \<Rightarrow> string \<Rightarrow> (string \<times> (string \<times> usage_record list) list) list" where
  "partitions_since dirs cutoff = filter (\<lambda>e. starts_with ''dt='' (fst e) \<and> cutoff \<le> fst e) (dirs_of dirs)"

text \<open>Days and files newest first; a batch is sorted by time alone, and the sort is stable.\<close>

definition disk_records :: "data_dir \<Rightarrow> u64 \<Rightarrow> (usage_record \<Rightarrow> bool) \<Rightarrow> usage_record list" where
  "disk_records dd since_ms wanted =
     concat (map (\<lambda>day.
       concat (map (\<lambda>file. sort_key (\<lambda>r. - 1 - ur_ts r) (filter wanted (snd file))) (rev (snd day))))
       (rev (partitions_since (dd_usage dd) (day_partition since_ms))))"

definition collect_page ::
    "usage_pipeline \<Rightarrow> nat \<Rightarrow> u64 \<Rightarrow> u64 \<Rightarrow> history_filter \<Rightarrow> bool \<Rightarrow> page_cursor option \<Rightarrow> usage_record list" where
  "collect_page up limit since_ms until_ms f errors_only after =
     (let keep = keep_record since_ms until_ms f errors_only after;
          held = filter keep (rev (up_recent up))
      in if limit \<le> length held \<and> held \<noteq> [] then take (max limit 1) held
         else let oldest_in_memory = (if held = [] then - 1 else ur_ts (last held)) in
           case up_data_dir up of
             None \<Rightarrow> held
           | Some dd \<Rightarrow>
               take (max limit 1) (held @ disk_records dd since_ms (\<lambda>r. ur_ts r < oldest_in_memory \<and> keep r)))"

definition page_from_disk ::
    "usage_pipeline \<Rightarrow> nat \<Rightarrow> u64 \<Rightarrow> u64 \<Rightarrow> history_filter \<Rightarrow> bool \<Rightarrow> page_cursor option \<Rightarrow>
       usage_record list \<times> page_cursor option" where
  "page_from_disk up limit since_ms until_ms f errors_only after =
     (let found = collect_page up (limit + 1) since_ms until_ms f errors_only after;
          page = take limit found
      in (page, if limit < length found \<and> page \<noteq> [] then Some (ur_ts (last page), ur_request_id (last page)) else None))"

definition recent_from_disk ::
    "usage_pipeline \<Rightarrow> nat \<Rightarrow> u64 \<Rightarrow> u64 \<Rightarrow> history_filter \<Rightarrow> bool \<Rightarrow> usage_record list" where
  "recent_from_disk up limit since_ms until_ms f errors_only =
     fst (page_from_disk up limit since_ms until_ms f errors_only None)"

section \<open>The summary from records\<close>

definition SUMMARY_SCAN_CAP :: nat where "SUMMARY_SCAN_CAP = 200000"

definition count_record_totals :: "usage_summary \<Rightarrow> usage_record \<Rightarrow> usage_summary" where
  "count_record_totals out r =
     out\<lparr>us_requests := us_requests out + 1,
         us_errors := us_errors out + failed_of r,
         us_attempts := us_attempts out + ucast (ur_attempts r),
         us_input_tokens := us_input_tokens out + ur_input_tokens r,
         us_output_tokens := us_output_tokens out + ur_output_tokens r,
         us_cached_tokens := us_cached_tokens out + ur_cached_tokens r,
         us_cost_micro_usd := us_cost_micro_usd out + ur_cost_micro_usd r\<rparr>"

definition add_record_point :: "usage_bucket \<Rightarrow> usage_record \<Rightarrow> usage_bucket" where
  "add_record_point p r =
     p\<lparr>ub_requests := ub_requests p + 1,
       ub_failed := ub_failed p + failed_of r,
       ub_input_tokens := ub_input_tokens p + ur_input_tokens r,
       ub_output_tokens := ub_output_tokens p + ur_output_tokens r,
       ub_cost_micro_usd := ub_cost_micro_usd p + ur_cost_micro_usd r,
       ub_latency_ms_sum := ub_latency_ms_sum p + ur_latency_ms r\<rparr>"

definition tally_record :: "u64 \<Rightarrow> tally \<Rightarrow> usage_record \<Rightarrow> tally" where
  "tally_record bucket_secs t r =
     (let model = model_name (ur_model r); bucket = (ur_ts r div 1000 div bucket_secs) * bucket_secs in
      t\<lparr>ta_out := count_record_totals (ta_out t) r,
        ta_latencies := ta_latencies t @ [ur_latency_ms r],
        ta_by_model := slot_in (slice_count r) (ta_by_model t) model,
        ta_by_provider := slot_in (slice_count r) (ta_by_provider t) (model_name (ur_provider r)),
        ta_by_key := slot_in (slice_count r) (ta_by_key t) (key_or_none (ur_vkey r)),
        ta_series := bt_alter bucket (\<lambda>p. add_record_point (entry_or (ub_empty bucket) p) r) (ta_series t),
        ta_grid := grid_add (ta_grid t) model bucket 1 (ur_latency_ms r)\<rparr>)"

definition usage_summary_of ::
    "usage_pipeline \<Rightarrow> u64 \<Rightarrow> u64 \<Rightarrow> u64 \<Rightarrow> history_filter \<Rightarrow> bool \<Rightarrow> usage_summary option" where
  "usage_summary_of up now since_ms until_ms f errors_only =
     (let bucket_secs = bucket_width_secs (u64_saturating_sub until_ms since_ms) in
      if \<not> errors_only \<and> up_data_dir up \<noteq> None
      then usage_summary_from_rollups up now since_ms until_ms f bucket_secs
      else let records = collect_page up (SUMMARY_SCAN_CAP + 1) since_ms until_ms f errors_only None;
               ring_is_everything = (up_data_dir up = None \<and> RECENT_CAP \<le> length records);
               capped = (SUMMARY_SCAN_CAP < length records \<or> ring_is_everything);
               t = foldl (tally_record bucket_secs) (ta_start (us_start capped bucket_secs) []) (take SUMMARY_SCAN_CAP records);
               latencies = sort (ta_latencies t)
           in Some (finish_tally t (usage_percentile latencies 50) (usage_percentile latencies 95) (map snd (ta_series t))))"

text \<open>The header of the Logs page: the totals of the same loop.\<close>

definition requests_summary ::
    "usage_pipeline \<Rightarrow> u64 \<Rightarrow> u64 \<Rightarrow> u64 \<Rightarrow> history_filter \<Rightarrow> bool \<Rightarrow> usage_summary option" where
  "requests_summary up now since_ms until_ms f errors_only =
     (if \<not> errors_only \<and> up_data_dir up \<noteq> None
      then map_option (\<lambda>wide. wide\<lparr>us_capped := False, us_by_model := [], us_by_provider := [], us_by_key := [],
             us_series := [], us_latency_by_model := [], us_bucket_secs := 0\<rparr>)
           (usage_summary_from_rollups up now since_ms until_ms f (bucket_width_secs (u64_saturating_sub until_ms since_ms)))
      else let records = collect_page up (SUMMARY_SCAN_CAP + 1) since_ms until_ms f errors_only None;
               scanned = take SUMMARY_SCAN_CAP records;
               latencies = sort (map ur_latency_ms scanned)
           in Some ((foldl count_record_totals (us_start (SUMMARY_SCAN_CAP < length records) 0) scanned)
                \<lparr>us_p50_latency_ms := usage_percentile latencies 50, us_p95_latency_ms := usage_percentile latencies 95\<rparr>))"

end
