(* ===== verification/Flusher_Laws.thy ===== *)
theory Flusher_Laws
  imports Rollup_Cache
begin

text \<open>
  What the flusher keeps: every hour is in the files of its day, a cache that is current says what the
  files say, and memory holds the recent hours. The fingerprint of a directory counts its files, and files
  of a day are only ever added, so a current stamp means the very files the cache was built from.
\<close>

section \<open>Stamps\<close>

definition plain :: "char \<Rightarrow> bool" where
  "plain c = byte_in 48 122 c"

lemma spaces_not_plain:
  "list_all (\<lambda>w. w \<noteq> [] \<and> \<not> plain (hd w)) white_space" "list_all (\<lambda>w. w \<noteq> [] \<and> \<not> plain (hd w)) (map rev white_space)"
  by code_simp+

lemma strip_space_plain:
  assumes "list_all (\<lambda>w. w \<noteq> [] \<and> \<not> plain (hd w)) spaces" "plain c"
  shows "strip_space spaces (c # s) = None"
proof -
  have "strip_prefix w (c # s) = None" if "w \<in> set spaces" for w
    using assms that by (cases w) (auto simp: list_all_iff)
  then have "List.map_filter (\<lambda>w. strip_prefix w (c # s)) spaces = []"
    by (simp add: map_filter_def filter_empty_conv)
  then show ?thesis by (simp add: strip_space_def)
qed

lemma trim_front_plain:
  assumes "list_all (\<lambda>w. w \<noteq> [] \<and> \<not> plain (hd w)) spaces" "s \<noteq> []" "plain (hd s)"
  shows "trim_front spaces n s = s"
  using assms strip_space_plain by (cases n; cases s) auto

lemma trim_plain: "s \<noteq> [] \<Longrightarrow> plain (hd s) \<Longrightarrow> plain (last s) \<Longrightarrow> trim s = s"
  by (simp add: trim_def Let_def trim_front_plain [OF spaces_not_plain(1)] trim_front_plain [OF spaces_not_plain(2)] hd_rev)

lemma hex_digit_plain: "n < 16 \<Longrightarrow> plain (hex_digit n)"
proof -
  have "list_all (\<lambda>n. plain (hex_digit n)) [0..<16]" by code_simp
  then show "n < 16 \<Longrightarrow> plain (hex_digit n)" by (simp add: list_all_iff)
qed

lemma hex16_plain: "hex16 w \<noteq> []" "plain (last (hex16 w))"
proof -
  have "unat (w AND 15) < 16"
    using word_and_le1 [of w 15] by (simp add: word_le_nat_alt)
  then show "hex16 w \<noteq> []" "plain (last (hex16 w))"
    by (simp_all add: hex16_def last_map last_rev hex_digit_plain)
qed

lemma decimal_nonempty: "decimal n \<noteq> []"
  by (subst decimal.simps) simp

lemma digit_plain: "is_digit c \<Longrightarrow> plain c"
  unfolding is_digit_def plain_def byte_in_def by linarith

lemma trim_fingerprint: "trim (fingerprint files) = fingerprint files"
proof (rule trim_plain)
  have "is_digit (hd (decimal n))" for n
    using decimal_digits [of n] decimal_nonempty [of n] by (cases "decimal n") auto
  then show "plain (hd (fingerprint files))"
    using decimal_nonempty by (auto simp: fingerprint_def Let_def intro: digit_plain)
qed (use hex16_plain in \<open>simp_all add: fingerprint_def Let_def\<close>)

lemma fingerprint_head: "takeWhile (\<lambda>c. c \<noteq> CHR '':'') (fingerprint fs) = decimal (length fs)"
proof -
  have "\<not> is_digit CHR '':''" by code_simp
  then have "\<forall>c \<in> set (decimal n). c \<noteq> CHR '':''" for n
    using decimal_digits [of n] unfolding list_all_iff by blast
  then show ?thesis by (simp add: fingerprint_def Let_def takeWhile_tail)
qed

lemma fingerprint_counts: "fingerprint fs = fingerprint gs \<Longrightarrow> length fs = length gs"
  by (metis digits_value_decimal fingerprint_head of_nat_eq_iff)

lemma same_files:
  assumes "bt_ok fs" "bt_ok gs" "set fs \<subseteq> set gs" "fingerprint fs = fingerprint gs"
  shows "fs = gs"
proof (rule bt_ext [OF assms(1,2)])
  have "card (set fs) = card (set gs)"
    using fingerprint_counts [OF assms(4)] bt_ok_distinct [OF assms(1)] bt_ok_distinct [OF assms(2)]
    by (metis distinct_card distinct_map)
  then have "set fs = set gs" using assms(3) by (metis card_subset_eq List.finite_set)
  then show "map_of fs = map_of gs"
    using bt_ok_distinct [OF assms(1)] bt_ok_distinct [OF assms(2)] map_of_inject_set by blast
qed

section \<open>Files of a day\<close>

lemma hour_day: "day_partition (hour_of r) = day_partition (ur_ts r)"
proof -
  have "unat (ur_ts r - ur_ts r mod HOUR_MS) = unat HOUR_MS * (unat (ur_ts r) div unat HOUR_MS)"
    by (rule unat_word_floor)
  moreover have "(3600000 * (n div 3600000)) div 86400000 = n div 86400000" for n :: nat
  proof -
    have "(3600000 * (n div 3600000)) div 86400000 = 3600000 * (n div 3600000) div 3600000 div 24"
      by (simp only: div_mult2_eq [symmetric]) simp
    also have "\<dots> = n div 3600000 div 24" by simp
    also have "\<dots> = n div 86400000" by (simp only: div_mult2_eq [symmetric]) simp
    finally show ?thesis .
  qed
  moreover have "unat HOUR_MS = 3600000" by (simp add: HOUR_MS_def)
  ultimately have "unat (hour_of r div 86400000) = unat (ur_ts r div 86400000)"
    by (simp add: hour_of_def unat_div_distrib)
  then have "hour_of r div 86400000 = ur_ts r div 86400000" by (rule word_unat_eq_iff [THEN iffD2])
  then show ?thesis by (simp add: day_partition_def)
qed

lemma by_day_snoc:
  "by_day ts (xs @ [x]) = bt_alter (day_partition (ts x)) (\<lambda>slot. (case slot of None \<Rightarrow> [] | Some l \<Rightarrow> l) @ [x]) (by_day ts xs)"
  by (simp add: by_day_def)

lemma bt_ok_by_day [bt_intros]: "bt_ok (by_day ts xs)"
  by (induction xs rule: rev_induct) (auto simp: by_day_snoc intro: bt_intros simp: by_day_def)

definition on_day :: "('a \<Rightarrow> u64) \<Rightarrow> string \<Rightarrow> 'a list \<Rightarrow> 'a list" where
  "on_day ts n xs = filter (\<lambda>x. day_partition (ts x) = n) xs"

lemma on_day_append [simp]: "on_day ts n (xs @ ys) = on_day ts n xs @ on_day ts n ys" "on_day ts n [] = []"
  by (simp_all add: on_day_def)

lemma map_of_by_day: "map_of (by_day ts xs) n = (if on_day ts n xs = [] then None else Some (on_day ts n xs))"
proof (induction xs rule: rev_induct)
  case Nil
  show ?case by (simp add: by_day_def)
next
  case (snoc x xs)
  then show ?case by (auto simp: by_day_snoc map_of_bt_alter bt_ok_by_day on_day_def)
qed

definition files_in :: "'a day_dirs option \<Rightarrow> string \<Rightarrow> (string \<times> 'a list) list" where
  "files_in dirs n = (case map_of (dirs_of dirs) n of None \<Rightarrow> [] | Some f \<Rightarrow> f)"

lemma bt_ok_put_file [bt_intros]: "bt_ok (dirs_of dirs) \<Longrightarrow> bt_ok (dirs_of (put_file dirs day nm c))"
  by (simp add: put_file_def dirs_of_def [of "Some _"] bt_ok_alter)

lemma map_of_put_file:
  "bt_ok (dirs_of dirs) \<Longrightarrow> map_of (dirs_of (put_file dirs day nm c)) =
     (map_of (dirs_of dirs))(day \<mapsto> bt_alter nm (\<lambda>_. c) (files_in dirs day))"
  by (simp add: put_file_def dirs_of_def [of "Some _"] map_of_bt_alter files_in_def)

lemma put_days_folded:
  assumes "bt_ok (dirs_of dirs)" "distinct (map fst parts)"
  shows "bt_ok (dirs_of (foldl (\<lambda>dirs (day, part). put_file dirs day nm part) dirs parts)) \<and>
    map_of (dirs_of (foldl (\<lambda>dirs (day, part). put_file dirs day nm part) dirs parts)) n =
      (case map_of parts n of None \<Rightarrow> map_of (dirs_of dirs) n
       | Some part \<Rightarrow> Some (bt_alter nm (\<lambda>_. part) (files_in dirs n)))"
  using assms
proof (induction parts arbitrary: dirs)
  case (Cons e parts)
  obtain day part where e: "e = (day, part)" by (cases e)
  have ok: "bt_ok (dirs_of (put_file dirs day nm part))" by (rule bt_ok_put_file [OF Cons.prems(1)])
  have "map_of parts day = None" using Cons.prems(2) by (simp add: e map_of_eq_None_iff)
  with Cons.IH [OF ok] Cons.prems show ?case
    by (auto simp: e map_of_put_file files_in_def split: option.splits)
qed simp

lemma put_days:
  assumes "bt_ok (dirs_of dirs)"
  shows "bt_ok (dirs_of (put_days ts node seq dirs xs))"
    "map_of (dirs_of (put_days ts node seq dirs xs)) n =
      (if on_day ts n xs = [] then map_of (dirs_of dirs) n
       else Some (bt_alter (file_name node seq) (\<lambda>_. on_day ts n xs) (files_in dirs n)))"
  using put_days_folded [OF assms bt_ok_distinct [OF bt_ok_by_day [of ts xs]], of "file_name node seq"]
  by (simp_all add: put_days_def map_of_by_day)

lemma file_name_inj: "file_name node s = file_name node t \<Longrightarrow> s = t"
  unfolding file_name_def by (auto dest: padded_inj)

lemma fresh_file:
  assumes "bt_ok fs" "nm \<notin> fst ` set fs"
  shows "mset (bt_alter nm (\<lambda>_. c) fs) = add_mset (nm, c) (mset fs)"
  using assms(1)
proof (cases rule: bt_alter_split [where k = nm and f = "\<lambda>_. c"])
  case (vacant pre post)
  then show ?thesis by simp
next
  case (occupied pre v post)
  then show ?thesis using assms(2) by auto
qed

section \<open>The invariant of the flusher\<close>

definition rows_on :: "string \<Rightarrow> usage_record list \<Rightarrow> rollup_row list" where
  "rows_on n recs = map row_of (on_day ur_ts n recs)"

text \<open>A cache that says what some of the files of its day said.\<close>

definition cache_ok :: "(string \<times> rollup_row list) list \<Rightarrow> cached \<Rightarrow> bool" where
  "cache_ok files c \<longleftrightarrow>
     (\<forall>s rows. ca_stamp c = Some s \<and> ca_rows c = Some rows \<longrightarrow>
        (\<forall>r \<in> set rows. row_ok r) \<and>
        (\<exists>fs. bt_ok fs \<and> set fs \<subseteq> set files \<and> s = fingerprint fs \<and> fold_rows rows = fold_rows (read_rollup_files fs)))"

definition named_by :: "string \<Rightarrow> nat \<Rightarrow> (string \<times> 'a) list \<Rightarrow> bool" where
  "named_by node seq files \<longleftrightarrow> (\<forall>nm \<in> fst ` set files. \<exists>s < seq. nm = file_name node s)"

definition dir_holds :: "string \<Rightarrow> usage_record list \<Rightarrow> string set \<Rightarrow> data_dir \<Rightarrow> nat \<Rightarrow> bool" where
  "dir_holds node recs gone dd seq \<longleftrightarrow>
     bt_ok (dirs_of (dd_rollup dd)) \<and> bt_ok (dirs_of (dd_usage dd)) \<and>
     (\<forall>n. bt_ok (files_in (dd_rollup dd) n) \<and> named_by node seq (files_in (dd_rollup dd) n) \<and>
          (\<forall>r \<in> set (read_rollup_files (files_in (dd_rollup dd) n)). row_ok r)) \<and>
     (\<forall>n. n \<notin> gone \<longrightarrow>
        fold_rows (read_rollup_files (files_in (dd_rollup dd) n)) = fold_rows (rows_on n recs) \<and>
        (map_of (dirs_of (dd_rollup dd)) n = None \<longrightarrow>
           map_of (dirs_of (dd_usage dd)) n = None \<and> on_day ur_ts n recs = []) \<and>
        (starts_with ''dt='' n \<longrightarrow> cache_ok (files_in (dd_rollup dd) n) (dd_cache dd n)))"

definition memory_holds :: "usage_record list \<Rightarrow> u64 \<Rightarrow> recent_rollups \<Rightarrow> bool" where
  "memory_holds recs since rc \<longleftrightarrow>
     rows.good (rc_rows rc) \<and>
     filter (\<lambda>e. since \<le> fst (fst e)) (rc_rows rc) =
     filter (\<lambda>e. since \<le> fst (fst e)) (foldl rows.pour [] (map row_of recs))"

lemma row_ok_rows_on [simp]: "\<forall>r \<in> set (rows_on n recs). row_ok r"
  by (auto simp: rows_on_def)

subsection \<open>Reading a day\<close>

lemma read_rollup_files_mono: "set fs \<subseteq> set gs \<Longrightarrow> set (read_rollup_files fs) \<subseteq> set (read_rollup_files gs)"
  by (auto simp: read_rollup_files_def)

lemma hourly_rows_fold:
  assumes "dir_holds node recs gone dd seq" "n \<notin> gone" "starts_with ''dt='' n"
  shows "fold_rows (hourly_rows dd n) = fold_rows (rows_on n recs)" "\<forall>r \<in> set (hourly_rows dd n). row_ok r"
proof -
  have inv: "bt_ok (files_in (dd_rollup dd) n)" "\<forall>r \<in> set (read_rollup_files (files_in (dd_rollup dd) n)). row_ok r"
    "fold_rows (read_rollup_files (files_in (dd_rollup dd) n)) = fold_rows (rows_on n recs)"
    "map_of (dirs_of (dd_rollup dd)) n = None \<Longrightarrow> map_of (dirs_of (dd_usage dd)) n = None \<and> on_day ur_ts n recs = []"
    "cache_ok (files_in (dd_rollup dd) n) (dd_cache dd n)"
    using assms by (auto simp: dir_holds_def)
  have "fold_rows (hourly_rows dd n) = fold_rows (rows_on n recs) \<and> (\<forall>r \<in> set (hourly_rows dd n). row_ok r)"
  proof (cases "map_of (dirs_of (dd_rollup dd)) n")
    case None
    with inv(4) have "hourly_rows dd n = []"
      by (simp add: hourly_rows_def dir_fingerprint_def read_if_current_def)
    with None inv(4) show ?thesis by (simp add: rows_on_def)
  next
    case (Some files)
    then have files: "files_in (dd_rollup dd) n = files" by (simp add: files_in_def)
    show ?thesis
    proof (cases "read_if_current dd n (Some (fingerprint files))")
      case None
      with Some inv(2,3) files show ?thesis by (simp add: hourly_rows_def)
    next
      case (Some rows)
      then obtain s where s: "ca_stamp (dd_cache dd n) = Some s" "trim s = fingerprint files"
        and r: "ca_rows (dd_cache dd n) = Some rows"
        by (auto simp: read_if_current_def bind_eq_Some_conv split: if_splits)
      with inv(5) files obtain fs where fs: "bt_ok fs" "set fs \<subseteq> set files" "s = fingerprint fs"
        "fold_rows rows = fold_rows (read_rollup_files fs)" "\<forall>r \<in> set rows. row_ok r"
        by (auto simp: cache_ok_def)
      have "fs = files" using fs(1-3) s(2) inv(1) files by (intro same_files) (auto simp: trim_fingerprint)
      with fs inv(3) files Some \<open>map_of _ n = Some files\<close> show ?thesis by (simp add: hourly_rows_def)
    qed
  qed
  then show "fold_rows (hourly_rows dd n) = fold_rows (rows_on n recs)" "\<forall>r \<in> set (hourly_rows dd n). row_ok r" by blast+
qed

subsection \<open>A flush keeps it\<close>

lemma fold_rows_fold: "\<forall>r \<in> set rs. row_ok r \<Longrightarrow> fold_rows (fold_rows rs) = fold_rows rs"
  using rows.fold_twice [of "[]" rs] by (simp add: fold_rows_pours)

lemma fold_rows_cong:
  assumes "\<forall>r \<in> set (as @ bs @ cs @ ds). row_ok r" "fold_rows as = fold_rows bs" "fold_rows cs = fold_rows ds"
  shows "fold_rows (as @ cs) = fold_rows (bs @ ds)"
  using fold_rows_concat [of "[as, cs]"] fold_rows_concat [of "[bs, ds]"] assms
  by (simp add: fold_rows_pours)

lemma fold_rows_Nil [simp]: "fold_rows rs = [] \<longleftrightarrow> rs = []"
proof (cases rs rule: rev_cases)
  case (snoc xs x)
  then show ?thesis by (simp add: fold_rows_def absorb_row_def)
qed (simp add: fold_rows_def)

lemma on_day_roll_up: "on_day rr_hour_ms n (roll_up batch) = fold_rows (rows_on n batch)"
proof -
  have "on_day rr_hour_ms n (roll_up batch) =
      filter (\<lambda>r. day_partition (fst (row_key r)) = n) (map snd (foldl rows.pour [] (map row_of batch)))"
    by (simp add: on_day_def roll_up_pours row_key_def)
  also have "\<dots> = map snd (foldl rows.pour [] (filter (\<lambda>r. day_partition (fst (row_key r)) = n) (map row_of batch)))"
    by (rule rows.filter_folded) simp
  also have "filter (\<lambda>r. day_partition (fst (row_key r)) = n) (map row_of batch) = rows_on n batch"
    by (simp add: rows_on_def on_day_def filter_map comp_def row_key_row_of hour_day)
  finally show ?thesis by (simp add: fold_rows_pours)
qed

lemma cache_ok_mono: "cache_ok fs c \<Longrightarrow> set fs \<subseteq> set gs \<Longrightarrow> cache_ok gs c"
  unfolding cache_ok_def by blast

lemma dir_holds_flush:
  assumes "dir_holds node recs gone dd seq"
  shows "dir_holds node (recs @ batch) gone (write_rollups (write_batch dd node seq batch) node seq (roll_up batch)) (Suc seq)"
proof -
  let ?rows = "roll_up batch" and ?nm = "file_name node seq"
  let ?dd = "write_rollups (write_batch dd node seq batch) node seq ?rows"
  have ok: "bt_ok (dirs_of (dd_rollup dd))" "bt_ok (dirs_of (dd_usage dd))" using assms by (auto simp: dir_holds_def)
  have old: "bt_ok (files_in (dd_rollup dd) n)" "named_by node seq (files_in (dd_rollup dd) n)"
    "\<forall>r \<in> set (read_rollup_files (files_in (dd_rollup dd) n)). row_ok r" for n
    using assms by (auto simp: dir_holds_def)
  have dirs: "dd_rollup ?dd = put_days rr_hour_ms node seq (dd_rollup dd) ?rows"
    "dd_usage ?dd = put_days ur_ts node seq (dd_usage dd) batch" "dd_cache ?dd = dd_cache dd"
    by (simp_all add: write_rollups_def write_batch_def)
  have files: "files_in (dd_rollup ?dd) n =
      (if on_day ur_ts n batch = [] then files_in (dd_rollup dd) n
       else bt_alter ?nm (\<lambda>_. fold_rows (rows_on n batch)) (files_in (dd_rollup dd) n))" for n
    by (simp add: dirs files_in_def put_days(2) [OF ok(1)] on_day_roll_up rows_on_def)
  have fresh: "?nm \<notin> fst ` set (files_in (dd_rollup dd) n)" for n
  proof
    assume "?nm \<in> fst ` set (files_in (dd_rollup dd) n)"
    then obtain s where "s < seq" "?nm = file_name node s" using old(2) [of n] unfolding named_by_def by blast
    then show False using file_name_inj by blast
  qed
  have new: "mset (files_in (dd_rollup ?dd) n) =
      (if on_day ur_ts n batch = [] then mset (files_in (dd_rollup dd) n)
       else add_mset (?nm, fold_rows (rows_on n batch)) (mset (files_in (dd_rollup dd) n)))" for n
    using fresh_file [OF old(1) fresh] by (simp add: files)
  have sets: "set (files_in (dd_rollup ?dd) n) = set (files_in (dd_rollup dd) n) \<union>
      (if on_day ur_ts n batch = [] then {} else {(?nm, fold_rows (rows_on n batch))})" for n
    using arg_cong [OF new [of n], of set_mset] by (simp split: if_splits)
  have okb: "\<forall>r \<in> set (fold_rows (rows_on n batch)). row_ok r" for n by (rule fold_rows_ok) simp
  have okn: "\<forall>r \<in> set (read_rollup_files (files_in (dd_rollup ?dd) n)). row_ok r" for n
    using old(3) okb by (auto simp: read_rollup_files_def sets)
  have read: "fold_rows (read_rollup_files (files_in (dd_rollup ?dd) n)) =
      fold_rows (read_rollup_files (files_in (dd_rollup dd) n) @ rows_on n batch)" for n
  proof (cases "on_day ur_ts n batch = []")
    case True
    then show ?thesis by (simp add: files rows_on_def)
  next
    case False
    have "mset (read_rollup_files (files_in (dd_rollup ?dd) n)) =
        mset (read_rollup_files ((?nm, fold_rows (rows_on n batch)) # files_in (dd_rollup dd) n))"
      unfolding read_rollup_files_def by (rule mset_concat_cong) (use new False in simp)
    then have "fold_rows (read_rollup_files (files_in (dd_rollup ?dd) n)) =
        fold_rows (read_rollup_files (files_in (dd_rollup dd) n) @ fold_rows (rows_on n batch))"
      by (intro fold_rows_any_order okn) (simp add: read_rollup_files_def add.commute)
    also have "\<dots> = fold_rows (read_rollup_files (files_in (dd_rollup dd) n) @ rows_on n batch)"
      by (rule fold_rows_cong) (use old(3) okb in \<open>auto simp: fold_rows_fold rows_on_def\<close>)
    finally show ?thesis .
  qed
  have named: "named_by node (Suc seq) (files_in (dd_rollup ?dd) n)" for n
    using old(2) [of n] by (auto simp: named_by_def sets less_Suc_eq split: if_splits)
  have bok: "bt_ok (files_in (dd_rollup ?dd) n)" for n
    using old(1) by (simp add: files bt_ok_alter)
  have later: "fold_rows (read_rollup_files (files_in (dd_rollup ?dd) n)) = fold_rows (rows_on n (recs @ batch)) \<and>
      (map_of (dirs_of (dd_rollup ?dd)) n = None \<longrightarrow>
         map_of (dirs_of (dd_usage ?dd)) n = None \<and> on_day ur_ts n (recs @ batch) = []) \<and>
      (starts_with ''dt='' n \<longrightarrow> cache_ok (files_in (dd_rollup ?dd) n) (dd_cache ?dd n))" if "n \<notin> gone" for n
  proof (intro conjI impI)
    have held: "fold_rows (read_rollup_files (files_in (dd_rollup dd) n)) = fold_rows (rows_on n recs)"
      "map_of (dirs_of (dd_rollup dd)) n = None \<longrightarrow> map_of (dirs_of (dd_usage dd)) n = None \<and> on_day ur_ts n recs = []"
      "starts_with ''dt='' n \<longrightarrow> cache_ok (files_in (dd_rollup dd) n) (dd_cache dd n)"
      using assms that by (auto simp: dir_holds_def)
    have "fold_rows (read_rollup_files (files_in (dd_rollup dd) n) @ rows_on n batch) = fold_rows (rows_on n recs @ rows_on n batch)"
      by (rule fold_rows_cong) (use old(3) held(1) in \<open>auto simp: rows_on_def\<close>)
    then show "fold_rows (read_rollup_files (files_in (dd_rollup ?dd) n)) = fold_rows (rows_on n (recs @ batch))"
      by (simp add: read rows_on_def)
    assume none: "map_of (dirs_of (dd_rollup ?dd)) n = None"
    then have "on_day ur_ts n batch = []" "map_of (dirs_of (dd_rollup dd)) n = None"
      by (simp_all add: dirs put_days(2) [OF ok(1)] on_day_roll_up rows_on_def split: if_splits)
    with held(2) show "map_of (dirs_of (dd_usage ?dd)) n = None" "on_day ur_ts n (recs @ batch) = []"
      by (simp_all add: dirs put_days(2) [OF ok(2)])
  next
    assume "starts_with ''dt='' n"
    with assms that have "cache_ok (files_in (dd_rollup dd) n) (dd_cache dd n)" by (auto simp: dir_holds_def)
    then show "cache_ok (files_in (dd_rollup ?dd) n) (dd_cache ?dd n)"
      unfolding dirs(3) by (rule cache_ok_mono) (simp add: sets)
  qed
  show ?thesis
    unfolding dir_holds_def using later named bok okn put_days(1) [OF ok(1)] put_days(1) [OF ok(2)]
    by (simp add: dirs)
qed

lemma memory_holds_flush:
  assumes "memory_holds recs since rc"
  shows "memory_holds (recs @ batch) since (rc_absorb rc (roll_up batch))"
proof -
  let ?P = "\<lambda>k :: row_key. since \<le> fst k"
  let ?keep = "filter (\<lambda>e. ?P (fst e))"
  have g: "rows.good (rc_rows rc)" and eq: "?keep (rc_rows rc) = ?keep (foldl rows.pour [] (map row_of recs))"
    using assms by (auto simp: memory_holds_def)
  have ok: "\<forall>r \<in> set (roll_up batch). row_ok r" "\<forall>r \<in> set (map row_of xs). row_ok r" for xs
    using fold_rows_ok [of "map row_of batch"] by (simp_all add: roll_up_pours fold_rows_pours)
  have g': "rows.good (foldl rows.pour [] (map row_of recs))" by (rule good_roll) simp
  let ?m = "?keep (rc_rows rc)"
  have gm: "rows.good ?m" by (rule rows.good_filter [OF g])
  have "?keep (foldl rows.pour (rc_rows rc) (roll_up batch)) = foldl rows.pour ?m (filter (\<lambda>r. ?P (row_key r)) (roll_up batch))"
    by (rule rows.filter_pours [OF g ok(1)])
  also have "filter (\<lambda>r. ?P (row_key r)) (roll_up batch) =
      map snd (foldl rows.pour [] (filter (\<lambda>r. ?P (row_key r)) (map row_of batch)))"
    unfolding roll_up_pours by (rule rows.filter_folded [OF ok(2)])
  also have "foldl rows.pour ?m \<dots> = foldl rows.pour ?m (filter (\<lambda>r. ?P (row_key r)) (map row_of batch))"
    by (rule rows.fold_twice [OF gm]) auto
  also have "\<dots> = ?keep (foldl rows.pour [] (map row_of (recs @ batch)))"
    using rows.filter_pours [OF g' ok(2), of ?P batch] eq by simp
  finally show ?thesis
    using rows.good_pours [OF g ok(1)] by (simp add: memory_holds_def rc_absorb_def absorb_row_pour)
qed

lemma memory_holds_evict:
  assumes "memory_holds recs since rc" "since \<le> since'" "f \<le> since'"
  shows "memory_holds recs since' (rc_evict_before rc f)"
proof -
  have narrow: "filter (\<lambda>e. since' \<le> fst (fst e)) (filter (\<lambda>e. since \<le> fst (fst e)) m) =
      filter (\<lambda>e. since' \<le> fst (fst e)) m" for m :: row_map
    using assms(2) unfolding filter_filter by (intro filter_cong) auto
  have evict: "rc_rows (rc_evict_before rc f) = filter (\<lambda>e. f \<le> fst (fst e)) (rc_rows rc)"
    by (auto simp: rc_evict_before_def intro: filter_cong)
  have "filter (\<lambda>e. since' \<le> fst (fst e)) (filter (\<lambda>e. f \<le> fst (fst e)) m) = filter (\<lambda>e. since' \<le> fst (fst e)) m"
    for m :: row_map
    using assms(3) unfolding filter_filter by (intro filter_cong) auto
  moreover have "rows.good (filter (\<lambda>e. f \<le> fst (fst e)) (rc_rows rc))"
    using rows.good_filter [of "rc_rows rc" "\<lambda>k. f \<le> fst k"] assms(1) by (simp add: memory_holds_def)
  moreover have "filter (\<lambda>e. since' \<le> fst (fst e)) (rc_rows rc) =
      filter (\<lambda>e. since' \<le> fst (fst e)) (foldl rows.pour [] (map row_of recs))"
    using assms(1) narrow unfolding memory_holds_def by metis
  ultimately show ?thesis by (simp add: memory_holds_def evict)
qed

subsection \<open>Maintenance keeps it\<close>

lemma dir_holds_cache:
  assumes "dir_holds node recs gone dd seq"
    and "\<And>n. n \<notin> gone \<Longrightarrow> starts_with ''dt='' n \<Longrightarrow> cache_ok (files_in (dd_rollup dd) n) (c n)"
  shows "dir_holds node recs gone (dd\<lparr>dd_cache := c\<rparr>) seq"
  using assms by (simp add: dir_holds_def)

lemma dir_holds_write:
  assumes "dir_holds node recs gone dd seq"
    and "n \<notin> gone \<Longrightarrow> starts_with ''dt='' n \<Longrightarrow>
      cache_ok (files_in (dd_rollup dd) n) \<lparr>ca_stamp = Some stamp, ca_rows = Some rows\<rparr>"
  shows "dir_holds node recs gone (write_cache dd n stamp rows) seq"
  unfolding write_cache_def
  by (rule dir_holds_cache [OF assms(1)])
    (use assms in \<open>cases "dd_cache dd n"; auto simp: write_cache_until_def Let_def dir_holds_def\<close>)

lemma dir_holds_cache_day:
  assumes "dir_holds node recs gone dd seq"
  shows "dir_holds node recs gone (cache_day today dd day) seq"
proof (cases "map_of (dirs_of (dd_rollup dd)) day")
  case (Some files)
  have "files_in (dd_rollup dd) day = files" using Some by (simp add: files_in_def)
  then have f: "bt_ok files" "\<forall>r \<in> set (read_rollup_files files). row_ok r"
    using assms unfolding dir_holds_def by metis+
  have "cache_ok files \<lparr>ca_stamp = Some (fingerprint files), ca_rows = Some (fold_rows (read_rollup_files files))\<rparr>"
    using f fold_rows_ok [OF f(2)] fold_rows_fold [OF f(2)] by (auto simp: cache_ok_def)
  with dir_holds_write [OF assms, of day "fingerprint files" "fold_rows (read_rollup_files files)"]
  show ?thesis using assms \<open>files_in _ _ = _\<close> by (simp add: cache_day_def Some)
qed (simp add: cache_day_def assms)

lemma dir_holds_backfill:
  assumes "dir_holds node recs gone dd seq"
    and "\<And>d. starts_with ''dt='' d \<Longrightarrow> map_of (dirs_of (dd_rollup dd)) d \<noteq> None \<Longrightarrow> d \<in> set days"
  shows "dir_holds node recs gone (backfill_day today days dd day) seq"
proof (cases "map_of (dirs_of (dd_usage dd)) day")
  case (Some files)
  show ?thesis
  proof (cases "starts_with ''dt='' day \<and> day \<notin> set days")
    case True
    then have "map_of (dirs_of (dd_rollup dd)) day = None" using assms(2) by blast
    with Some assms(1) have "day \<in> gone" unfolding dir_holds_def by (metis option.distinct(1))
    then show ?thesis
      using dir_holds_write [OF assms(1), of day] assms(1) by (simp add: backfill_day_def Some Let_def)
  next
    case False
    then show ?thesis using assms(1) by (auto simp: backfill_day_def)
  qed
qed (simp add: backfill_day_def assms(1))

lemma dir_holds_cache_month:
  assumes "dir_holds node recs gone dd seq" "\<not> starts_with ''dt='' month"
  shows "dir_holds node recs gone (cache_month current days dd month) seq"
  using assms(1) dir_holds_write [OF assms(1), of month] assms(2)
  by (simp add: cache_month_def split: option.splits)

lemma same_dirs [simp]:
  "dd_rollup (cache_day today dd day) = dd_rollup dd" "dd_rollup (backfill_day today days dd day) = dd_rollup dd"
  by (simp_all add: cache_day_def backfill_day_def write_cache_def Let_def split: option.splits)

lemma same_usage [simp]: "dd_usage (cache_day today dd day) = dd_usage dd"
  by (simp add: cache_day_def write_cache_def split: option.splits)

lemma month_not_day: "month_of d = Some m \<Longrightarrow> \<not> starts_with ''dt='' m"
  by (auto simp: month_of_def bind_eq_Some_conv starts_with_def split: if_splits)

lemma dir_holds_refresh:
  assumes "dir_holds node recs gone dd seq"
  shows "dir_holds node recs gone (refresh dd today current) seq"
proof (cases "dd_rollup dd")
  case None
  then show ?thesis using assms by (simp add: refresh_def)
next
  case (Some dirs)
  define days where "days = sort (filter (starts_with ''dt='') (map fst dirs))"
  have one: "dir_holds node recs gone (foldl (cache_day today) dd ds) seq \<and>
      dd_rollup (foldl (cache_day today) dd ds) = dd_rollup dd" for ds
    by (induction ds rule: rev_induct) (simp_all add: assms dir_holds_cache_day)
  have covers: "d \<in> set days" if "starts_with ''dt='' d" "map_of (dirs_of (Some dirs)) d \<noteq> None" for d
    using that by (auto simp: days_def dirs_of_def map_of_eq_None_iff)
  have two: "dir_holds node recs gone (foldl (backfill_day today days) dd' ds) seq \<and>
      dd_rollup (foldl (backfill_day today days) dd' ds) = dd_rollup dd'"
    if "dir_holds node recs gone dd' seq" "dd_rollup dd' = Some dirs" for dd' ds
  proof (induction ds rule: rev_induct)
    case (snoc d ds)
    then have "dd_rollup (foldl (backfill_day today days) dd' ds) = Some dirs" using that by simp
    moreover from this have "dir_holds node recs gone (backfill_day today days (foldl (backfill_day today days) dd' ds) d) seq"
      using snoc covers by (intro dir_holds_backfill) simp_all
    ultimately show ?case using that by simp
  qed (simp add: that)
  have three: "dir_holds node recs gone (foldl (cache_month current days) dd' ms) seq"
    if "dir_holds node recs gone dd' seq" "\<forall>m \<in> set ms. \<not> starts_with ''dt='' m" for dd' ms
    using that(2) by (induction ms rule: rev_induct) (simp_all add: that(1) dir_holds_cache_month)
  have "\<forall>m \<in> set (sort (remdups (List.map_filter month_of days))). \<not> starts_with ''dt='' m"
    using month_not_day by (auto simp: map_filter_def)
  then show ?thesis
    unfolding refresh_def Some option.case Let_def days_def [symmetric]
    using one two Some by (intro three) metis+
qed

definition too_old :: "string \<Rightarrow> string set" where
  "too_old cutoff = {n. starts_with ''dt='' n \<and> n < cutoff}"

lemma prune_keeps: "prune_partitions dirs cutoff = map_option (filter (\<lambda>e. fst e \<notin> too_old cutoff)) dirs"
  by (cases dirs) (auto simp: prune_partitions_def too_old_def intro!: filter_cong)

lemma map_of_prune: "map_of (dirs_of (prune_partitions dirs cutoff)) n =
    (if n \<in> too_old cutoff then None else map_of (dirs_of dirs) n)"
  using map_of_filter_key [of "\<lambda>n. n \<notin> too_old cutoff" "the dirs" n]
  by (cases dirs) (simp_all add: prune_keeps dirs_of_def)

lemma bt_ok_prune: "bt_ok (dirs_of dirs) \<Longrightarrow> bt_ok (dirs_of (prune_partitions dirs cutoff))"
  by (cases dirs) (auto simp: prune_partitions_def dirs_of_def intro: bt_intros)

definition rollup_cutoff :: "u32 \<Rightarrow> u64 \<Rightarrow> string" where
  "rollup_cutoff retention now = days_before now (u32_saturating_mul retention ROLLUP_RETENTION_FACTOR)"

lemma dir_holds_prune:
  assumes "dir_holds node recs gone dd seq"
  shows "dir_holds node recs (gone \<union> too_old (rollup_cutoff retention now)) (prune dd now retention) seq"
proof -
  let ?dd = "prune dd now retention" and ?cut = "rollup_cutoff retention now"
  have dirs: "dd_rollup ?dd = prune_partitions (dd_rollup dd) ?cut"
    "dd_usage ?dd = prune_partitions (dd_usage dd) (days_before now retention)"
    by (simp_all add: prune_def Let_def prune_caches_def rollup_cutoff_def)
  have cache: "dd_cache ?dd n = dd_cache dd n \<or> dd_cache ?dd n = \<lparr>ca_stamp = None, ca_rows = None\<rparr>" for n
    by (simp add: prune_def Let_def prune_caches_def)
  have files: "files_in (dd_rollup ?dd) n = (if n \<in> too_old ?cut then [] else files_in (dd_rollup dd) n)" for n
    by (simp add: dirs files_in_def map_of_prune)
  have "cache_ok (files_in (dd_rollup dd) n) (dd_cache dd n) \<Longrightarrow> cache_ok (files_in (dd_rollup dd) n) (dd_cache ?dd n)" for n
    using cache [of n] by (auto simp: cache_ok_def)
  then show ?thesis
    using assms unfolding dir_holds_def files
    by (auto simp: dirs map_of_prune bt_ok_prune named_by_def read_rollup_files_def split: if_splits)
qed

section \<open>The life of a flusher\<close>

text \<open>The days whose rollups retention removed, and the hour before which memory forgets.\<close>

definition gone_days :: "u32 \<Rightarrow> flush_event list \<Rightarrow> string set" where
  "gone_days retention es = (\<Union>now \<in> {now. Maintained now \<in> set es}. too_old (rollup_cutoff retention now))"

definition memory_start :: "u64 \<Rightarrow> u64" where
  "memory_start now = u64_saturating_sub now RECENT_ROLLUP_SPAN_MS"

lemma memory_start_mono: "a \<le> b \<Longrightarrow> memory_start a \<le> memory_start b"
  unfolding word_le_nat_alt memory_start_def unat_saturating_sub by simp

lemma flushed_records_append [simp]: "flushed_records (es @ fs) = flushed_records es @ flushed_records fs"
  by (induction es rule: flushed_records.induct) simp_all

lemma gone_days_snoc: "gone_days retention (es @ [e]) =
    gone_days retention es \<union> (case e of Maintained now \<Rightarrow> too_old (rollup_cutoff retention now) | _ \<Rightarrow> {})"
  by (auto simp: gone_days_def split: flush_event.splits)

lemma dir_holds_start: "dir_holds node [] gone dd_empty 0"
  by (simp add: dir_holds_def dd_empty_def dirs_of_def files_in_def named_by_def read_rollup_files_def rows_on_def
      cache_ok_def)

lemma flusher_start:
  "fl_dir (flusher_start now) = dd_empty" "fl_seq (flusher_start now) = 0"
  "rc_rows (fl_recent (flusher_start now)) = []" "rc_seeded (fl_recent (flusher_start now))"
  by (simp_all add: flusher_start_def seed_recent_def Let_def hourly_rows_def dd_empty_def dirs_of_def
      dir_fingerprint_def read_if_current_def rc_absorb_def rc_evict_before_def rc_default_def)

lemma flusher_holds:
  assumes "\<forall>now. Maintained now \<in> set es \<longrightarrow> now \<le> latest"
  shows "dir_holds node (flushed_records es) (gone_days retention es)
      (fl_dir (foldl (flush_step node retention) (flusher_start t0) es))
      (fl_seq (foldl (flush_step node retention) (flusher_start t0) es)) \<and>
    memory_holds (flushed_records es) (memory_start latest)
      (fl_recent (foldl (flush_step node retention) (flusher_start t0) es)) \<and>
    rc_seeded (fl_recent (foldl (flush_step node retention) (flusher_start t0) es))"
  using assms
proof (induction es rule: rev_induct)
  case Nil
  show ?case by (simp add: flusher_start dir_holds_start memory_holds_def)
next
  case (snoc e es)
  define fl where "fl = foldl (flush_step node retention) (flusher_start t0) es"
  have ih: "dir_holds node (flushed_records es) (gone_days retention es) (fl_dir fl) (fl_seq fl)"
    "memory_holds (flushed_records es) (memory_start latest) (fl_recent fl)" "rc_seeded (fl_recent fl)"
    using snoc by (simp_all add: fl_def)
  show ?case
  proof (cases e)
    case (Flushed batch)
    then show ?thesis
      using dir_holds_flush [OF ih(1), of batch] memory_holds_flush [OF ih(2), of batch] ih(3)
      by (simp add: fl_def [symmetric] gone_days_snoc flush_def Let_def rc_absorb_def)
  next
    case (Maintained now)
    then have "memory_start now \<le> memory_start latest" using snoc.prems by (intro memory_start_mono) simp
    from memory_holds_evict [OF ih(2) order.refl this] dir_holds_refresh [OF dir_holds_prune [OF ih(1)]] ih(3) Maintained
    show ?thesis
      by (simp add: fl_def [symmetric] gone_days_snoc maintain_def memory_start_def rc_evict_before_def)
  qed
qed

text \<open>
  Property C34. Caches are invisible. Whatever batches were flushed and whenever maintenance built, kept or
  pruned caches, reading a day that retention has not removed gives, folded, the rows of exactly the
  records of that day.
\<close>

theorem caches_are_invisible:
  assumes "n \<notin> gone_days retention es" "starts_with ''dt='' n"
  shows "fold_rows (hourly_rows (fl_dir (foldl (flush_step node retention) (flusher_start t0) es)) n) =
    roll_up (filter (\<lambda>r. day_partition (ur_ts r) = n) (flushed_records es))"
proof -
  have "\<forall>now. Maintained now \<in> set es \<longrightarrow> now \<le> - 1" by simp
  from flusher_holds [OF this, of node retention t0] hourly_rows_fold [OF _ assms]
  have "fold_rows (hourly_rows (fl_dir (foldl (flush_step node retention) (flusher_start t0) es)) n) =
      fold_rows (rows_on n (flushed_records es))" by blast
  also have "\<dots> = roll_up (on_day ur_ts n (flushed_records es))"
    by (simp add: rows_on_def roll_up_pours fold_rows_pours)
  finally show ?thesis by (simp add: on_day_def)
qed

theorem caches_are_invisible_witness:
  "fold_rows (hourly_rows (fl_dir (foldl (flush_step ''n1'' 30) (flusher_start 0)
      [Flushed [sample_record 60000 ''a'' ''o3'' 200 7], Flushed [sample_record 7300000 ''c'' ''o3'' 200 1]])) (day_partition 0)) =
   roll_up (filter (\<lambda>r. day_partition (ur_ts r) = day_partition 0)
     [sample_record 60000 ''a'' ''o3'' 200 7, sample_record 7300000 ''c'' ''o3'' 200 1])"
  using caches_are_invisible [of "day_partition 0" 30
      "[Flushed [sample_record 60000 ''a'' ''o3'' 200 7], Flushed [sample_record 7300000 ''c'' ''o3'' 200 1]]" "''n1''" 0]
  by (simp add: gone_days_def day_partition_def day_name_def starts_with_def split: prod.splits)

text \<open>
  A crash while a cache is being written never leaves one that is trusted and wrong: after
  any of the steps the cache is the old one with its old stamp, unreadable, or the new one complete.
\<close>

theorem a_crash_leaves_no_wrong_cache:
  "(let c' = write_cache_until steps c stamp rows in
      c' = c \<or> ca_stamp c' = None \<or> (ca_stamp c' = Some stamp \<and> ca_rows c' = Some rows))"
  by (cases c) (simp add: write_cache_until_def Let_def)

end
