(* ===== verification/History_Laws.thy ===== *)
theory History_Laws
  imports Usage_Summary Flusher_Laws
begin

text \<open>
  What a reader gets from the pipeline: the walk over a window ends; an hourly window shows exactly the
  records the flusher wrote, but for the hours of one day that neither memory nor disk is asked for; the
  groupings of a history and the figures of a summary add up; what the pages of records leave out.
\<close>

section \<open>The walk ends\<close>

lemma unat_day: "unat (ms div DAY_MS) = unat ms div 86400000"
  by (simp add: unat_div_distrib)

lemma month_walk_midnight: "month_walk n ym cursor = Some e \<Longrightarrow> e mod DAY_MS = 0"
  by (induction n ym cursor rule: month_walk.induct) (auto simp: word_floor_mod split: if_splits)

lemma midnight_day: "e mod DAY_MS = 0 \<Longrightarrow> unat e = 86400000 * (unat e div 86400000)"
proof -
  assume "e mod DAY_MS = 0"
  then have "unat e mod 86400000 = 0" by (metis unat_0 unat_DAY_MS unat_mod_distrib)
  then show ?thesis by auto
qed

lemma next_midnight:
  assumes "cursor mod DAY_MS = 0" "cursor \<le> until_ms" "until_ms < 2 ^ 63"
  shows "unat (cursor + DAY_MS) = unat cursor + 86400000" "(cursor + DAY_MS) mod DAY_MS = 0"
proof -
  have "unat cursor < 2 ^ 63" using assms(2,3) by (simp add: word_le_nat_alt word_less_nat_alt)
  then show sum: "unat (cursor + DAY_MS) = unat cursor + 86400000" by (simp add: unat_word_ariths)
  have "unat ((cursor + DAY_MS) mod DAY_MS) = 0"
    unfolding unat_mod_distrib sum using midnight_day [OF assms(1)] by (metis mod_add_self2 mod_mult_self1_is_0 unat_DAY_MS)
  then show "(cursor + DAY_MS) mod DAY_MS = 0" by (simp add: unat_eq_zero)
qed

lemma window_walk_ends:
  assumes "cursor mod DAY_MS = 0" "until_ms < 2 ^ 63"
    and "unat until_ms div 86400000 + 1 - unat cursor div 86400000 < n"
  shows "\<exists>rows. window_walk n dd until_ms stop_at hourly cursor = Some rows"
  using assms(1,3)
proof (induction n arbitrary: cursor)
  case (Suc n)
  show ?case
  proof (cases "until_ms < cursor \<or> (case stop_at of None \<Rightarrow> False | Some c \<Rightarrow> c \<le> cursor)")
    case False
    then have le: "cursor \<le> until_ms" by auto
    then have le': "unat cursor div 86400000 \<le> unat until_ms div 86400000"
      by (simp add: word_le_nat_alt div_le_mono)
    have shorter: "\<exists>rows. window_walk n dd until_ms stop_at hourly c = Some rows"
      if "c mod DAY_MS = 0" "unat cursor div 86400000 < unat c div 86400000" for c
      by (rule Suc.IH [OF that(1)]) (use Suc.prems(2) that(2) le' in linarith)
    have day: "\<exists>rows. window_walk n dd until_ms stop_at hourly (cursor + DAY_MS) = Some rows"
      by (rule shorter) (simp_all add: next_midnight [OF Suc.prems(1) le assms(2)])
    have "cursor < 2 ^ 63" using le assms(2) by (rule le_less_trans)
    from months_end [OF this] obtain e where e: "month_end_ms cursor = Some e" "cursor < e" by blast
    then have "e mod DAY_MS = 0" by (auto simp: month_end_ms_def Let_def dest: month_walk_midnight)
    moreover have "unat cursor div 86400000 < unat e div 86400000"
      using e(2) midnight_day [OF Suc.prems(1)] midnight_day [OF \<open>e mod DAY_MS = 0\<close>]
      by (metis mult_less_cancel1 word_less_nat_alt)
    ultimately have "\<exists>rows. window_walk n dd until_ms stop_at hourly e = Some rows" by (rule shorter)
    with False day e(1) show ?thesis
      by (auto simp: month_step_def split: option.splits)
  qed simp
qed simp

text \<open>
  Property C40. Every window is answered: whatever interval is asked for, the walk over days and cached
  months reaches its end within the steps allowed.
\<close>

theorem every_window_is_answered:
  assumes "now < 2 ^ 63"
  shows "rollups_for_window up now since_ms until_ms hourly \<noteq> None"
proof (cases "up_data_dir up")
  case (Some dd)
  define u where "u = min until_ms now"
  define s where "s = max since_ms (case earliest_partition_ms dd of None \<Rightarrow> now | Some ms \<Rightarrow> ms)"
  have "u < 2 ^ 63" using assms by (simp add: u_def min_less_iff_disj)
  have "\<exists>rows. window_walk (walk_steps u) dd u stop_at hourly (s - s mod DAY_MS) = Some rows" for stop_at
    by (rule window_walk_ends [OF word_floor_mod \<open>u < 2 ^ 63\<close>]) (simp add: walk_steps_def unat_day)
  then have "window_walk (walk_steps u) dd u stop_at hourly (s - s mod DAY_MS) \<noteq> None" for stop_at
    by (metis option.distinct(1))
  then show ?thesis
    by (simp add: rollups_for_window_def Some Let_def u_def [symmetric] s_def [symmetric])
qed (simp add: rollups_for_window_def)

theorem every_window_is_answered_witness:
  "rollups_for_window
     \<lparr>up_data_dir = Some dd_empty, up_agg = agg_new 0, up_recent = [], up_fleet = [], up_recent_rollups = rc_default\<rparr>
     1760000000000 0 (- 1) False \<noteq> None"
  by (rule every_window_is_answered) simp

section \<open>An hourly window, exactly\<close>

lemma hour_word: "unat (hour_of r) = 3600000 * (unat (ur_ts r) div 3600000)"
  using unat_word_floor [of "ur_ts r" HOUR_MS] by (simp add: hour_of_def HOUR_MS_def)

definition day_of :: "usage_record \<Rightarrow> nat" where
  "day_of r = unat (ur_ts r) div 86400000"

lemma day_of_hour: "unat (hour_of r) div 86400000 = day_of r"
proof -
  have "3600000 * (n div 3600000) div 86400000 = n div 86400000" for n :: nat
  proof -
    have "3600000 * (n div 3600000) div 86400000 = 3600000 * (n div 3600000) div 3600000 div 24"
      by (simp only: div_mult2_eq [symmetric]) simp
    also have "\<dots> = n div 3600000 div 24" by simp
    also have "\<dots> = n div 86400000" by (simp only: div_mult2_eq [symmetric]) simp
    finally show ?thesis .
  qed
  then show ?thesis by (simp add: hour_word day_of_def)
qed

text \<open>The day with number \<open>k\<close>.\<close>

definition midnight :: "nat \<Rightarrow> u64" where
  "midnight k = of_nat (k * 86400000)"

definition day_no :: "nat \<Rightarrow> string" where
  "day_no k = day_partition (midnight k)"

lemma unat_midnight: "k * 86400000 < 2 ^ 64 \<Longrightarrow> unat (midnight k) = k * 86400000"
  unfolding midnight_def by (subst unat_of_nat) simp

lemma midnight_Suc: "midnight d + DAY_MS = midnight (Suc d)"
  by (simp add: midnight_def DAY_MS_def)

lemma record_day:
  assumes "k * 86400000 < 2 ^ 64"
  shows "day_partition (ur_ts r) = day_no k \<longleftrightarrow> day_of r = k"
proof -
  have "unat (midnight k div 86400000) = k"
    by (simp only: unat_div_distrib unat_midnight [OF assms]) simp
  then have "ur_ts r div 86400000 = midnight k div 86400000 \<longleftrightarrow> day_of r = k"
    unfolding word_unat_eq_iff by (simp add: day_of_def unat_div_distrib)
  then show ?thesis unfolding day_no_def day_partitions_are_distinct .
qed

lemma day_no_named: "starts_with ''dt='' (day_no k)"
  by (simp add: day_no_def day_partition_def day_name_def starts_with_def split: prod.splits)

lemma hourly_walk:
  assumes "unat until_ms + 86400000 < 2 ^ 64" "c * 86400000 < 2 ^ 64"
    and "min c (unat until_ms div 86400000 + 1) - d < n" "d \<le> unat until_ms div 86400000 + 1"
  shows "window_walk n dd until_ms (Some (midnight c)) True (midnight d) =
    Some (concat (map (\<lambda>k. hourly_rows dd (day_no k)) [d ..< min c (unat until_ms div 86400000 + 1)]))"
  using assms(3,4)
proof (induction n arbitrary: d)
  case (Suc n)
  let ?u = "unat until_ms div 86400000"
  have "d * 86400000 \<le> unat until_ms + 86400000"
    using Suc.prems(2) div_times_less_eq_dividend [of "unat until_ms" 86400000] by linarith
  then have d: "unat (midnight d) = d * 86400000" using assms(1) by (intro unat_midnight) linarith
  have past: "until_ms < midnight d \<longleftrightarrow> ?u < d"
    unfolding word_less_nat_alt d by (rule div_less_iff_less_mult [symmetric]) simp
  have stop: "midnight c \<le> midnight d \<longleftrightarrow> c \<le> d"
    unfolding word_le_nat_alt d unat_midnight [OF assms(2)] by simp
  show ?case
  proof (cases "?u < d \<or> c \<le> d")
    case True
    then show ?thesis by (auto simp: past stop)
  next
    case False
    have "window_walk n dd until_ms (Some (midnight c)) True (midnight (Suc d)) =
        Some (concat (map (\<lambda>k. hourly_rows dd (day_no k)) [Suc d ..< min c (?u + 1)]))"
      by (rule Suc.IH) (use Suc.prems False in auto)
    moreover have "[d ..< min c (?u + 1)] = d # [Suc d ..< min c (?u + 1)]"
      using False by (intro upt_conv_Cons) auto
    ultimately show ?thesis
      using False by (simp add: past stop month_step_def midnight_Suc day_no_def)
  qed
qed simp

lemma mset_by_number:
  "mset (concat (map (\<lambda>k. filter (\<lambda>r. f r = k) rs) [a ..< b])) = mset (filter (\<lambda>r. a \<le> f r \<and> f r < b) rs)"
proof (induction b)
  case (Suc b)
  show ?case
  proof (cases "a \<le> b")
    case True
    have "mset (filter (\<lambda>r. a \<le> f r \<and> f r < Suc b) rs) =
        mset (filter (\<lambda>r. a \<le> f r \<and> f r < b) rs) + mset (filter (\<lambda>r. f r = b) rs)"
      using True by (induction rs) (auto simp: less_Suc_eq)
    with Suc True show ?thesis by simp
  next
    case False
    then show ?thesis by (auto simp: filter_empty_conv intro: filter_False)
  qed
qed simp

lemma row_of_hour [simp]: "rr_hour_ms (row_of r) = hour_of r"
  by (simp add: row_of_def row_count_def row_empty_def)

lemma filter_fold_rows:
  "\<forall>r \<in> set rs. row_ok r \<Longrightarrow>
     filter (\<lambda>r. P (rr_hour_ms r)) (fold_rows rs) = fold_rows (filter (\<lambda>r. P (rr_hour_ms r)) rs)"
  using rows.filter_folded [of rs "\<lambda>k. P (fst k)"] by (simp add: fold_rows_pours row_key_def)

lemma filter_keyed:
  assumes "rows.good m"
  shows "filter (\<lambda>r. P (rr_hour_ms r)) (map snd m) = map snd (filter (\<lambda>e. P (fst (fst e))) m)"
proof -
  have "rr_hour_ms (snd e) = fst (fst e)" if "e \<in> set m" for e
  proof -
    have "map_of m (fst e) = Some (snd e)"
      using that bt_ok_distinct [of m] assms by simp
    from rows.goodD [OF assms this] have "fst (fst e) = fst (row_key (snd e))" by simp
    then show ?thesis by (simp add: row_key_def)
  qed
  then show ?thesis unfolding filter_map by (intro arg_cong [where f = "map snd"] filter_cong) simp_all
qed

lemma memory_part:
  assumes "memory_holds recs floor_ms rc" "\<And>h. P h \<Longrightarrow> u64_saturating_sub since_ms HOUR_MS \<le> h"
  shows "filter (\<lambda>r. P (rr_hour_ms r)) (memory_rows rc (Some floor_ms) since_ms) =
    fold_rows (map row_of (filter (\<lambda>r. P (hour_of r) \<and> floor_ms \<le> hour_of r) recs))"
proof -
  let ?Q = "\<lambda>h. P h \<and> floor_ms \<le> h"
  let ?all = "foldl rows.pour [] (map row_of recs)"
  have g: "rows.good (rc_rows rc)" and same: "filter (\<lambda>e. floor_ms \<le> fst (fst e)) (rc_rows rc) = filter (\<lambda>e. floor_ms \<le> fst (fst e)) ?all"
    using assms(1) by (auto simp: memory_holds_def)
  have all: "rows.good ?all" by (rule good_roll) simp
  have narrow: "filter (\<lambda>e. ?Q (fst (fst e))) m = filter (\<lambda>e. P (fst (fst e))) (filter (\<lambda>e. floor_ms \<le> fst (fst e)) m)" for m :: row_map
    unfolding filter_filter by (rule filter_cong) auto
  have "filter (\<lambda>r. P (rr_hour_ms r)) (memory_rows rc (Some floor_ms) since_ms) =
      filter (\<lambda>r. ?Q (rr_hour_ms r)) (map snd (rc_rows rc))"
    unfolding memory_rows_def option.case filter_filter by (rule filter_cong) (auto dest: assms(2))
  also have "\<dots> = map snd (filter (\<lambda>e. ?Q (fst (fst e))) ?all)"
    unfolding filter_keyed [OF g, of ?Q] narrow same ..
  also have "\<dots> = filter (\<lambda>r. ?Q (rr_hour_ms r)) (fold_rows (map row_of recs))"
    unfolding fold_rows_pours filter_keyed [OF all, of ?Q] ..
  also have "\<dots> = fold_rows (filter (\<lambda>r. ?Q (rr_hour_ms r)) (map row_of recs))"
    by (rule filter_fold_rows) simp
  finally show ?thesis by (simp add: filter_map comp_def)
qed

lemma disk_part:
  assumes "dir_holds node recs gone dd seq" "\<And>k. d \<le> k \<Longrightarrow> k < e \<Longrightarrow> day_no k \<notin> gone \<and> k * 86400000 < 2 ^ 64"
  shows "fold_rows (concat (map (\<lambda>k. hourly_rows dd (day_no k)) [d ..< e])) =
      fold_rows (map row_of (filter (\<lambda>r. d \<le> day_of r \<and> day_of r < e) recs)) \<and>
    (\<forall>r \<in> set (concat (map (\<lambda>k. hourly_rows dd (day_no k)) [d ..< e])). row_ok r)"
proof
  let ?read = "map (\<lambda>k. hourly_rows dd (day_no k)) [d ..< e]"
  let ?held = "map (\<lambda>k. rows_on (day_no k) recs) [d ..< e]"
  have day: "fold_rows (hourly_rows dd (day_no k)) = fold_rows (rows_on (day_no k) recs)"
    "\<forall>r \<in> set (hourly_rows dd (day_no k)). row_ok r" if "d \<le> k" "k < e" for k
    using hourly_rows_fold [OF assms(1) _ day_no_named] assms(2) that by blast+
  then have ok: "\<forall>rs \<in> set ?read. \<forall>r \<in> set rs. row_ok r" by auto
  then show "\<forall>r \<in> set (concat ?read). row_ok r" by auto
  have "fold_rows (concat ?read) = fold_rows (concat (map fold_rows ?read))"
    unfolding fold_rows_pours [of "concat _"] fold_rows_concat [OF ok] ..
  also have "map fold_rows ?read = map fold_rows ?held" using day(1) by simp
  also have "fold_rows (concat (map fold_rows ?held)) = fold_rows (concat ?held)"
    unfolding fold_rows_pours [of "concat _"] by (subst fold_rows_concat) (auto simp: rows_on_def)
  also have "concat ?held = map row_of (concat (map (\<lambda>k. filter (\<lambda>r. day_of r = k) recs) [d ..< e]))"
    unfolding map_concat map_map comp_def rows_on_def on_day_def
    by (intro arg_cong [where f = concat] map_cong refl arg_cong [where f = "map row_of"] filter_cong)
      (use record_day assms(2) in auto)
  also have "fold_rows \<dots> = fold_rows (map row_of (filter (\<lambda>r. d \<le> day_of r \<and> day_of r < e) recs))"
    by (rule fold_rows_any_order) (simp_all only: mset_map mset_by_number set_map, auto)
  finally show "fold_rows (concat ?read) = fold_rows (map row_of (filter (\<lambda>r. d \<le> day_of r \<and> day_of r < e) recs))" .
qed

lemma good_rows_ok: "rows.good m \<Longrightarrow> \<forall>r \<in> set (map snd m). row_ok r"
  using rows.goodD [of m] bt_ok_distinct [of m] by auto

lemma word_midnight: "a - a mod DAY_MS = midnight (unat a div 86400000)"
proof (rule word_unat_eq_iff [THEN iffD2])
  have "unat a div 86400000 * 86400000 < 2 ^ 64"
    using div_times_less_eq_dividend [of "unat a" 86400000] unat_lt_2_64 [of a] by linarith
  then show "unat (a - a mod DAY_MS) = unat (midnight (unat a div 86400000))"
    by (simp add: unat_word_floor unat_midnight)
qed

lemma mset_either:
  "\<forall>x \<in> set xs. (w x \<longleftrightarrow> p x \<or> q x) \<and> \<not> (p x \<and> q x) \<Longrightarrow>
     mset (filter p xs @ filter q xs) = mset (filter w xs)"
  by (induction xs) auto

text \<open>The window as it is served, the hours it shows, and those of a day that are asked of neither tier.\<close>

definition served_from :: "data_dir \<Rightarrow> u64 \<Rightarrow> u64 \<Rightarrow> u64" where
  "served_from dd now since_ms = max since_ms (case earliest_partition_ms dd of None \<Rightarrow> now | Some ms \<Rightarrow> ms)"

definition shown_hour :: "u64 \<Rightarrow> u64 \<Rightarrow> u64 \<Rightarrow> bool" where
  "shown_hour since_ms until_ms h \<longleftrightarrow> h \<le> until_ms \<and> since_ms < u64_saturating_add h HOUR_MS"

definition never_read :: "u64 \<Rightarrow> u64 \<Rightarrow> bool" where
  "never_read floor_ms h \<longleftrightarrow> floor_ms - floor_ms mod DAY_MS \<le> h \<and> h < floor_ms"

lemma shown_hour_bounds:
  assumes "shown_hour s u h"
  shows "u64_saturating_sub s HOUR_MS \<le> h" "unat s < unat h + 3600000" "unat h \<le> unat u"
proof -
  have "unat s < min (unat h + unat HOUR_MS) (2 ^ 64 - 1)" "unat h \<le> unat u"
    using assms by (simp_all only: shown_hour_def word_less_nat_alt word_le_nat_alt unat_saturating_add)
  moreover have "unat HOUR_MS = 3600000" by (simp add: HOUR_MS_def)
  ultimately show close: "unat s < unat h + 3600000" and "unat h \<le> unat u" by simp_all
  from close show "u64_saturating_sub s HOUR_MS \<le> h"
    using \<open>unat HOUR_MS = 3600000\<close> unfolding word_le_nat_alt unat_saturating_sub by linarith
qed

lemma shown_day:
  assumes "shown_hour s u (hour_of r)"
  shows "unat s div 86400000 \<le> day_of r"
proof -
  define q where "q = unat (ur_ts r) div 3600000"
  have h: "unat (hour_of r) = 3600000 * q" by (simp add: hour_word q_def)
  have "unat s < 3600000 * Suc q" using shown_hour_bounds(2) [OF assms] h by simp
  then have "unat s div 3600000 \<le> q" by (simp add: div_less_iff_less_mult mult.commute flip: less_Suc_eq_le)
  then have "unat s div 3600000 div 24 \<le> q div 24" by (rule div_le_mono)
  moreover have "unat s div 3600000 div 24 = unat s div 86400000" by (simp flip: div_mult2_eq)
  moreover have "q div 24 = day_of r"
  proof -
    have "q div 24 = 3600000 * q div 3600000 div 24" by simp
    also have "\<dots> = 3600000 * q div 86400000" by (simp only: div_mult2_eq [symmetric]) simp
    finally show ?thesis using day_of_hour [of r] by (simp add: h)
  qed
  ultimately show ?thesis by simp
qed

lemma which_tier:
  assumes "c = unat floor_ms div 86400000"
  shows "(shown_hour s u (hour_of r) \<and> \<not> never_read floor_ms (hour_of r) \<longleftrightarrow>
      shown_hour s u (hour_of r) \<and> floor_ms \<le> hour_of r \<or>
      shown_hour s u (hour_of r) \<and> unat s div 86400000 \<le> day_of r \<and> day_of r < min c (unat u div 86400000 + 1)) \<and>
    \<not> (floor_ms \<le> hour_of r \<and> day_of r < c)"
proof -
  have c: "c * 86400000 \<le> unat floor_ms" using assms by simp
  then have "c * 86400000 < 2 ^ 64" using unat_lt_2_64 [of floor_ms] by linarith
  then have "floor_ms - floor_ms mod DAY_MS \<le> hour_of r \<longleftrightarrow> c * 86400000 \<le> unat (hour_of r)"
    by (simp add: word_midnight word_le_nat_alt unat_midnight flip: assms)
  also have "\<dots> \<longleftrightarrow> c \<le> day_of r" unfolding day_of_hour [symmetric] by (rule less_eq_div_iff_mult_less_eq [symmetric]) simp
  finally have low: "floor_ms - floor_ms mod DAY_MS \<le> hour_of r \<longleftrightarrow> c \<le> day_of r" .
  have "day_of r < c \<Longrightarrow> unat (hour_of r) < c * 86400000"
    unfolding day_of_hour [symmetric] by (simp add: div_less_iff_less_mult)
  with c have apart: "\<not> (floor_ms \<le> hour_of r \<and> day_of r < c)" by (auto simp: word_le_nat_alt)
  have "day_of r < unat u div 86400000 + 1" if "shown_hour s u (hour_of r)"
    using shown_hour_bounds(3) [OF that] day_of_hour [of r] by (metis div_le_mono less_Suc_eq_le Suc_eq_plus1)
  with shown_day low apart show ?thesis by (auto simp: never_read_def)
qed

lemma hourly_rows_of_window:
  assumes "dir_holds node recs gone dd seq" "memory_holds recs floor_ms rc"
    and "unat u + 86400000 < 2 ^ 64" "\<And>k. unat s div 86400000 \<le> k \<Longrightarrow> k * 86400000 < 2 ^ 64 \<Longrightarrow> day_no k \<notin> gone"
    and "s \<le> u"
  shows "\<exists>disk. window_walk (walk_steps u) dd u (Some (floor_ms - floor_ms mod DAY_MS)) True (s - s mod DAY_MS) = Some disk \<and>
    filter (\<lambda>row. shown_hour s u (rr_hour_ms row)) (fold_rows (memory_rows rc (Some floor_ms) s @ disk)) =
    roll_up (filter (\<lambda>r. shown_hour s u (hour_of r) \<and> \<not> never_read floor_ms (hour_of r)) recs)"
proof -
  define c where "c = unat floor_ms div 86400000"
  define d where "d = unat s div 86400000"
  define e where "e = min c (unat u div 86400000 + 1)"
  define disk where "disk = concat (map (\<lambda>k. hourly_rows dd (day_no k)) [d ..< e])"
  let ?P = "shown_hour s u" and ?mem = "memory_rows rc (Some floor_ms) s"
  have floors: "n div 86400000 * 86400000 \<le> n" for n :: nat by (rule div_times_less_eq_dividend)
  have c: "c * 86400000 < 2 ^ 64" using floors [of "unat floor_ms"] unat_lt_2_64 [of floor_ms] unfolding c_def by linarith
  have "unat s \<le> unat u" using assms(5) by (simp add: word_le_nat_alt)
  then have d: "d \<le> unat u div 86400000 + 1" unfolding d_def using div_le_mono [of "unat s" "unat u" 86400000] by linarith
  have walk: "window_walk (walk_steps u) dd u (Some (floor_ms - floor_ms mod DAY_MS)) True (s - s mod DAY_MS) = Some disk"
    unfolding word_midnight c_def [symmetric] d_def [symmetric] disk_def e_def
    by (rule hourly_walk [OF assms(3) c _ d]) (simp add: walk_steps_def unat_day)
  have small: "k * 86400000 < 2 ^ 64" if "k < e" for k
  proof -
    have "k * 86400000 \<le> c * 86400000" using that by (simp add: e_def)
    with c show ?thesis by linarith
  qed
  have disk: "fold_rows disk = fold_rows (map row_of (filter (\<lambda>r. d \<le> day_of r \<and> day_of r < e) recs))" "\<forall>r \<in> set disk. row_ok r"
    using disk_part [OF assms(1), of d e] small assms(4) unfolding disk_def d_def by blast+
  have ok: "\<forall>r \<in> set ?mem. row_ok r" using good_rows_ok [of "rc_rows rc"] assms(2) by (auto simp: memory_rows_def memory_holds_def)
  let ?X = "filter (\<lambda>r. ?P (hour_of r) \<and> floor_ms \<le> hour_of r) recs"
  let ?Y = "filter (\<lambda>r. ?P (hour_of r) \<and> d \<le> day_of r \<and> day_of r < e) recs"
  have mem: "filter (\<lambda>r. ?P (rr_hour_ms r)) ?mem = fold_rows (map row_of ?X)"
    by (rule memory_part [OF assms(2)]) (rule shown_hour_bounds(1))
  have "fold_rows (filter (\<lambda>r. ?P (rr_hour_ms r)) disk) = filter (\<lambda>r. ?P (rr_hour_ms r)) (fold_rows disk)"
    by (rule filter_fold_rows [OF disk(2), symmetric])
  also have "\<dots> = fold_rows (filter (\<lambda>r. ?P (rr_hour_ms r)) (map row_of (filter (\<lambda>r. d \<le> day_of r \<and> day_of r < e) recs)))"
    unfolding disk(1) by (rule filter_fold_rows) simp
  finally have read: "fold_rows (filter (\<lambda>r. ?P (rr_hour_ms r)) disk) = fold_rows (map row_of ?Y)"
    by (simp add: filter_map comp_def conj_commute)
  have "filter (\<lambda>row. ?P (rr_hour_ms row)) (fold_rows (?mem @ disk)) =
      fold_rows (filter (\<lambda>r. ?P (rr_hour_ms r)) ?mem @ filter (\<lambda>r. ?P (rr_hour_ms r)) disk)"
    using filter_fold_rows [of "?mem @ disk" ?P] ok disk(2) by (simp add: ball_Un)
  also have "\<dots> = fold_rows (map row_of ?X @ map row_of ?Y)"
  proof (rule fold_rows_cong [OF _ _ read])
    show "fold_rows (filter (\<lambda>r. ?P (rr_hour_ms r)) ?mem) = fold_rows (map row_of ?X)"
      unfolding mem by (rule fold_rows_fold) simp
    show "\<forall>r \<in> set (filter (\<lambda>r. ?P (rr_hour_ms r)) ?mem @ map row_of ?X @ filter (\<lambda>r. ?P (rr_hour_ms r)) disk @ map row_of ?Y). row_ok r"
      using ok disk(2) by auto
  qed
  also have "\<dots> = roll_up (filter (\<lambda>r. ?P (hour_of r) \<and> \<not> never_read floor_ms (hour_of r)) recs)"
  proof -
    have "mset (?X @ ?Y) = mset (filter (\<lambda>r. ?P (hour_of r) \<and> \<not> never_read floor_ms (hour_of r)) recs)"
      by (rule mset_either) (use which_tier [OF c_def, of s u] in \<open>auto simp: d_def e_def\<close>)
    then have "mset (map row_of ?X @ map row_of ?Y) = mset (map row_of (filter (\<lambda>r. ?P (hour_of r) \<and> \<not> never_read floor_ms (hour_of r)) recs))"
      unfolding map_append [symmetric] mset_map by simp
    then show ?thesis
      unfolding roll_up_pours fold_rows_pours [symmetric] by (intro fold_rows_any_order) auto
  qed
  finally show ?thesis using walk by blast
qed

text \<open>The pipeline whose flusher lived through some events, and what is read of it.\<close>

definition after :: "string \<Rightarrow> u32 \<Rightarrow> u64 \<Rightarrow> flush_event list \<Rightarrow> flusher" where
  "after node retention t0 es = foldl (flush_step node retention) (flusher_start t0) es"

definition pipeline_of :: "flusher \<Rightarrow> aggregator \<Rightarrow> usage_record list \<Rightarrow> usage_pipeline" where
  "pipeline_of fl ag ring =
     \<lparr>up_data_dir = Some (fl_dir fl), up_agg = ag, up_recent = ring, up_fleet = [], up_recent_rollups = fl_recent fl\<rparr>"

lemma window_of_pipeline:
  assumes "\<forall>m. Maintained m \<in> set es \<longrightarrow> m \<le> now" "now < 2 ^ 63"
    and "fl = after node retention t0 es" "s = served_from (fl_dir fl) now since_ms" "u = min until_ms now"
    and "\<forall>t. s - s mod DAY_MS \<le> t \<longrightarrow> day_partition t \<notin> gone_days retention es"
  shows "rollups_for_window (pipeline_of fl ag ring) now since_ms until_ms True =
    (if u < s then Some []
     else Some (roll_up (filter (\<lambda>r. shown_hour s u (hour_of r) \<and> \<not> never_read (memory_start now) (hour_of r)) (flushed_records es))))"
proof (cases "u < s")
  case True
  then show ?thesis
    by (simp add: rollups_for_window_def pipeline_of_def served_from_def assms(4,5) Let_def)
next
  case False
  note holds = flusher_holds [OF assms(1), of node retention t0, folded after_def, folded assms(3)]
  have "unat u \<le> unat now" by (simp add: assms(5) word_le_nat_alt [symmetric])
  then have u: "unat u + 86400000 < 2 ^ 64" using assms(2) by (simp add: word_less_nat_alt)
  have days: "day_no k \<notin> gone_days retention es" if "unat s div 86400000 \<le> k" "k * 86400000 < 2 ^ 64" for k
  proof -
    have "s - s mod DAY_MS \<le> midnight k"
      using that unat_midnight [OF that(2)] by (simp add: word_le_nat_alt unat_word_floor)
    then show ?thesis using assms(6) by (simp add: day_no_def)
  qed
  have "s \<le> u" using False by simp
  from hourly_rows_of_window [OF conjunct1 [OF holds] conjunct1 [OF conjunct2 [OF holds]] u days this]
  obtain disk where
    "window_walk (walk_steps u) (fl_dir fl) u (Some (memory_start now - memory_start now mod DAY_MS)) True (s - s mod DAY_MS) = Some disk"
    "filter (\<lambda>row. shown_hour s u (rr_hour_ms row)) (fold_rows (memory_rows (fl_recent fl) (Some (memory_start now)) s @ disk)) =
      roll_up (filter (\<lambda>r. shown_hour s u (hour_of r) \<and> \<not> never_read (memory_start now) (hour_of r)) (flushed_records es))"
    by blast
  moreover have "rc_floor_ms (fl_recent fl) now = Some (memory_start now)"
    using holds by (simp add: rc_floor_ms_def memory_start_def)
  ultimately show ?thesis
    using False assms(4) assms(5) [symmetric]
    by (simp add: rollups_for_window_def pipeline_of_def served_from_def [symmetric] Let_def shown_hour_def)
qed

text \<open>
  An hourly window is exact outside one stretch of a day. Whatever was flushed and maintained
  before, it shows the rollup of every record whose hour meets the window (from the first day on disk to
  now), except the hours between the midnight and the time of day two days ago, which are asked neither
  of memory nor of the disk.
\<close>

theorem hourly_windows_are_exact_but_for_two_days_ago:
  assumes "\<forall>m. Maintained m \<in> set es \<longrightarrow> m \<le> now" "now < 2 ^ 63"
    and "served_from (fl_dir (after node retention t0 es)) now since_ms = s" "s \<le> min until_ms now"
    and "\<forall>t. s - s mod DAY_MS \<le> t \<longrightarrow> day_partition t \<notin> gone_days retention es"
  shows "rollups_for_window (pipeline_of (after node retention t0 es) ag ring) now since_ms until_ms True =
    Some (roll_up (filter (\<lambda>r. shown_hour s (min until_ms now) (hour_of r)
      \<and> \<not> never_read (memory_start now) (hour_of r)) (flushed_records es)))"
  using window_of_pipeline [OF assms(1,2) refl assms(3) [symmetric] refl assms(5), of ag ring until_ms] assms(4)
  by (simp add: linorder_not_less [symmetric] del: min_less_iff_conj min.bounded_iff)

lemma day_search_le: "low \<le> high \<Longrightarrow> high \<le> 65536 \<Longrightarrow> day_search n day low high \<le> 65536"
proof (induction n day low high rule: day_search.induct)
  case (2 n day low high)
  show ?case
  proof (cases "low < high")
    case True
    have l: "unat low < unat high" "unat high \<le> 65536" using True 2(4) by (simp_all add: word_less_nat_alt word_le_nat_alt)
    then have mid: "unat ((low + high) div 2) = (unat low + unat high) div 2"
      by (simp add: unat_div_distrib unat_word_ariths)
    with l have "(low + high) div 2 < high" by (simp add: word_less_nat_alt)
    moreover from this have "(low + high) div 2 + 1 \<le> high" by (rule inc_le)
    moreover have "low \<le> (low + high) div 2" using l mid by (simp add: word_le_nat_alt)
    moreover have "(low + high) div 2 \<le> 65536"
      using \<open>(low + high) div 2 < high\<close> 2(4) by (meson order.strict_implies_order order.trans)
    ultimately show ?thesis using 2(1,2) [OF True refl] 2(4) True by (simp add: Let_def)
  qed (use 2(3,4) in auto)
qed auto

lemma served_from_past:
  assumes "since_ms \<le> now" "5662310400000 \<le> now"
  shows "served_from dd now since_ms \<le> now"
proof -
  have "ms \<le> now" if "day_start_ms day = Some ms" for day ms
  proof -
    define low where "low = day_search 17 day 0 65536"
    have "low \<le> 65536" unfolding low_def by (rule day_search_le) simp_all
    then have "unat low \<le> 65536" by (simp add: word_le_nat_alt)
    then have "low * DAY_MS \<le> 5662310400000" by (simp add: word_le_nat_alt unat_word_ariths DAY_MS_def)
    moreover have "ms = low * DAY_MS"
      using that by (simp add: day_start_ms_def Let_def low_def [symmetric] split: if_splits)
    ultimately show ?thesis using assms(2) by simp
  qed
  then show ?thesis
    using assms(1) by (auto simp: served_from_def earliest_partition_ms_def split: option.splits list.splits)
qed

theorem hourly_windows_are_exact_but_for_two_days_ago_witness:
  "rollups_for_window (pipeline_of (after ''n1'' 30 0 [Flushed [sample_record 5999000000000 ''a'' ''o3'' 200 7]]) (agg_new 0) [])
     6000000000000 0 (- 1) True =
   Some (roll_up (filter (\<lambda>r.
     shown_hour (served_from (fl_dir (after ''n1'' 30 0 [Flushed [sample_record 5999000000000 ''a'' ''o3'' 200 7]])) 6000000000000 0)
       6000000000000 (hour_of r)
     \<and> \<not> never_read (memory_start 6000000000000) (hour_of r)) [sample_record 5999000000000 ''a'' ''o3'' 200 7]))"
  using hourly_windows_are_exact_but_for_two_days_ago
    [of "[Flushed [sample_record 5999000000000 ''a'' ''o3'' 200 7]]" 6000000000000 "''n1''" 30 0 0 _ "- 1" "agg_new 0" "[]", OF _ _ refl]
    served_from_past [of 0 6000000000000]
  by (simp add: gone_days_def)

text \<open>
  A request served at seven in the morning is in no hourly window two days later at noon, in none of its
  tiers: the window from the epoch to now is empty.
\<close>

theorem a_request_of_two_days_ago_is_lost:
  "rollups_for_window (pipeline_of (after ''n1'' 30 0 [Flushed [sample_record 25200000 ''a'' ''o3'' 200 7]]) ag ring)
     216000000 0 (- 1) True = Some []"
proof -
  let ?r = "sample_record 25200000 ''a'' ''o3'' 200 7"
  let ?es = "[Flushed [?r]]"
  let ?s = "served_from (fl_dir (after ''n1'' 30 0 ?es)) 216000000 0"
  have "hour_of ?r = 25200000" by (simp add: hour_of_def HOUR_MS_def sample_record_def)
  moreover have "memory_start 216000000 = 43200000"
    by (simp add: memory_start_def RECENT_ROLLUP_SPAN_MS_def u64_saturating_sub_def)
  ultimately have "never_read (memory_start 216000000) (hour_of ?r)"
    by (simp add: never_read_def DAY_MS_def)
  then have "filter (\<lambda>r. shown_hour ?s (min (- 1) 216000000) (hour_of r)
      \<and> \<not> never_read (memory_start 216000000) (hour_of r)) (flushed_records ?es) = []" by simp
  then show ?thesis
    using window_of_pipeline [of ?es 216000000 "after ''n1'' 30 0 ?es" "''n1''" 30 0 ?s 0 "min (- 1) 216000000" "- 1" ag ring]
    by (simp add: gone_days_def roll_up_def split: if_splits)
qed

end
