(* ===== verification/Summary_Laws.thy ===== *)
theory Summary_Laws
  imports Usage_Summary
begin

text \<open>
  The figures of the console add up. A map that is only ever altered one entry at a time carries its
  sums along (\<open>mass\<close>), at each level of the groupings of a history and in the slices and series of a
  summary. What the cursor of the pages leaves out.
\<close>

section \<open>Sums over a map\<close>

definition mass :: "('k \<Rightarrow> 'v \<Rightarrow> u64) \<Rightarrow> ('k \<times> 'v) list \<Rightarrow> u64" where
  "mass w m = sum_list (map (\<lambda>e. w (fst e) (snd e)) m)"

lemma mass_simps [simp]: "mass w [] = 0" "mass w (e # m) = w (fst e) (snd e) + mass w m"
  by (simp_all add: mass_def)

lemma mass_alter:
  assumes "\<And>slot. w k (f slot) = (case slot of None \<Rightarrow> 0 | Some v \<Rightarrow> w k v) + c"
  shows "mass w (bt_alter k f m) = mass w m + c"
proof (induction m)
  case (Cons e m)
  then show ?case using assms [of "Some (snd e)"] by (cases e; cases "k = fst e") (simp_all add: assms [of None])
qed (simp add: assms)

lemma mass_alter_entry:
  assumes "\<And>v. w k (g v) = w k v + c" "w k d = 0"
  shows "mass w (bt_alter k (\<lambda>slot. g (entry_or d slot)) m) = mass w m + c"
  by (rule mass_alter) (simp add: assms entry_or_def split: option.splits)

definition all_entries :: "('k \<Rightarrow> 'v \<Rightarrow> bool) \<Rightarrow> ('k \<times> 'v) list \<Rightarrow> bool" where
  "all_entries Q m = list_all (\<lambda>e. Q (fst e) (snd e)) m"

lemma all_entries_simps [simp]:
  "all_entries Q []" "all_entries Q (e # m) \<longleftrightarrow> Q (fst e) (snd e) \<and> all_entries Q m"
  by (simp_all add: all_entries_def)

lemma all_entries_alter:
  assumes "all_entries Q m" "Q k d" "\<And>v. Q k v \<Longrightarrow> Q k (g v)"
  shows "all_entries Q (bt_alter k (\<lambda>slot. g (entry_or d slot)) m)"
  using assms(1)
proof (induction m)
  case (Cons e m)
  then show ?case by (cases e) (auto simp: entry_or_def assms(3) [OF assms(2)] assms(3))
qed (simp add: entry_or_def assms(3) [OF assms(2)])

section \<open>A history\<close>

text \<open>What the buckets of a day add up to, over all the series of one grouping.\<close>

definition history_total :: "(day_bucket \<Rightarrow> u64) \<Rightarrow> string \<Rightarrow> string \<Rightarrow> history \<Rightarrow> u64" where
  "history_total w by day h =
     sum_list (map (\<lambda>g. if fst g = by
       then sum_list (map (\<lambda>s. sum_list (map w (filter (\<lambda>b. db_day b = day) (snd s)))) (snd g)) else 0) (hi_data h))"

definition row_day :: "rollup_row \<Rightarrow> string" where
  "row_day row = drop 3 (day_partition (rr_hour_ms row))"

definition on_its_day :: "groupings \<Rightarrow> bool" where
  "on_its_day = all_entries (\<lambda>_. all_entries (\<lambda>_. all_entries (\<lambda>d b. db_day b = d)))"

definition grouped :: "(day_bucket \<Rightarrow> u64) \<Rightarrow> string \<Rightarrow> string \<Rightarrow> groupings \<Rightarrow> u64" where
  "grouped w by day =
     mass (\<lambda>g. if g = by then mass (\<lambda>_. mass (\<lambda>d b. if d = day then w b else 0)) else (\<lambda>_. 0))"

lemma history_bucket_day: "on_its_day out \<Longrightarrow> on_its_day (history_bucket row out g)"
  unfolding on_its_day_def history_bucket_def Let_def
  by (intro all_entries_alter) (simp_all add: db_empty_def db_add_def)

lemma history_bucket_grouped:
  assumes "\<And>b. w (db_add b row) = w b + v row" "\<And>d. w (db_empty d) = 0"
  shows "grouped w by day (history_bucket row out g) =
    grouped w by day out + (if fst g = by \<and> row_day row = day then v row else 0)"
proof -
  let ?day = "row_day row"
  let ?w = "\<lambda>d b. if d = day then w b else 0"
  have days: "mass ?w (bt_alter ?day (\<lambda>bucket. db_add (entry_or (db_empty ?day) bucket) row) days) =
      mass ?w days + (if ?day = day then v row else 0)" for days
    by (rule mass_alter_entry) (simp_all add: assms)
  have series: "mass (\<lambda>_. mass ?w) (bt_alter (snd g)
        (\<lambda>days. bt_alter ?day (\<lambda>bucket. db_add (entry_or (db_empty ?day) bucket) row) (entry_or [] days)) groups) =
      mass (\<lambda>_. mass ?w) groups + (if ?day = day then v row else 0)" for groups
    by (rule mass_alter_entry) (simp_all add: days)
  show ?thesis
    unfolding grouped_def history_bucket_def Let_def row_day_def [symmetric]
    by (rule mass_alter_entry) (simp_all add: series)
qed

lemma history_row_grouped:
  assumes "\<And>b row. w (db_add b row) = w b + v row" "\<And>d. w (db_empty d) = 0"
    and "by \<in> {'''', ''provider'', ''model'', ''key''}"
  shows "grouped w by day (foldl (history_row f) out rows) =
    grouped w by day out + sum_list (map v (filter (\<lambda>r. row_day r = day) (rows_matching f rows)))"
proof (induction rows arbitrary: out)
  case (Cons row rows)
  have one: "grouped w by day (history_bucket row out g) =
      grouped w by day out + (if fst g = by \<and> row_day row = day then v row else 0)" for out g
    by (rule history_bucket_grouped) (rule assms)+
  have "grouped w by day (history_row f out row) = grouped w by day out +
      (if matches_dims f (rr_row_provider row) (rr_model row) (rr_vkey row) \<and> row_day row = day then v row else 0)"
    using assms(3) by (auto simp: history_row_def row_groups_def one)
  with Cons show ?case by (simp add: rows_matching_def)
qed (simp add: rows_matching_def)

lemma history_rows_day: "on_its_day out \<Longrightarrow> on_its_day (foldl (history_row f) out rows)"
proof (induction rows arbitrary: out)
  case (Cons row rows)
  then show ?case by (simp add: history_row_def row_groups_def history_bucket_day)
qed simp

lemma history_total_grouped:
  assumes "on_its_day out"
  shows "history_total w by day \<lparr>hi_data = map (\<lambda>(by, groups). (by, map (\<lambda>(series, days). (series, map snd days)) groups)) out,
      hi_p50_latency_ms = p, hi_p95_latency_ms = q\<rparr> = grouped w by day out"
proof -
  have days: "sum_list (map w (filter (\<lambda>b. db_day b = day) (map snd days))) = mass (\<lambda>d b. if d = day then w b else 0) days"
    if "all_entries (\<lambda>d b. db_day b = d) days" for days
    using that by (induction days) auto
  have series: "sum_list (map (\<lambda>s. sum_list (map w (filter (\<lambda>b. db_day b = day) (snd s))))
        (map (\<lambda>(series, days). (series, map snd days)) groups)) =
      mass (\<lambda>_. mass (\<lambda>d b. if d = day then w b else 0)) groups"
    if "all_entries (\<lambda>_. all_entries (\<lambda>d b. db_day b = d)) groups" for groups
    using that by (induction groups) (auto simp: days)
  show ?thesis
    using assms unfolding on_its_day_def grouped_def history_total_def
    by (induction out) (auto simp: series simp del: map_map)
qed

text \<open>
  Property C39. The groupings of a history agree: on each day the series by provider, by model and by key
  add up to the total, in requests, failures, tokens, cost and latency, which is that of the rows the
  filter selects.
\<close>

theorem groupings_of_a_history_agree:
  assumes "by \<in> {'''', ''provider'', ''model'', ''key''}"
    and "(w, v) \<in> {(db_requests, rr_requests), (db_failed, rr_failed), (db_input_tokens, rr_input_tokens),
      (db_output_tokens, rr_output_tokens), (db_cost_micro_usd, rr_cost_micro_usd), (db_latency_ms_sum, rr_latency_ms_sum)}"
  shows "history_total w by day (history_of_rows f rows) =
    sum_list (map v (filter (\<lambda>r. row_day r = day) (rows_matching f rows)))"
proof -
  have day: "on_its_day (foldl (history_row f) [] rows)" by (rule history_rows_day) (simp add: on_its_day_def)
  have "w (db_add b row) = w b + v row" "w (db_empty d) = 0" for b row d
    using assms(2) by (auto simp: db_add_def db_empty_def)
  from history_row_grouped [of w v, OF this assms(1), of day f "[]" rows]
  show ?thesis
    unfolding history_of_rows_def Let_def history_total_grouped [OF day] by (simp add: grouped_def)
qed

theorem groupings_of_a_history_agree_witness:
  "history_total db_cost_micro_usd ''key'' (drop 3 (day_partition 0))
     (history_of_rows no_filter (roll_up [sample_record 60000 ''a'' ''o3'' 200 7, sample_record 7300000 ''c'' ''o3'' 500 1])) =
   history_total db_cost_micro_usd '''' (drop 3 (day_partition 0))
     (history_of_rows no_filter (roll_up [sample_record 60000 ''a'' ''o3'' 200 7, sample_record 7300000 ''c'' ''o3'' 500 1]))"
  using groupings_of_a_history_agree [of "''key''" db_cost_micro_usd rr_cost_micro_usd]
    groupings_of_a_history_agree [of "''''" db_cost_micro_usd rr_cost_micro_usd] by simp

section \<open>A summary\<close>

definition sliced :: "(usage_slice \<Rightarrow> u64) \<Rightarrow> slices \<Rightarrow> u64" where
  "sliced w = mass (\<lambda>_ e. w (fst e))"

lemma sum_sort_key: "sum_list (map w (sort_key f xs)) = sum_list (map w xs)" for w :: "'a \<Rightarrow> u64"
  by (metis mset_map mset_sort sum_mset_sum_list)

lemma sum_ranked:
  assumes "\<And>sl x. w (sl\<lparr>sl_p95_latency_ms := x\<rparr>) = w sl"
  shows "sum_list (map w (ranked m)) = sliced w m"
  unfolding ranked_def by_requests_def sum_sort_key sliced_def
  by (induction m) (auto simp: assms)

lemma sliced_slot:
  assumes "\<And>e. w (fst (g e)) = w (fst e) + c" "\<And>name. w (sl_empty name) = 0"
  shows "sliced w (slot_in g m name) = sliced w m + c"
  unfolding sliced_def slot_in_def by (rule mass_alter_entry) (simp_all add: assms)

text \<open>A figure of the totals, with its counterparts in a slice, in a point of the series and in a row.\<close>

definition figures :: "((usage_summary \<Rightarrow> u64) \<times> (usage_slice \<Rightarrow> u64) \<times> (usage_bucket \<Rightarrow> u64) \<times> (rollup_row \<Rightarrow> u64)) set" where
  "figures = {(us_requests, sl_requests, ub_requests, rr_requests), (us_errors, sl_failed, ub_failed, rr_failed),
     (us_input_tokens, sl_input_tokens, ub_input_tokens, rr_input_tokens),
     (us_output_tokens, sl_output_tokens, ub_output_tokens, rr_output_tokens),
     (us_cost_micro_usd, sl_cost_micro_usd, ub_cost_micro_usd, rr_cost_micro_usd)}"

lemma figure_laws:
  assumes "(w, wl, wb, v) \<in> figures"
  shows "w (add_row_totals out row) = w out + v row" "wl (fst (slice_add row e)) = wl (fst e) + v row"
    "wb (add_row_point p row) = wb p + v row" "wl (sl_empty name) = 0" "wb (ub_empty ts) = 0" "w (us_start c b) = 0"
    "wl (sl\<lparr>sl_p95_latency_ms := x\<rparr>) = wl sl" "w (finish_tally t p50 p95 points) = w (ta_out t)"
  using assms by (auto simp: figures_def add_row_totals_def slice_add_def add_row_point_def sl_empty_def ub_empty_def
      us_start_def finish_tally_def)

text \<open>All the figures of a tally stand at \<open>x\<close>.\<close>

definition stands_at ::
    "(usage_summary \<Rightarrow> u64) \<Rightarrow> (usage_slice \<Rightarrow> u64) \<Rightarrow> (usage_bucket \<Rightarrow> u64) \<Rightarrow> bool \<Rightarrow> tally \<Rightarrow> u64 \<Rightarrow> bool" where
  "stands_at w wl wb drawn t x \<longleftrightarrow>
     w (ta_out t) = x \<and> sliced wl (ta_by_model t) = x \<and> sliced wl (ta_by_provider t) = x \<and> sliced wl (ta_by_key t) = x
     \<and> (drawn \<or> mass (\<lambda>_. wb) (ta_series t) = x)"

lemma tally_row_stands:
  assumes "(w, wl, wb, v) \<in> figures" "stands_at w wl wb drawn t x"
  shows "stands_at w wl wb drawn (tally_row f drawn t row)
    (x + (if matches_dims f (rr_row_provider row) (rr_model row) (rr_vkey row) then v row else 0))"
proof -
  note laws = figure_laws [OF assms(1)]
  have slices: "sliced wl (slot_in (slice_add row) m name) = sliced wl m + v row" for m name
    by (rule sliced_slot) (rule laws)+
  have series: "mass (\<lambda>_. wb) (bt_alter k (\<lambda>p. add_row_point (entry_or (ub_empty k) p) row) m) = mass (\<lambda>_. wb) m + v row" for k m
    by (rule mass_alter_entry) (rule laws)+
  show ?thesis
    using assms(2) by (auto simp: stands_at_def tally_row_def Let_def slices series laws(1))
qed

lemma tally_rows_stand:
  assumes "(w, wl, wb, v) \<in> figures" "stands_at w wl wb drawn t x"
  shows "stands_at w wl wb drawn (foldl (tally_row f drawn) t rows) (x + sum_list (map v (rows_matching f rows)))"
  using assms(2)
proof (induction rows arbitrary: t x)
  case (Cons row rows)
  from Cons.IH [OF tally_row_stands [OF assms(1) Cons.prems, where f = f and row = row]]
  show ?case by (simp add: rows_matching_def add.assoc if_distrib cong: if_cong split: if_splits)
qed (simp add: rows_matching_def)

lemma summary_figures:
  assumes "(w, wl, wb, v) \<in> figures" "s = summary_of_rows f bucket_secs minutes rows"
  shows "w s = sum_list (map v (rows_matching f rows)) \<and>
    sum_list (map wl (us_by_model s)) = w s \<and> sum_list (map wl (us_by_provider s)) = w s \<and>
    sum_list (map wl (us_by_key s)) = w s \<and> (minutes = None \<longrightarrow> sum_list (map wb (us_series s)) = w s)"
proof -
  note laws = figure_laws [OF assms(1)]
  have start: "stands_at w wl wb drawn (ta_start (us_start False k) grid) 0" for drawn k grid
    by (simp add: stands_at_def ta_start_def sliced_def laws(6))
  have "sum_list (map wb (map snd m)) = mass (\<lambda>_. wb) m" for m :: "(u64 \<times> usage_bucket) list"
    by (induction m) simp_all
  with tally_rows_stand [OF assms(1) start [of "minutes \<noteq> None"], where f = f and rows = rows] show ?thesis
    unfolding assms(2) summary_of_rows_def Let_def laws(8)
    by (auto simp: stands_at_def finish_tally_def sum_ranked [of wl, OF laws(7)] split: option.splits)
qed

text \<open>
  A summary adds up: its totals are those of the rows the filter selects, and the tables by
  model, by provider and by key add up to them, and so does the series drawn from the rows.
\<close>

theorem a_summary_adds_up:
  assumes "(w, wl, wb, v) \<in> figures" "s = summary_of_rows f bucket_secs minutes rows"
  shows "w s = sum_list (map v (rows_matching f rows)) \<and>
    sum_list (map wl (us_by_model s)) = w s \<and> sum_list (map wl (us_by_provider s)) = w s \<and>
    sum_list (map wl (us_by_key s)) = w s \<and> (minutes = None \<longrightarrow> sum_list (map wb (us_series s)) = w s)"
  using assms by (rule summary_figures)

theorem a_summary_adds_up_witness:
  "sum_list (map sl_cost_micro_usd (us_by_key (summary_of_rows no_filter 3600 None
      (roll_up [sample_record 60000 ''a'' ''o3'' 200 7, sample_record 7300000 ''c'' ''o3'' 500 1])))) =
   us_cost_micro_usd (summary_of_rows no_filter 3600 None
      (roll_up [sample_record 60000 ''a'' ''o3'' 200 7, sample_record 7300000 ''c'' ''o3'' 500 1]))"
proof -
  have "(us_cost_micro_usd, sl_cost_micro_usd, ub_cost_micro_usd, rr_cost_micro_usd) \<in> figures" by (simp add: figures_def)
  from a_summary_adds_up [OF this refl] show ?thesis by blast
qed

end
