(* ===== verification/Console_Laws.thy ===== *)
theory Console_Laws
  imports History_Laws Summary_Laws
begin

text \<open>
  From the requests served to the figures of the Usage page: the flusher, the rows on disk and in memory,
  the window and the summary together. What the cursor of the pages of records leaves out.
\<close>

section \<open>The Usage page\<close>

lemma matches_record: "matches_dims f (ur_provider r) (ur_model r) (ur_vkey r) = hf_matches f r"
  by (simp add: matches_dims_def hf_matches_def)

lemma sum_of_roll_up:
  assumes "\<And>a b. v (row_absorb a b) = v a + v b" "\<And>r. v (row_of r) = c r"
  shows "sum_list (map v (rows_matching f (roll_up recs))) = (sum_list (map c (filter (hf_matches f) recs)) :: u64)"
proof -
  let ?P = "\<lambda>k. matches_dims f (fst (snd k)) (fst (snd (snd k))) (snd (snd (snd k)))"
  have "rows_matching f rs = filter (\<lambda>r. ?P (row_key r)) rs" for rs
    by (simp add: rows_matching_def row_key_def)
  moreover have "sum_list (map v (filter (\<lambda>r. ?P (row_key r)) (roll_up recs))) =
      sum_list (map v (filter (\<lambda>r. ?P (row_key r)) (map row_of recs)))"
    unfolding roll_up_pours by (rule rows.conserved [OF assms(1)]) simp
  moreover have "\<dots> = sum_list (map c (filter (hf_matches f) recs))"
    by (simp add: filter_map comp_def row_key_row_of matches_record assms(2))
  ultimately show ?thesis by simp
qed

text \<open>
  Property C14. The Usage page counts every request once. For a window drawn in hours, after any flushes
  and maintenance, the requests, tokens and cost shown are those of the records the filter selects whose
  hour meets the window, but for the hours of two days ago that no tier is asked for.
\<close>

theorem the_usage_page_counts_each_request_once:
  assumes "\<forall>m. Maintained m \<in> set es \<longrightarrow> m \<le> now" "now < 2 ^ 63"
    and "served_from (fl_dir (after node retention t0 es)) now since_ms = s" "s \<le> min until_ms now"
    and "\<forall>t. s - s mod DAY_MS \<le> t \<longrightarrow> day_partition t \<notin> gone_days retention es"
    and "bucket_width_secs (u64_saturating_sub until_ms since_ms) < 86400"
    and "served = filter (\<lambda>r. hf_matches f r \<and> shown_hour s (min until_ms now) (hour_of r)
      \<and> \<not> never_read (memory_start now) (hour_of r)) (flushed_records es)"
  shows "\<exists>page. usage_summary_of (pipeline_of (after node retention t0 es) ag ring) now since_ms until_ms f False = Some page \<and>
    us_requests page = of_nat (length served) \<and>
    us_input_tokens page = sum_list (map ur_input_tokens served) \<and>
    us_output_tokens page = sum_list (map ur_output_tokens served) \<and>
    us_cost_micro_usd page = sum_list (map ur_cost_micro_usd served)"
proof -
  let ?up = "pipeline_of (after node retention t0 es) ag ring"
  let ?width = "bucket_width_secs (u64_saturating_sub until_ms since_ms)"
  let ?recs = "filter (\<lambda>r. shown_hour s (min until_ms now) (hour_of r) \<and> \<not> never_read (memory_start now) (hour_of r)) (flushed_records es)"
  define page where "page = summary_of_rows f ?width (minute_series ?up now since_ms until_ms f ?width) (roll_up ?recs)"
  have "rollups_for_window ?up now since_ms until_ms True = Some (roll_up ?recs)"
    using window_of_pipeline [OF assms(1,2) refl assms(3) [symmetric] refl assms(5), of ag ring until_ms] assms(4)
    by (simp add: linorder_not_less [symmetric] del: min_less_iff_conj min.bounded_iff)
  then have "usage_summary_of ?up now since_ms until_ms f False = Some page"
    using assms(6) by (simp add: usage_summary_of_def usage_summary_from_rollups_def pipeline_of_def page_def Let_def)
  moreover have "w page = sum_list (map v (rows_matching f (roll_up ?recs)))" if "(w, wl, wb, v) \<in> figures" for w wl wb v
    using summary_figures [OF that page_def] by blast
  note this [of us_requests sl_requests ub_requests rr_requests] this [of us_input_tokens sl_input_tokens ub_input_tokens rr_input_tokens]
    this [of us_output_tokens sl_output_tokens ub_output_tokens rr_output_tokens]
    this [of us_cost_micro_usd sl_cost_micro_usd ub_cost_micro_usd rr_cost_micro_usd]
  moreover have "filter (hf_matches f) ?recs = served" unfolding assms(7) filter_filter by (rule filter_cong) auto
  then have "sum_list (map rr_requests (rows_matching f (roll_up ?recs))) = of_nat (length served)"
    "sum_list (map rr_input_tokens (rows_matching f (roll_up ?recs))) = sum_list (map ur_input_tokens served)"
    "sum_list (map rr_output_tokens (rows_matching f (roll_up ?recs))) = sum_list (map ur_output_tokens served)"
    "sum_list (map rr_cost_micro_usd (rows_matching f (roll_up ?recs))) = sum_list (map ur_cost_micro_usd served)"
    using sum_of_roll_up [of rr_requests "\<lambda>_. 1" f ?recs] sum_of_roll_up [of rr_input_tokens ur_input_tokens f ?recs]
      sum_of_roll_up [of rr_output_tokens ur_output_tokens f ?recs] sum_of_roll_up [of rr_cost_micro_usd ur_cost_micro_usd f ?recs]
    by (simp_all add: row_absorb_def row_of_def row_count_def row_empty_def map_replicate_const sum_list_replicate)
  ultimately show ?thesis by (auto simp: figures_def)
qed

theorem the_usage_page_counts_each_request_once_witness:
  "\<exists>page. usage_summary_of (pipeline_of (after ''n1'' 30 0 [Flushed [sample_record 5999000000000 ''a'' ''o3'' 200 7]]) (agg_new 0) [])
      6000000000000 5998000000000 6000000000000 no_filter False = Some page \<and>
    us_requests page = of_nat (length (filter (\<lambda>r. hf_matches no_filter r \<and>
      shown_hour (served_from (fl_dir (after ''n1'' 30 0 [Flushed [sample_record 5999000000000 ''a'' ''o3'' 200 7]])) 6000000000000 5998000000000)
        (min 6000000000000 6000000000000) (hour_of r) \<and> \<not> never_read (memory_start 6000000000000) (hour_of r))
      (flushed_records [Flushed [sample_record 5999000000000 ''a'' ''o3'' 200 7]])))"
proof -
  have "bucket_width_secs (u64_saturating_sub 6000000000000 5998000000000) < 86400"
    by (simp add: bucket_width_secs_def u64_saturating_sub_def u64_div_ceil_def)
  from the_usage_page_counts_each_request_once
    [of "[Flushed [sample_record 5999000000000 ''a'' ''o3'' 200 7]]" 6000000000000 "''n1''" 30 0 5998000000000 _ 6000000000000,
      OF _ _ refl _ _ this refl, where f = no_filter and ag = "agg_new 0" and ring = "[]"] served_from_past [of 5998000000000 6000000000000]
  show ?thesis by (auto simp: gone_days_def)
qed

section \<open>Pages\<close>

text \<open>
  Two requests of one millisecond: a page that ends on the first gives a cursor after which the second
  does not come, so it is on no page.
\<close>

theorem a_page_may_skip_a_request:
  assumes "ur_ts second = ur_ts first" "ur_request_id first < ur_request_id second" "ur_ts first < - 1"
    and "up_data_dir up = Some dd" "dd_usage dd = Some [(day_partition (ur_ts first), [(nm, [first, second])])]"
    and "up_recent up = []" "cursor = (ur_ts first, ur_request_id first)"
  shows "page_from_disk up 1 (ur_ts first) (- 1) no_filter False None = ([first], Some cursor) \<and>
    page_from_disk up 1 (ur_ts first) (- 1) no_filter False (Some cursor) = ([], None)"
proof -
  have "starts_with ''dt='' (day_partition (ur_ts first))"
    by (simp add: day_partition_def day_name_def starts_with_def split: prod.splits)
  then have "disk_records dd (ur_ts first) wanted = sort_key (\<lambda>r. - 1 - ur_ts r) (filter wanted [first, second])" for wanted
    by (simp add: disk_records_def partitions_since_def dirs_of_def assms(5))
  then show ?thesis
    using assms(1-3) by (auto simp: page_from_disk_def collect_page_def assms(4,6,7) keep_record_def hf_matches_def no_filter_def
        is_none_or_def Let_def)
qed

end
