(* ===== verification/Metering.thy ===== *)
theory Metering
  imports Rollup_Cache Virtual_Keys Key_Pool Sse_Codec
begin

text \<open>
  From a response body to the accounts: the excerpt of the prompt, the metered body and its hook, the write
  side of the pipeline (ring, queues, bodies in memory), and the budgets read back at boot
  (\<open>crates/router-server/src/usage.rs\<close>). An \<open>Arc\<close> of a runtime or a pool is its place in a list. A bounded
  channel is the list of what waits in it. Metrics and the event stream of the console are left out.
\<close>

section \<open>The excerpt of a prompt\<close>

definition PROMPT_PREVIEW_CHARS :: nat where "PROMPT_PREVIEW_CHARS = 240"

text \<open>\<open>str::split_whitespace\<close>: the word under way, and at most one step for each byte.\<close>

fun words_from :: "nat \<Rightarrow> string \<Rightarrow> string \<Rightarrow> string list" where
  "words_from 0 word s = (if word = [] then [] else [word])"
| "words_from (Suc n) word s =
     (case s of
        [] \<Rightarrow> (if word = [] then [] else [word])
      | c # r \<Rightarrow>
          (case strip_space white_space s of
             Some rest \<Rightarrow> (if word = [] then [] else [word]) @ words_from n [] rest
           | None \<Rightarrow> words_from n (word @ [c]) r))"

definition collapse_whitespace :: "string \<Rightarrow> string" where
  "collapse_whitespace text = join '' '' (words_from (length text) [] text)"

text \<open>\<open>chars().count()\<close> and \<open>chars().take(n)\<close> of valid UTF-8: every byte but a continuation starts a character.\<close>

definition char_count :: "string \<Rightarrow> nat" where
  "char_count s = length (filter (\<lambda>c. \<not> utf8_tail c) s)"

fun take_chars :: "nat \<Rightarrow> string \<Rightarrow> string" where
  "take_chars n [] = []"
| "take_chars n (c # s) =
     (if utf8_tail c then c # take_chars n s else if n = 0 then [] else c # take_chars (n - 1) s)"

definition truncate_chars :: "string \<Rightarrow> nat \<Rightarrow> string" where
  "truncate_chars text limit =
     (if char_count text \<le> limit then text else take_chars limit text @ [CHR 0xE2, CHR 0x80, CHR 0xA6])"

definition content_part :: "json \<Rightarrow> string list" where
  "content_part part =
     (let kind = Option.bind (js_get part ''type'') js_as_str in
      if kind \<in> Some ` {''text'', ''input_text'', ''output_text''}
      then (case Option.bind (js_get part ''text'') js_as_str of Some text \<Rightarrow> [text] | None \<Rightarrow> [])
      else if kind \<in> Some ` {''image'', ''image_url'', ''input_image''} then [''[image]'']
      else if kind \<in> Some ` {''document'', ''file'', ''input_file''} then [''[document]'']
      else [])"

definition content_text :: "json list \<Rightarrow> string" where
  "content_text parts = join '' '' (concat (map content_part parts))"

fun js_as_array :: "json \<Rightarrow> json list option" where
  "js_as_array (JArray xs) = Some xs"
| "js_as_array _ = None"

fun first_turn :: "string \<Rightarrow> json list \<Rightarrow> string option" where
  "first_turn role [] = None"
| "first_turn role (turn # turns) =
     (if Option.bind (js_get turn ''role'') js_as_str \<noteq> Some role then first_turn role turns
      else case js_get turn ''content'' of
        Some (JString text) \<Rightarrow> if trim text \<noteq> [] then Some text else first_turn role turns
      | Some (JArray parts) \<Rightarrow>
          if trim (content_text parts) \<noteq> [] then Some (content_text parts) else first_turn role turns
      | _ \<Rightarrow> first_turn role turns)"

definition first_turn_text :: "json \<Rightarrow> string \<Rightarrow> string option" where
  "first_turn_text value role =
     Option.bind (Option.bind (case js_get value ''messages'' of Some m \<Rightarrow> Some m | None \<Rightarrow> js_get value ''input'') js_as_array)
       (first_turn role)"

definition system_text :: "json \<Rightarrow> string option" where
  "system_text value =
     (case js_get value ''system'' of
        Some (JString text) \<Rightarrow> Some text
      | Some (JArray blocks) \<Rightarrow>
          let joined = join '' '' (List.map_filter (\<lambda>b. Option.bind (js_get b ''text'') js_as_str) blocks)
          in if joined = [] then None else Some joined
      | _ \<Rightarrow> None)"

definition prompt_preview :: "serde \<Rightarrow> string \<Rightarrow> string option" where
  "prompt_preview sd body =
     (case from_slice sd body of
        Inl _ \<Rightarrow> None
      | Inr value \<Rightarrow>
          (case (case first_turn_text value ''user'' of Some t \<Rightarrow> Some t | None \<Rightarrow>
                (case Option.bind (js_get value ''instructions'') js_as_str of Some t \<Rightarrow> Some t | None \<Rightarrow>
                (case system_text value of Some t \<Rightarrow> Some t | None \<Rightarrow> first_turn_text value ''system''))) of
             None \<Rightarrow> None
           | Some text \<Rightarrow>
               let text = collapse_whitespace text in
               if text = [] then None else Some (truncate_chars text PROMPT_PREVIEW_CHARS)))"

section \<open>Bodies\<close>

record request_bodies =
  rb_request_id :: string
  rb_ts :: u64
  rb_input :: string
  rb_output :: string
  rb_truncated :: bool

definition is_char_boundary :: "string \<Rightarrow> nat \<Rightarrow> bool" where
  "is_char_boundary s n \<longleftrightarrow> n = 0 \<or> n = length s \<or> (n < length s \<and> \<not> utf8_tail (s ! n))"

fun floor_boundary :: "string \<Rightarrow> nat \<Rightarrow> nat" where
  "floor_boundary s 0 = 0"
| "floor_boundary s (Suc n) = (if is_char_boundary s (Suc n) then Suc n else floor_boundary s n)"

definition cap_body :: "string \<Rightarrow> nat \<Rightarrow> string \<times> bool" where
  "cap_body body limit =
     (if length body \<le> limit then (body, False)
      else (take (floor_boundary body limit) body @ [CHR 10, CHR 0xE2, CHR 0x80, CHR 0xA6] @ '' truncated at ''
             @ decimal limit @ '' bytes'', True))"

definition HOT_BODIES_CAP :: nat where "HOT_BODIES_CAP = RECENT_CAP"

record hot_bodies =
  hb_by_id :: "string \<rightharpoonup> request_bodies"
  hb_order :: "string list"

fun hot_evict :: "string list \<Rightarrow> (string \<rightharpoonup> request_bodies) \<Rightarrow> hot_bodies" where
  "hot_evict [] by_id = \<lparr>hb_by_id = by_id, hb_order = []\<rparr>"
| "hot_evict (oldest # order) by_id =
     (if HOT_BODIES_CAP \<le> length (oldest # order) then hot_evict order (by_id(oldest := None))
      else \<lparr>hb_by_id = by_id, hb_order = oldest # order\<rparr>)"

definition hot_insert :: "hot_bodies \<Rightarrow> request_bodies \<Rightarrow> hot_bodies" where
  "hot_insert hb bodies =
     (if hb_by_id hb (rb_request_id bodies) \<noteq> None then hb
      else let hb = hot_evict (hb_order hb) (hb_by_id hb)
        in \<lparr>hb_by_id = (hb_by_id hb)(rb_request_id bodies \<mapsto> bodies), hb_order = hb_order hb @ [rb_request_id bodies]\<rparr>)"

section \<open>The write side of the pipeline\<close>

record sink =
  sk_agg :: aggregator
  sk_recent :: "usage_record list"
  sk_queue :: "usage_record list option"
  sk_dropped :: u64
  sk_hot :: hot_bodies
  sk_body_queue :: "request_bodies list option"
  sk_capture :: body_capture
  sk_body_limit :: nat

text \<open>\<open>try_send\<close> on a bounded channel whose receiver is alive.\<close>

definition try_send :: "nat \<Rightarrow> 'a list \<Rightarrow> 'a \<Rightarrow> 'a list option" where
  "try_send bound queue x = (if length queue < bound then Some (queue @ [x]) else None)"

definition sk_start :: "bool \<Rightarrow> usage_config \<Rightarrow> u64 \<Rightarrow> sink" where
  "sk_start has_dir cfg now =
     \<lparr>sk_agg = agg_new now, sk_recent = [], sk_queue = (if has_dir then Some [] else None), sk_dropped = 0,
      sk_hot = \<lparr>hb_by_id = Map.empty, hb_order = []\<rparr>, sk_body_queue = (if has_dir then Some [] else None),
      sk_capture = uc_capture_bodies cfg, sk_body_limit = uc_body_limit_bytes cfg\<rparr>"

definition capture_limit_for :: "sink \<Rightarrow> u16 \<Rightarrow> nat" where
  "capture_limit_for sk status = (if capture_wants (sk_capture sk) (unat status) then sk_body_limit sk else 0)"

definition record_bodies :: "sink \<Rightarrow> string \<Rightarrow> u64 \<Rightarrow> u16 \<Rightarrow> string \<Rightarrow> string \<Rightarrow> sink" where
  "record_bodies sk request_id ts status input_body output_body =
     (if \<not> capture_wants (sk_capture sk) (unat status) then sk
      else let (i, cut_in) = cap_body input_body (sk_body_limit sk);
               (out, cut_out) = cap_body output_body (sk_body_limit sk);
               bodies = \<lparr>rb_request_id = request_id, rb_ts = ts, rb_input = i, rb_output = out, rb_truncated = (cut_in \<or> cut_out)\<rparr>
           in sk\<lparr>sk_hot := hot_insert (sk_hot sk) bodies,
                 sk_body_queue := map_option (\<lambda>q. case try_send 1024 q bodies of None \<Rightarrow> q | Some q' \<Rightarrow> q') (sk_body_queue sk)\<rparr>)"

definition push_recent :: "usage_record list \<Rightarrow> usage_record \<Rightarrow> usage_record list" where
  "push_recent ring r = (if length ring = RECENT_CAP then tl ring else ring) @ [r]"

definition sk_record :: "sink \<Rightarrow> usage_record \<Rightarrow> sink" where
  "sk_record sk r =
     (let sk = sk\<lparr>sk_agg := agg_record (sk_agg sk) r, sk_recent := push_recent (sk_recent sk) r\<rparr> in
      case sk_queue sk of
        None \<Rightarrow> sk
      | Some q \<Rightarrow>
          (case try_send 8192 q r of
             Some q' \<Rightarrow> sk\<lparr>sk_queue := Some q'\<rparr>
           | None \<Rightarrow> sk\<lparr>sk_dropped := sk_dropped sk + 1\<rparr>))"

definition sk_recent_requests :: "sink \<Rightarrow> nat \<Rightarrow> string option \<Rightarrow> u16 option \<Rightarrow> string option \<Rightarrow> usage_record list" where
  "sk_recent_requests sk limit vkey status_min provider =
     take (min limit RECENT_CAP)
       (filter (\<lambda>r. is_none_or provider (\<lambda>p. ur_provider r = p))
       (filter (\<lambda>r. is_none_or status_min (\<lambda>s. s \<le> ur_status_code r))
       (filter (\<lambda>r. is_none_or vkey (\<lambda>k. ur_vkey r = Some k)) (rev (sk_recent sk)))))"

section \<open>The hook of a request\<close>

record books =
  bk_runtimes :: "vk_runtime list"
  bk_spend :: spend_store
  bk_pools :: "provider_runtime list"
  bk_sink :: sink

record usage_hook =
  uh_vkey :: "nat option"
  uh_pricing :: pricing
  uh_request_id :: string
  uh_endpoint :: string
  uh_requested :: string
  uh_provider :: string
  uh_model :: string
  uh_stream :: bool
  uh_attempts :: u32
  uh_overhead_us :: u64
  uh_tag :: "string option"
  uh_seat :: "(nat \<times> string) option"
  uh_reasoning_effort :: "string option"
  uh_input_body :: "string option"

text \<open>The clocks a completion reads: unix and monotonic milliseconds, and the time since the request began.\<close>

record instant =
  at_unix :: u64
  at_mono :: u64
  at_elapsed :: u64

fun debit_named :: "string \<Rightarrow> u64 \<Rightarrow> u64 \<Rightarrow> key_runtime list \<Rightarrow> key_runtime list" where
  "debit_named name tokens mono_ms [] = []"
| "debit_named name tokens mono_ms (k # ks) =
     (if kr_name k = name then kr_debit_tokens k tokens mono_ms # ks else k # debit_named name tokens mono_ms ks)"

definition debit_vkey :: "books \<Rightarrow> nat option \<Rightarrow> token_usage \<Rightarrow> u64 \<Rightarrow> instant \<Rightarrow> books" where
  "debit_vkey bk vkey usage cost tm =
     (case vkey of
        None \<Rightarrow> bk
      | Some i \<Rightarrow>
          let (rt, spend) = vk_debit_usage (bk_spend bk) (bk_runtimes bk ! i) (tu_billable usage) cost (at_mono tm)
                (vk_period_ordinal (bk_runtimes bk ! i) (at_unix tm))
          in bk\<lparr>bk_runtimes := (bk_runtimes bk)[i := rt], bk_spend := spend\<rparr>)"

definition debit_seat :: "books \<Rightarrow> (nat \<times> string) option \<Rightarrow> token_usage \<Rightarrow> instant \<Rightarrow> books" where
  "debit_seat bk seat usage tm =
     (case seat of
        None \<Rightarrow> bk
      | Some (i, name) \<Rightarrow>
          bk\<lparr>bk_pools := (bk_pools bk)[i := (bk_pools bk ! i)
               \<lparr>pr_keys := debit_named name (tu_billable usage) (at_mono tm) (pr_keys (bk_pools bk ! i))\<rparr>]\<rparr>)"

definition usage_record_of :: "serde \<Rightarrow> books \<Rightarrow> usage_hook \<Rightarrow> u16 \<Rightarrow> token_usage \<Rightarrow> u64 \<Rightarrow> instant \<Rightarrow> usage_record" where
  "usage_record_of sd bk h status usage cost tm =
     \<lparr>ur_ts = at_unix tm, ur_request_id = uh_request_id h, ur_endpoint = uh_endpoint h, ur_requested = uh_requested h,
      ur_provider = uh_provider h, ur_model = uh_model h,
      ur_vkey = map_option (\<lambda>i. vd_id (vk_def (bk_runtimes bk ! i))) (uh_vkey h), ur_status_code = status,
      ur_stream = uh_stream h, ur_input_tokens = tu_input usage, ur_output_tokens = tu_output usage,
      ur_cached_tokens = tu_cached usage, ur_cost_micro_usd = cost, ur_latency_ms = at_elapsed tm,
      ur_overhead_us = uh_overhead_us h, ur_attempts = uh_attempts h, ur_tag = uh_tag h,
      ur_prompt = Option.bind (uh_input_body h) (prompt_preview sd), ur_account = map_option snd (uh_seat h),
      ur_reasoning_effort = uh_reasoning_effort h\<rparr>"

definition complete_with_body :: "serde \<Rightarrow> books \<Rightarrow> usage_hook \<Rightarrow> u16 \<Rightarrow> token_usage \<Rightarrow> string option \<Rightarrow> instant \<Rightarrow> books" where
  "complete_with_body sd bk h status usage output_body tm =
     (let cost = cost_micro_usd (uh_pricing h) (uh_provider h) (uh_model h) usage;
          bk = debit_vkey bk (uh_vkey h) usage cost tm;
          bk = debit_seat bk (uh_seat h) usage tm;
          r = usage_record_of sd bk h status usage cost tm;
          sk = record_bodies (bk_sink bk) (ur_request_id r) (ur_ts r) status
            (case uh_input_body h of None \<Rightarrow> [] | Some b \<Rightarrow> b) (case output_body of None \<Rightarrow> [] | Some b \<Rightarrow> b)
      in bk\<lparr>bk_sink := sk_record sk r\<rparr>)"

definition hook_complete :: "serde \<Rightarrow> books \<Rightarrow> usage_hook \<Rightarrow> u16 \<Rightarrow> token_usage \<Rightarrow> instant \<Rightarrow> books" where
  "hook_complete sd bk h status usage tm = complete_with_body sd bk h status usage None tm"

section \<open>The metered body\<close>

definition USAGE_TAIL_CAP :: nat where "USAGE_TAIL_CAP = 256 * 1024"

record metered_body =
  mb_hook :: "usage_hook option"
  mb_dialect :: dialect
  mb_status :: u16
  mb_tail :: string
  mb_captured :: string
  mb_capture_limit :: nat

definition meter_response :: "sink \<Rightarrow> u16 \<Rightarrow> usage_hook \<Rightarrow> dialect \<Rightarrow> metered_body" where
  "meter_response sk status h dialect =
     \<lparr>mb_hook = Some h, mb_dialect = dialect, mb_status = status, mb_tail = [], mb_captured = [],
      mb_capture_limit = capture_limit_for sk status\<rparr>"

definition observe_tail :: "string \<Rightarrow> string \<Rightarrow> string" where
  "observe_tail tail data =
     (if USAGE_TAIL_CAP \<le> length data then drop (length data - USAGE_TAIL_CAP) data
      else drop (length tail + length data - USAGE_TAIL_CAP) tail @ data)"

definition observe :: "metered_body \<Rightarrow> string \<Rightarrow> metered_body" where
  "observe mb data =
     mb\<lparr>mb_captured := (if length (mb_captured mb) < mb_capture_limit mb
          then mb_captured mb @ take (mb_capture_limit mb - length (mb_captured mb)) data else mb_captured mb),
        mb_tail := observe_tail (mb_tail mb) data\<rparr>"

text \<open>\<open>str::lines\<close>; the empty line it leaves out at the end of a text carries no data.\<close>

definition data_line :: "string \<Rightarrow> string option" where
  "data_line line = map_option (\<lambda>data. trim_front white_space (length data) data) (strip_prefix ''data:'' line)"

definition tail_usage :: "serde \<Rightarrow> dialect \<Rightarrow> bool \<Rightarrow> string \<Rightarrow> token_usage" where
  "tail_usage sd dialect streamed tail =
     (if streamed
      then (if utf8_valid tail
            then scan_events sd dialect (List.map_filter data_line (map strip_suffix_cr (split_on LF tail)))
            else tu_default)
      else extract_sync sd dialect tail)"

definition mb_complete :: "serde \<Rightarrow> instant \<Rightarrow> metered_body \<Rightarrow> books \<Rightarrow> metered_body \<times> books" where
  "mb_complete sd tm mb bk =
     (case mb_hook mb of
        None \<Rightarrow> (mb, bk)
      | Some h \<Rightarrow>
          (mb\<lparr>mb_hook := None, mb_captured := []\<rparr>,
           complete_with_body sd bk h (mb_status mb) (tail_usage sd (mb_dialect mb) (uh_stream h) (mb_tail mb))
             (Some (utf8_lossy (mb_captured mb))) tm))"

text \<open>What a poll of the inner body gives, and the drop of the body.\<close>

datatype body_event = DataFrame string | OtherFrame | FrameError | BodyEnd | BodyDropped

fun meter_event :: "serde \<Rightarrow> instant \<Rightarrow> metered_body \<times> books \<Rightarrow> body_event \<Rightarrow> metered_body \<times> books" where
  "meter_event sd tm (mb, bk) (DataFrame data) = (observe mb data, bk)"
| "meter_event sd tm (mb, bk) OtherFrame = (mb, bk)"
| "meter_event sd tm (mb, bk) FrameError = mb_complete sd tm mb bk"
| "meter_event sd tm (mb, bk) BodyEnd = mb_complete sd tm mb bk"
| "meter_event sd tm (mb, bk) BodyDropped = mb_complete sd tm mb bk"

section \<open>Budgets at boot\<close>

definition scan_period_spend :: "data_dir \<Rightarrow> string \<Rightarrow> (u64 \<Rightarrow> bool) \<Rightarrow> u64" where
  "scan_period_spend dd key_id in_period =
     sum_list (map ur_cost_micro_usd
       (filter (\<lambda>r. ur_vkey r = Some key_id \<and> in_period (ur_ts r))
         (concat (map (\<lambda>day. read_records (snd day)) (dirs_of (dd_usage dd))))))"

definition seed_key :: "data_dir \<Rightarrow> u64 \<Rightarrow> spend_store \<Rightarrow> vk_runtime \<Rightarrow> spend_store" where
  "seed_key dd now store rt =
     (if vd_budget (vk_def rt) = None then store
      else let ordinal = vk_period_ordinal rt now;
               spent = scan_period_spend dd (vd_id (vk_def rt)) (\<lambda>ts. vk_period_ordinal rt ts = ordinal)
           in if 0 < spent then store[vk_spend rt := sp_add (store ! vk_spend rt) spent ordinal] else store)"

definition seed_budgets :: "data_dir \<Rightarrow> u64 \<Rightarrow> vk_runtime list \<Rightarrow> spend_store \<Rightarrow> spend_store" where
  "seed_budgets dd now table store = foldl (seed_key dd now) store table"

end
