(* ===== verification/Metering_Laws.thy ===== *)
theory Metering_Laws
  imports Metering
begin

text \<open>
  A response is accounted once, from the last bytes of its body, however it was cut into frames and
  however it ended; the costs in the log of a key are what the key was charged, and what a restart reads
  back. The bounds of the ring, of the bodies in memory and of what is kept of them.
\<close>

section \<open>The last items of a list\<close>

definition final :: "nat \<Rightarrow> 'a list \<Rightarrow> 'a list" where
  "final n xs = drop (length xs - n) xs"

lemma final_Nil [simp]: "final n [] = []"
  by (simp add: final_def)

lemma length_final [simp]: "length (final n xs) = min n (length xs)"
  by (simp add: final_def)

lemma final_append: "final n (xs @ ys) = final n (final n xs @ ys)"
proof (cases "length xs \<le> n")
  case False
  have eq: "final n xs @ ys = drop (length xs - n) (xs @ ys)" by (simp add: final_def)
  have len: "length (final n xs @ ys) - n = length ys" using False by simp
  have "final n (final n xs @ ys) = drop (length (final n xs @ ys) - n) (final n xs @ ys)" by (rule final_def)
  also have "\<dots> = drop (length ys) (drop (length xs - n) (xs @ ys))" unfolding len unfolding eq ..
  also have "\<dots> = drop (length (xs @ ys) - n) (xs @ ys)"
    unfolding drop_drop using False by (intro arg_cong2 [where f = drop]) simp_all
  finally show ?thesis by (simp only: final_def [of n "xs @ ys"])
qed (simp add: final_def)

lemma observe_tail_final: "observe_tail (final USAGE_TAIL_CAP xs) data = final USAGE_TAIL_CAP (xs @ data)"
proof -
  have "observe_tail t data = final USAGE_TAIL_CAP (t @ data)" if "length t \<le> USAGE_TAIL_CAP" for t
    using that by (auto simp: observe_tail_def final_def)
  then show ?thesis using final_append [of USAGE_TAIL_CAP xs data] by simp
qed

section \<open>One completion for each response\<close>

type_synonym timed_event = "instant \<times> body_event"

definition meter_events :: "serde \<Rightarrow> metered_body \<times> books \<Rightarrow> timed_event list \<Rightarrow> metered_body \<times> books" where
  "meter_events sd st es = foldl (\<lambda>st e. meter_event sd (fst e) st (snd e)) st es"

definition frame_bytes :: "timed_event list \<Rightarrow> string" where
  "frame_bytes es = concat (map (\<lambda>e. case snd e of DataFrame data \<Rightarrow> data | _ \<Rightarrow> []) es)"

definition is_frame :: "timed_event \<Rightarrow> bool" where
  "is_frame e \<longleftrightarrow> (case snd e of DataFrame _ \<Rightarrow> True | OtherFrame \<Rightarrow> True | _ \<Rightarrow> False)"

lemma meter_frames:
  assumes "\<forall>e \<in> set es. is_frame e" "mb_tail mb = final USAGE_TAIL_CAP seen" "mb_captured mb = take (mb_capture_limit mb) seen"
  shows "meter_events sd (mb, bk) es =
    (mb\<lparr>mb_tail := final USAGE_TAIL_CAP (seen @ frame_bytes es),
        mb_captured := take (mb_capture_limit mb) (seen @ frame_bytes es)\<rparr>, bk)"
  using assms
proof (induction es arbitrary: mb seen)
  case Nil
  then show ?case by (simp add: meter_events_def frame_bytes_def)
next
  case (Cons e es)
  show ?case
  proof (cases "snd e")
    case (DataFrame data)
    have "meter_events sd (observe mb data, bk) es =
        ((observe mb data)\<lparr>mb_tail := final USAGE_TAIL_CAP ((seen @ data) @ frame_bytes es),
           mb_captured := take (mb_capture_limit (observe mb data)) ((seen @ data) @ frame_bytes es)\<rparr>, bk)"
      by (rule Cons.IH) (use Cons.prems in \<open>auto simp: observe_def observe_tail_final min_def\<close>)
    with DataFrame show ?thesis by (simp add: meter_events_def frame_bytes_def observe_def)
  next
    case OtherFrame
    with Cons.IH [OF _ Cons.prems(2,3)] Cons.prems(1) show ?thesis by (simp add: meter_events_def frame_bytes_def)
  qed (use Cons.prems(1) in \<open>auto simp: is_frame_def\<close>)
qed

lemma meter_done: "mb_hook mb = None \<Longrightarrow> snd (meter_events sd (mb, bk) es) = bk"
proof (induction es arbitrary: mb)
  case (Cons e es)
  have "\<exists>mb'. meter_event sd (fst e) (mb, bk) (snd e) = (mb', bk) \<and> mb_hook mb' = None"
    using Cons.prems by (cases "snd e") (simp_all add: mb_complete_def observe_def)
  with Cons.IH show ?case by (auto simp: meter_events_def)
qed (simp add: meter_events_def)

text \<open>
  Property C16. A response is accounted exactly once. While frames arrive nothing is booked; the first of
  end, error and drop books it, with the usage found in the last 256 KiB of the bytes and the first bytes
  as the captured answer, however they were cut into frames; nothing that happens later books it again.
\<close>

theorem a_response_is_accounted_once:
  assumes "\<forall>e \<in> set frames. is_frame e" "snd ending \<in> {FrameError, BodyEnd, BodyDropped}"
  shows "snd (meter_events sd (meter_response sk status h dialect, bk) frames) = bk \<and>
    snd (meter_events sd (meter_response sk status h dialect, bk) (frames @ ending # later)) =
      complete_with_body sd bk h status
        (tail_usage sd dialect (uh_stream h) (final USAGE_TAIL_CAP (frame_bytes frames)))
        (Some (utf8_lossy (take (capture_limit_for sk status) (frame_bytes frames)))) (fst ending)"
proof -
  let ?mb = "meter_response sk status h dialect"
  let ?seen = "?mb\<lparr>mb_tail := final USAGE_TAIL_CAP (frame_bytes frames),
    mb_captured := take (mb_capture_limit ?mb) (frame_bytes frames)\<rparr>"
  have seen: "meter_events sd (?mb, bk) frames = (?seen, bk)"
    using meter_frames [OF assms(1), of ?mb "[]" sd bk] by (simp add: meter_response_def)
  have "meter_events sd (?mb, bk) (frames @ ending # later) =
      meter_events sd (meter_event sd (fst ending) (?seen, bk) (snd ending)) later"
    unfolding seen [symmetric] by (simp add: meter_events_def)
  also have "meter_event sd (fst ending) (?seen, bk) (snd ending) = mb_complete sd (fst ending) ?seen bk"
    using assms(2) by auto
  finally have "meter_events sd (?mb, bk) (frames @ ending # later) = meter_events sd (mb_complete sd (fst ending) ?seen bk) later" .
  then show ?thesis
    unfolding seen using meter_done by (auto simp: mb_complete_def meter_response_def)
qed

definition sample_hook :: usage_hook where
  "sample_hook = \<lparr>uh_vkey = None, uh_pricing = sample_pricing, uh_request_id = ''r1'', uh_endpoint = ''/v1/chat/completions'',
     uh_requested = ''o3'', uh_provider = ''a'', uh_model = ''o3'', uh_stream = True, uh_attempts = 1, uh_overhead_us = 0,
     uh_tag = None, uh_seat = None, uh_reasoning_effort = None, uh_input_body = None\<rparr>"

definition sample_serde :: serde where
  "sample_serde = \<lparr>from_slice = (\<lambda>_. Inl []), from_slice_minimal = (\<lambda>_. Inl []), to_vec = (\<lambda>_. []), str_unquote = Some, str_quote = id\<rparr>"

definition sample_instant :: instant where
  "sample_instant = \<lparr>at_unix = 60000, at_mono = 5, at_elapsed = 7\<rparr>"

definition sample_books :: books where
  "sample_books = \<lparr>bk_runtimes = [], bk_spend = [], bk_pools = [], bk_sink = sk_start True usage_default 0\<rparr>"

theorem a_response_is_accounted_once_witness:
  "snd (meter_events sample_serde (meter_response (bk_sink sample_books) 200 sample_hook DOpenAi, sample_books)
     [(sample_instant, DataFrame ''data: {}''), (sample_instant, DataFrame ''!''), (sample_instant, BodyEnd), (sample_instant, BodyDropped)]) =
   complete_with_body sample_serde sample_books sample_hook 200
     (tail_usage sample_serde DOpenAi True (final USAGE_TAIL_CAP ''data: {}!''))
     (Some (utf8_lossy (take (capture_limit_for (bk_sink sample_books) 200) ''data: {}!''))) sample_instant"
  using a_response_is_accounted_once
    [of "[(sample_instant, DataFrame ''data: {}''), (sample_instant, DataFrame ''!'')]" "(sample_instant, BodyEnd)" sample_serde "bk_sink sample_books" 200 sample_hook DOpenAi
      sample_books "[(sample_instant, BodyDropped)]"]
  by (simp add: is_frame_def frame_bytes_def sample_hook_def)

text \<open>Of a stream longer than the tail that is cut inside a character nothing is found.\<close>

theorem a_character_cut_by_the_tail_loses_the_usage:
  assumes "USAGE_TAIL_CAP < length bytes" "utf8_tail (bytes ! (length bytes - USAGE_TAIL_CAP))"
  shows "tail_usage sd dialect True (final USAGE_TAIL_CAP bytes) = tu_default"
proof -
  let ?n = "length bytes - USAGE_TAIL_CAP"
  have "USAGE_TAIL_CAP > 0" by (simp add: USAGE_TAIL_CAP_def)
  then have "final USAGE_TAIL_CAP bytes = bytes ! ?n # drop (Suc ?n) bytes"
    using assms(1) unfolding final_def by (intro Cons_nth_drop_Suc [symmetric]) simp
  moreover have "\<not> utf8_valid (c # s)" if "utf8_tail c" for c s
    using that by (auto simp: utf8_valid.simps(2) utf8_tail_def byte_in_def utf8_second3_def utf8_second4_def split: list.splits)
  ultimately show ?thesis using assms(2) by (simp add: tail_usage_def)
qed

section \<open>The log and the spend\<close>

record completion =
  cp_hook :: usage_hook
  cp_status :: u16
  cp_usage :: token_usage
  cp_output :: "string option"
  cp_at :: instant

definition complete_one :: "serde \<Rightarrow> books \<Rightarrow> completion \<Rightarrow> books" where
  "complete_one sd bk c = complete_with_body sd bk (cp_hook c) (cp_status c) (cp_usage c) (cp_output c) (cp_at c)"

definition cp_cost :: "completion \<Rightarrow> u64" where
  "cp_cost c = cost_micro_usd (uh_pricing (cp_hook c)) (uh_provider (cp_hook c)) (uh_model (cp_hook c)) (cp_usage c)"

text \<open>What a completion never changes: who the keys are and where their spend is kept.\<close>

definition key_places :: "books \<Rightarrow> (virtual_key_def \<times> nat) list" where
  "key_places bk = map (\<lambda>rt. (vk_def rt, vk_spend rt)) (bk_runtimes bk)"

lemma key_places_complete: "key_places (complete_one sd bk c) = key_places bk"
proof -
  have "map (\<lambda>rt. (vk_def rt, vk_spend rt)) (xs[i := rt]) = map (\<lambda>rt. (vk_def rt, vk_spend rt)) xs"
    if "(vk_def rt, vk_spend rt) = (vk_def (xs ! i), vk_spend (xs ! i))" for xs :: "vk_runtime list" and i rt
    using that by (cases "i < length xs") (simp_all add: map_update list_update_same_conv list_update_beyond)
  then show ?thesis
    by (simp add: key_places_def complete_one_def complete_with_body_def debit_vkey_def debit_seat_def vk_debit_usage_def
        Let_def split: option.splits prod.splits)
qed

lemma spend_complete:
  assumes "i < length (bk_runtimes bk)" "vk_spend (bk_runtimes bk ! i) < length (bk_spend bk)"
    and "\<forall>j < length (bk_runtimes bk). j \<noteq> i \<longrightarrow> vk_spend (bk_runtimes bk ! j) \<noteq> vk_spend (bk_runtimes bk ! i)"
    and "\<forall>j. uh_vkey (cp_hook c) = Some j \<longrightarrow> j < length (bk_runtimes bk)"
    and "uh_vkey (cp_hook c) = Some i \<Longrightarrow> vk_period_ordinal (bk_runtimes bk ! i) (at_unix (cp_at c)) = p"
  shows "unat (sp_current (bk_spend (complete_one sd bk c) ! vk_spend (bk_runtimes bk ! i)) p) =
      min (unat (sp_current (bk_spend bk ! vk_spend (bk_runtimes bk ! i)) p)
        + (if uh_vkey (cp_hook c) = Some i then unat (cp_cost c) else 0)) (2 ^ 40 - 1) \<and>
    length (bk_spend (complete_one sd bk c)) = length (bk_spend bk)"
proof -
  have le: "unat (sp_current w p) \<le> 2 ^ 40 - 1" for w
    using sp_spent_le [of w] unat_SPEND_MASK by (simp add: sp_current_def word_le_nat_alt)
  have spend: "bk_spend (complete_one sd bk c) = (case uh_vkey (cp_hook c) of None \<Rightarrow> bk_spend bk
      | Some j \<Rightarrow> if 0 < cp_cost c then (bk_spend bk)[vk_spend (bk_runtimes bk ! j) :=
          sp_next (cp_cost c) (vk_period_ordinal (bk_runtimes bk ! j) (at_unix (cp_at c))) (bk_spend bk ! vk_spend (bk_runtimes bk ! j))]
        else bk_spend bk)"
    by (simp add: complete_one_def complete_with_body_def debit_vkey_def debit_seat_def vk_debit_usage_def cp_cost_def
        Let_def sp_add_def split: option.splits prod.splits)
  show ?thesis
  proof (cases "uh_vkey (cp_hook c)")
    case None
    then show ?thesis using le by (simp add: spend min_def)
  next
    case (Some j)
    show ?thesis
    proof (cases "j = i")
      case True
      with Some assms(1,2,5) le show ?thesis
        by (auto simp: spend sp_next_current word_gt_0 min_def)
    next
      case False
      with Some assms(3,4) have "vk_spend (bk_runtimes bk ! j) \<noteq> vk_spend (bk_runtimes bk ! i)" by blast
      with Some False le show ?thesis by (simp add: spend min_def)
    qed
  qed
qed

lemma place_nth:
  assumes "key_places bk' = key_places bk" "i < length (bk_runtimes bk)"
  shows "vk_def (bk_runtimes bk' ! i) = vk_def (bk_runtimes bk ! i)" "vk_spend (bk_runtimes bk' ! i) = vk_spend (bk_runtimes bk ! i)"
    "length (bk_runtimes bk') = length (bk_runtimes bk)"
proof -
  show len: "length (bk_runtimes bk') = length (bk_runtimes bk)" using assms(1) unfolding key_places_def by (rule map_eq_imp_length_eq)
  have "key_places bk' ! i = key_places bk ! i" by (simp add: assms(1))
  then show "vk_def (bk_runtimes bk' ! i) = vk_def (bk_runtimes bk ! i)" "vk_spend (bk_runtimes bk' ! i) = vk_spend (bk_runtimes bk ! i)"
    using assms(2) len by (simp_all add: key_places_def)
qed

lemma queue_complete:
  assumes "sk_queue (bk_sink bk) = Some q" "length q < 8192"
    and "\<forall>j. uh_vkey (cp_hook c) = Some j \<longrightarrow> j < length (bk_runtimes bk)"
  shows "\<exists>r. sk_queue (bk_sink (complete_one sd bk c)) = Some (q @ [r]) \<and> ur_cost_micro_usd r = cp_cost c \<and>
    ur_vkey r = map_option (\<lambda>j. vd_id (vk_def (bk_runtimes bk ! j))) (uh_vkey (cp_hook c))"
proof -
  define bk1 where "bk1 = debit_seat (debit_vkey bk (uh_vkey (cp_hook c)) (cp_usage c) (cp_cost c) (cp_at c)) (uh_seat (cp_hook c)) (cp_usage c) (cp_at c)"
  define r where "r = usage_record_of sd bk1 (cp_hook c) (cp_status c) (cp_usage c) (cp_cost c) (cp_at c)"
  have sink: "bk_sink bk1 = bk_sink bk"
    by (simp add: bk1_def debit_seat_def debit_vkey_def Let_def split: option.splits prod.splits)
  have "key_places (complete_one sd bk c) = key_places bk1"
    by (simp add: key_places_def complete_one_def complete_with_body_def bk1_def cp_cost_def Let_def)
  then have places: "key_places bk1 = key_places bk" using key_places_complete by simp
  have "sk_queue (record_bodies sk a b d e f) = sk_queue sk" for sk a b d e f
    by (simp add: record_bodies_def Let_def split: prod.splits)
  then have "sk_queue (bk_sink (complete_one sd bk c)) = Some (q @ [r])"
    using assms(1,2) sink
    by (simp add: complete_one_def complete_with_body_def Let_def cp_cost_def [symmetric] bk1_def [symmetric] r_def [symmetric]
        sk_record_def try_send_def)
  moreover have "ur_vkey r = map_option (\<lambda>j. vd_id (vk_def (bk_runtimes bk ! j))) (uh_vkey (cp_hook c))"
    using place_nth(1) [OF places] assms(3) by (cases "uh_vkey (cp_hook c)") (simp_all add: r_def usage_record_of_def)
  moreover have "ur_cost_micro_usd r = cp_cost c" by (simp add: r_def usage_record_of_def)
  ultimately show ?thesis by blast
qed

definition log_cost :: "string \<Rightarrow> usage_record list \<Rightarrow> nat" where
  "log_cost key records = sum_list (map (\<lambda>r. unat (ur_cost_micro_usd r)) (filter (\<lambda>r. ur_vkey r = Some key) records))"


definition sample_runtime :: vk_runtime where
  "sample_runtime = \<lparr>vk_def = sample_key ''k1'' ''s'', vk_hash = None, vk_prev = None, vk_rpm = None, vk_tpm = None, vk_spend = 0, vk_shares = 1\<rparr>"

definition sample_completion :: completion where
  "sample_completion = \<lparr>cp_hook = sample_hook\<lparr>uh_vkey := Some 0\<rparr>, cp_status = 200,
     cp_usage = \<lparr>tu_input = 1000, tu_output = 10, tu_cached = 0\<rparr>, cp_output = None,
     cp_at = sample_instant\<rparr>"


section \<open>A restart\<close>


definition sample_budget_runtime :: "string \<Rightarrow> nat \<Rightarrow> vk_runtime" where
  "sample_budget_runtime key place = sample_runtime
     \<lparr>vk_def := (sample_key key ''s'')\<lparr>vd_budget := Some \<lparr>bu_usd = Finite 5, bu_period = Monthly\<rparr>\<rparr>, vk_spend := place\<rparr>"


section \<open>What memory keeps\<close>

text \<open>The ring holds the last thousand records.\<close>

theorem the_ring_holds_the_last_thousand: "foldl push_recent [] rs = final RECENT_CAP rs"
proof (induction rs rule: rev_induct)
  case (snoc r rs)
  have cap: "0 < RECENT_CAP" by (simp add: RECENT_CAP_def)
  show ?case
  proof (cases "length rs < RECENT_CAP")
    case True
    then show ?thesis using snoc by (simp add: push_recent_def final_def)
  next
    case False
    then have "length (rs @ [r]) - RECENT_CAP = Suc (length rs - RECENT_CAP)" by simp
    moreover have "tl (drop (length rs - RECENT_CAP) rs) = drop (Suc (length rs - RECENT_CAP)) rs" by (simp add: tl_drop drop_Suc)
    ultimately show ?thesis using snoc False cap by (simp add: push_recent_def final_def)
  qed
qed simp

definition hot_ok :: "hot_bodies \<Rightarrow> bool" where
  "hot_ok hb \<longleftrightarrow> distinct (hb_order hb) \<and> dom (hb_by_id hb) = set (hb_order hb) \<and> length (hb_order hb) \<le> HOT_BODIES_CAP"

lemma hot_evict_ok:
  assumes "distinct order" "dom by_id = set order"
  shows "distinct (hb_order (hot_evict order by_id)) \<and> dom (hb_by_id (hot_evict order by_id)) = set (hb_order (hot_evict order by_id)) \<and>
    length (hb_order (hot_evict order by_id)) < HOT_BODIES_CAP \<and> set (hb_order (hot_evict order by_id)) \<subseteq> set order"
  using assms
proof (induction order by_id rule: hot_evict.induct)
  case (2 oldest order by_id)
  have d: "dom (by_id(oldest := None)) = set order" using 2(2,3) by auto
  show ?case
  proof (cases "HOT_BODIES_CAP \<le> length (oldest # order)")
    case True
    have e: "hot_evict (oldest # order) by_id = hot_evict order (by_id(oldest := None))" using True by simp
    have "distinct order" using 2(2) by simp
    from 2(1) [OF True this d] show ?thesis unfolding e list.set by blast
  next
    case False
    then show ?thesis using 2(2,3) by simp
  qed
qed (simp add: HOT_BODIES_CAP_def RECENT_CAP_def)

text \<open>The map of the hot bodies and the order of their arrival stay in step, within their bound.\<close>

theorem hot_bodies_stay_in_step:
  assumes "hot_ok hb"
  shows "hot_ok (hot_insert hb b) \<and> hb_by_id (hot_insert hb b) (rb_request_id b) \<noteq> None"
proof (cases "hb_by_id hb (rb_request_id b)")
  case None
  then have "rb_request_id b \<notin> set (hb_order hb)" using assms by (auto simp: hot_ok_def)
  with hot_evict_ok [of "hb_order hb" "hb_by_id hb"] assms None show ?thesis
    by (auto simp: hot_ok_def hot_insert_def Let_def)
qed (use assms in \<open>simp add: hot_insert_def\<close>)

section \<open>Text that is cut\<close>

lemma utf8_cases:
  assumes "utf8_valid s" "s \<noteq> []"
  obtains p rest where "s = p @ rest" "utf8_valid rest" "p \<noteq> []" "\<not> utf8_tail (hd p)" "\<forall>c \<in> set (tl p). utf8_tail c"
    "\<forall>t. utf8_valid (p @ t) = utf8_valid t"
proof -
  have lead: "\<not> utf8_tail a" if "byte a < 128 \<or> byte_in 194 223 a \<or> utf8_second3 a b \<or> utf8_second4 a b" for a b
    using that by (auto simp: utf8_tail_def byte_in_def utf8_second3_def utf8_second4_def split: if_splits)
  have tail: "utf8_tail b" if "utf8_second3 a b \<or> utf8_second4 a b" for a b
    using that by (auto simp: utf8_tail_def byte_in_def utf8_second3_def utf8_second4_def split: if_splits)
  obtain a r where s: "s = a # r" using assms(2) by (cases s) auto
  note v = assms(1) [unfolded s utf8_valid.simps(2)]
  show ?thesis
  proof (cases "byte a < 128")
    case True
    show ?thesis by (rule that [of "[a]" r]) (use True v lead in \<open>simp_all add: s\<close>)
  next
    case big: False
    with v obtain b r2 where r: "r = b # r2" by (cases r) simp_all
    note v2 = v [unfolded r if_not_P [OF big] list.case]
    show ?thesis
    proof (cases "byte_in 194 223 a")
      case True
      show ?thesis by (rule that [of "[a, b]" r2]) (use True big v2 lead in \<open>simp_all add: s r utf8_valid.simps(2)\<close>)
    next
      case not2: False
      with v2 obtain c r3 where r2: "r2 = c # r3" by (cases r2) simp_all
      note v3 = v2 [unfolded r2 if_not_P [OF not2] list.case]
      show ?thesis
      proof (cases "utf8_second3 a b")
        case True
        show ?thesis by (rule that [of "[a, b, c]" r3])
            (use True big not2 v3 lead [of a b] tail [of a b] in \<open>simp_all add: s r r2 utf8_valid.simps(2)\<close>)
      next
        case not3: False
        with v3 obtain d r4 where r3: "r3 = d # r4" by (cases r3) simp_all
        note v4 = v3 [unfolded r3 if_not_P [OF not3] list.case]
        show ?thesis by (rule that [of "[a, b, c, d]" r4])
            (use big not2 not3 v4 lead [of a b] tail [of a b] in \<open>simp_all add: s r r2 r3 utf8_valid.simps(2)\<close>)
      qed
    qed
  qed
qed

lemma utf8_append: "utf8_valid s \<Longrightarrow> utf8_valid (s @ t) = utf8_valid t"
proof (induction "length s" arbitrary: s rule: less_induct)
  case less
  show ?case
  proof (cases "s = []")
    case False
    from less.prems False obtain p rest where p: "s = p @ rest" "utf8_valid rest" "p \<noteq> []" "\<not> utf8_tail (hd p)" "\<forall>c \<in> set (tl p). utf8_tail c"
      "\<forall>t. utf8_valid (p @ t) = utf8_valid t"
      by (rule utf8_cases)
    then show ?thesis using less.hyps [of rest] by simp
  qed simp
qed

lemma utf8_take:
  "utf8_valid s \<Longrightarrow> is_char_boundary s n \<Longrightarrow> utf8_valid (take n s)"
proof (induction "length s" arbitrary: s n rule: less_induct)
  case less
  show ?case
  proof (cases "s = [] \<or> n = 0")
    case False
    then have "s \<noteq> []" by simp
    from less.prems(1) this obtain p rest where p: "s = p @ rest" "utf8_valid rest" "p \<noteq> []" "\<not> utf8_tail (hd p)" "\<forall>c \<in> set (tl p). utf8_tail c"
      "\<forall>t. utf8_valid (p @ t) = utf8_valid t" by (rule utf8_cases)
    have "length p \<le> n"
    proof (rule ccontr)
      assume "\<not> length p \<le> n"
      with False p(3) have "s ! n \<in> set (tl p)" "n \<noteq> length s" unfolding p(1) by (cases p; cases n; simp add: nth_append)+
      with less.prems(2) p(5) False show False by (auto simp: is_char_boundary_def)
    qed
    then have "take n s = p @ take (n - length p) rest" "is_char_boundary rest (n - length p)"
      using less.prems(2) unfolding p(1) by (auto simp: is_char_boundary_def nth_append)
    with less.hyps [of rest "n - length p"] p show ?thesis by simp
  qed auto
qed

lemma take_chars_append: "\<not> utf8_tail (hd p) \<Longrightarrow> p \<noteq> [] \<Longrightarrow> \<forall>c \<in> set (tl p). utf8_tail c \<Longrightarrow>
   take_chars n (p @ rest) = (if n = 0 then [] else p @ take_chars (n - 1) rest)"
proof -
  have tails: "\<forall>c \<in> set q. utf8_tail c \<Longrightarrow> take_chars m (q @ rest) = q @ take_chars m rest" for q m
    by (induction q) auto
  show "\<not> utf8_tail (hd p) \<Longrightarrow> p \<noteq> [] \<Longrightarrow> \<forall>c \<in> set (tl p). utf8_tail c \<Longrightarrow>
   take_chars n (p @ rest) = (if n = 0 then [] else p @ take_chars (n - 1) rest)"
    using tails by (cases p) auto
qed

lemma utf8_take_chars: "utf8_valid s \<Longrightarrow> utf8_valid (take_chars n s)"
proof (induction "length s" arbitrary: s n rule: less_induct)
  case less
  show ?case
  proof (cases "s = []")
    case False
    with less.prems obtain p rest where p: "s = p @ rest" "utf8_valid rest" "p \<noteq> []" "\<not> utf8_tail (hd p)" "\<forall>c \<in> set (tl p). utf8_tail c"
      "\<forall>t. utf8_valid (p @ t) = utf8_valid t" by (rule utf8_cases)
    with less.hyps [of rest "n - 1"] show ?thesis by (simp add: take_chars_append)
  qed simp
qed

lemma floor_boundary_ok: "is_char_boundary s (floor_boundary s n)"
  by (induction n) (auto simp: is_char_boundary_def)

lemma decimal_ascii: "is_ascii (decimal n)"
  using decimal_digits [of n] by (auto simp: is_ascii_def list_all_iff is_digit_def byte_in_def)

text \<open>
  What is kept of a text is text: a body cut at the byte limit and a prompt cut at a number of
  characters end on a character boundary, so both are valid UTF-8 where the original was.
\<close>

theorem kept_text_is_utf8:
  assumes "utf8_valid text"
  shows "utf8_valid (fst (cap_body text limit)) \<and> utf8_valid (truncate_chars text n)"
proof -
  have marks: "utf8_valid [CHR 10, CHR 0xE2, CHR 0x80, CHR 0xA6]" "utf8_valid [CHR 0xE2, CHR 0x80, CHR 0xA6]"
    by code_simp+
  have "utf8_valid ('' truncated at '' @ decimal limit @ '' bytes'')"
    by (rule utf8_valid_ascii) (simp add: decimal_ascii)
  then have "utf8_valid (t @ [CHR 10, CHR 0xE2, CHR 0x80, CHR 0xA6] @ ('' truncated at '' @ decimal limit @ '' bytes''))"
    if "utf8_valid t" for t
    using utf8_append [OF that] utf8_append [OF marks(1)] by metis
  then have "utf8_valid (fst (cap_body text limit))"
    using assms utf8_take [OF assms floor_boundary_ok] by (simp only: cap_body_def fst_conv if_splits split: if_split) simp
  moreover have "utf8_valid (truncate_chars text n)"
    using assms utf8_append [OF utf8_take_chars [OF assms, of n]] marks(2) by (simp only: truncate_chars_def split: if_split) simp
  ultimately show ?thesis by blast
qed

theorem kept_text_is_utf8_witness:
  "utf8_valid (fst (cap_body [CHR 0xC3, CHR 0xA9, CHR 0xC3, CHR 0xA9] 3))"
  using kept_text_is_utf8 [of "[CHR 0xC3, CHR 0xA9, CHR 0xC3, CHR 0xA9]" 3 1]
  by (simp add: utf8_valid.simps(2) byte_in_def utf8_tail_def)

end
