(* ===== verification/Spec2Isabelle.thy ===== *)
theory Spec2Isabelle
  imports Token_Bucket Circuit_Breaker Sse_Codec Event_Stream Virtual_Keys Access_Grants Backends Startup
    Request_Guarantees Console_Laws Metering_Laws
begin

text \<open>
  A verification library for Rapid Router, a gateway that accepts OpenAI-style requests, authenticates
  the caller, chooses an upstream provider and one of its credentials, forwards the request and
  streams the answer back, with a control plane shared by several nodes.

  \<^bold>\<open>Parts and theories.\<close> Paths are relative to \<open>src/crates\<close>; a definition carries the name of the function
  it translates, with a prefix for its type.

  \<^item> \<open>RR_Prelude\<close>: machine integers as words (\<open>+\<close> wraps, as in the release profile), \<open>f64\<close> as a rational,
    an infinity or NaN, byte strings with the operations of \<open>str\<close> the program uses, UTF-8 validity,
    sums over families of threads.
  \<^item> \<open>Token_Bucket\<close> and \<open>Circuit_Breaker\<close> (\<open>router-core/src/token_bucket.rs\<close>, \<open>breaker.rs\<close>): the sequential
    operations, and the same code as single atomic steps of any number of threads. The accounting of
    the bucket under races, the single probe of a breaker, and the refinement of the abstract
    closed/open/half-open machine by the packed word.
  \<^item> \<open>Framing\<close>, \<open>Sse_Codec\<close>, \<open>Event_Stream\<close> (\<open>sse.rs\<close>, \<open>eventstream.rs\<close>): the incremental parsers. The locale
    of \<open>Framing\<close> is the contract of a scanner; both codecs interpret it, which gives that the way the
    bytes are cut into chunks is irrelevant. Round trips, resynchronisation after corruption.
  \<^item> \<open>Calendar\<close>, \<open>Virtual_Keys\<close> (\<open>vkey.rs\<close>): civil dates and RFC 3339, tokens, hashes and grace windows,
    budgets and the racing spend counter, the rebuild of the table.
  \<^item> \<open>Access_Grants\<close> (\<open>access.rs\<close>): what an identity of the console may do, as the union of its teams.
  \<^item> \<open>Store_State\<close>, \<open>Control_Plane\<close>, \<open>Backends\<close> (\<open>router-store/src/state.rs\<close>, \<open>lib.rs\<close>, \<open>backend/\<close>): the document
    and its commands; the locale \<open>control_plane\<close> is the contract of a backend (compare-and-swap on a
    version), under which a fleet of nodes loses no update; the memory and the file backend interpret it.
  \<^item> \<open>Gateway_Error\<close> (\<open>error.rs\<close>), \<open>Config_Raw\<close> (\<open>config/raw.rs\<close>, \<open>presets.rs\<close>), \<open>Config_Model\<close> (\<open>config/mod.rs\<close>),
    \<open>Config_Checks\<close>, \<open>Config_Providers\<close>, \<open>Config_Routing\<close>, \<open>Config_Validate\<close> (\<open>config/validate.rs\<close>): the document
    as written, the resolved configuration, every validator with its messages, and the promises of a
    configuration that passed.
  \<^item> \<open>Key_Pool\<close>, \<open>Key_Selection\<close>, \<open>Routing_Table\<close>, \<open>Hot_Reload\<close> (\<open>router.rs\<close>): ceilings, ownership and health of a
    provider's credentials and the three phases of their selection; the routing snapshot, resolution
    and plans; the running gateway as a transition system of admissions, completions and reloads.
  \<^item> \<open>Startup\<close>: validation and routing together.
  \<^item> \<open>Json_Value\<close>, \<open>Json_Probe\<close> (\<open>router-core/src/json.rs\<close>), \<open>Inbound_Chat\<close> (\<open>InboundChat\<close> of
    \<open>router-server/src/proxy.rs\<close>): JSON values, the one-pass scanner for the routing fields of a body, and the
    body sent on with another model in it. The parser of JSON text is the parameter \<open>serde\<close>.
  \<^item> \<open>Quota\<close> (\<open>router-core/src/quota.rs\<close>): how long an exhausted seat stays benched, from headers and bodies.
  \<^item> \<open>Attempt\<close>, \<open>Dispatch\<close>, \<open>Dispatch_Laws\<close>, \<open>Request_Guarantees\<close> (\<open>proxy.rs\<close>): one upstream try with its
    benches, renewals and responses; the walk over targets and attempts; what a whole request sends, whose
    accounts it uses, which permits it gives back and that it is answered. The locale \<open>dispatcher\<close> is the
    contract of an endpoint that prepares requests; the chat and the relay endpoint interpret it. What
    the other requests do to the shared pools between two steps is the parameter \<open>wd_meanwhile\<close>.
  \<^item> \<open>Sorted_Map\<close>, \<open>Histogram\<close> (\<open>router-server/src/histogram.rs\<close>): ordered maps, with the locale \<open>accumulator\<close> for
    rows that are merged under their key, and latency histograms, which lose at most a bucket.
  \<^item> \<open>Usage_Tokens\<close>, \<open>Usage_Window\<close>, \<open>Usage_Rollup\<close>, \<open>Usage_Calendar\<close>, \<open>Usage_History\<close>, \<open>Usage_Summary\<close>
    (\<open>router-server/src/usage.rs\<close>): token counts and prices, the minute ring of the last day, hourly rows (which
    interpret \<open>accumulator\<close>), the names of day and month partitions, and what the console reads back.
  \<^item> \<open>Rollup_Cache\<close>, \<open>Flusher_Laws\<close> (\<open>rollup_cache.rs\<close>, the flusher of \<open>usage.rs\<close>): the usage directory and the caches
    derived from it; with or without caches, before and after crashes, a day reads the same.
  \<^item> \<open>History_Laws\<close>, \<open>Summary_Laws\<close>, \<open>Console_Laws\<close>: what a reader gets: a window is answered, its figures add up,
    and each request is counted once, from the flusher to the Usage page.
  \<^item> \<open>Metering\<close>, \<open>Metering_Laws\<close> (\<open>MeteredBody\<close>, \<open>UsageHook\<close>, \<open>UsagePipeline\<close> of \<open>usage.rs\<close>): a response is booked
    once, the log is the bill, and a restart reads the spend of a key back.

  \<^bold>\<open>How they interact.\<close> A configuration is validated (\<open>validate_config\<close>), turned into a routing table
  (\<open>from_config_with\<close>) and replaced as a whole on every change, carrying balances, buckets and
  semaphores of the keys it keeps. A request is let in by the table of virtual keys (\<open>vk_verify\<close>,
  \<open>vk_admit\<close>), planned (\<open>rt_plan\<close>) and given a credential (\<open>pr_admit_for\<close>), whose breaker and buckets record
  the outcome. \<open>run_chat\<close> composes these: gate, targets, attempts, answer. The body of the answer is metered:
  when it ends, its tokens and cost are debited from the virtual key and the account, and its record goes to the
  ring and the queue of the flusher (\<open>complete_with_body\<close>), which writes files, caches and the rows in memory
  (\<open>flush_step\<close>) that a page of the console is computed from (\<open>rollups_for_window\<close>, \<open>usage_summary_of\<close>).
  Commands of the console are committed to the shared document (\<open>store_commit\<close>), from
  which the nodes rebuild their tables.

  \<^bold>\<open>Conventions.\<close> Shared mutable objects are passed explicitly: a semaphore is an address in a list of
  free permits, a spend counter an address in a store. Maps the program walks are association lists
  in key order, maps it only looks into are partial functions. A result with \<open>Inl\<close> is an \<open>Err\<close>; where the
  code can panic (\<open>expect\<close>) the result is an option and \<open>None\<close> is the panic. Random draws, hashes, parsers
  of the crates, the environment and the file system are parameters.

  \<^bold>\<open>Bounds and fuel.\<close> The commit loop runs \<open>COMMIT_ATTEMPTS\<close> turns, the constant of the code; trimming
  takes as many turns as the text has bytes; the levelled pick takes as many turns as there are
  candidates, each removing one; the search for the first millisecond of a day takes 17 halvings of 65536
  days; the search for the end of a month takes four steps and the walk over a window as many as the days up
  to its end and two more, and both are proved to end within them. Every other recursion is structural or has a measure; the alias
  chase ends because each turn uses up a name.

  \<^bold>\<open>Not modelled.\<close> The S3 and DynamoDB backends, sealing of secrets, the HTTP servers and clients, the
  translation between the wire formats of the providers and the signing of requests, the renewal of credentials,
  the bodies kept on disk and the usage shipped between nodes, metrics, the event stream of the console, its
  admin interface, sessions and assets, the rasterizer of documents, the command line and the test rigs;
  \<open>PROJECT.json\<close> lists them with the reasons. The figures of the pipeline are those of one node.
\<close>

end
